(* ===== verification/Gp_Prelude.thy ===== *)
theory Gp_Prelude
  imports Main "HOL-Library.Word" "HOL-Library.Multiset"
begin

unbundle bit_operations_syntax

text \<open>
  Shared vocabulary of the development: the machine integers of the native library
  (\<open>uint8_t\<close> .. \<open>uint64_t\<close> as words, so that addition and subtraction wrap as they do in
  C++), byte strings, and the generic facts on lists and words that more than one component
  uses. \<open>size_t\<close> values are container sizes and are natural numbers here; where the source
  subtracts them, the model writes the guard that the source establishes first.
\<close>

type_synonym u8 = "8 word"
type_synonym u16 = "16 word"
type_synonym u32 = "32 word"
type_synonym u64 = "64 word"
type_synonym bytes = "u8 list"

section \<open>Lists\<close>

lemma extract_snoc:
  "\<forall>x\<in>set xs. \<not> P x \<Longrightarrow> P e \<Longrightarrow> List.extract P (xs @ [e]) = Some (xs, e, [])"
  by (induction xs) (simp_all add: extract_Cons_code)

text \<open>Cutting a list into consecutive pieces of \<open>n\<close> elements, the last one possibly shorter.\<close>

function chunks :: "nat \<Rightarrow> 'a list \<Rightarrow> 'a list list" where
  "chunks n xs = (if n = 0 \<or> xs = [] then [] else take n xs # chunks n (drop n xs))"
  by pat_completeness auto
termination
  by (relation "measure (\<lambda>(n, xs). length xs)") auto

declare chunks.simps [simp del]

lemma chunks_Nil [simp]: "chunks n [] = []"
  by (simp add: chunks.simps)

lemma chunks_step: "0 < n \<Longrightarrow> xs \<noteq> [] \<Longrightarrow> chunks n xs = take n xs # chunks n (drop n xs)"
  by (simp add: chunks.simps)

lemma concat_chunks [simp]: "0 < n \<Longrightarrow> concat (chunks n xs) = xs"
proof (induction n xs rule: chunks.induct)
  case (1 n xs)
  then show ?case by (cases "xs = []") (auto simp: chunks_step)
qed

lemma chunks_bounds: "c \<in> set (chunks n xs) \<Longrightarrow> c \<noteq> [] \<and> length c \<le> n"
proof (induction n xs rule: chunks.induct)
  case (1 n xs)
  then show ?case by (subst (asm) (2) chunks.simps) (auto split: if_splits)
qed

lemma length_chunks: "0 < n \<Longrightarrow> length (chunks n xs) = (length xs + n - 1) div n"
proof (induction n xs rule: chunks.induct)
  case (1 n xs)
  show ?case
  proof (cases "xs = []")
    case True
    with "1.prems" show ?thesis by simp
  next
    case False
    with 1 have "length (chunks n xs) = Suc ((length xs - n + n - 1) div n)"
      by (simp add: chunks_step)
    also have "\<dots> = (length xs + n - 1) div n"
    proof (cases "n \<le> length xs")
      case True
      with "1.prems" have "length xs + n - 1 = (length xs - n + n - 1) + n" by simp
      with "1.prems" show ?thesis by (metis Suc_eq_plus1 div_add_self2 less_numeral_extra(3))
    next
      case False
      with "1.prems" \<open>xs \<noteq> []\<close> have "length xs + n - 1 = n + (length xs - 1)" "length xs - 1 < n"
        by (auto simp: Suc_le_eq)
      then have "(length xs + n - 1) div n = 1 + (length xs - 1) div n"
        using "1.prems" by (simp only: div_add_self1)
      with False \<open>length xs - 1 < n\<close> "1.prems" show ?thesis by simp
    qed
    finally show ?thesis .
  qed
qed

lemma extract_None_iff_ball: "List.extract P xs = None \<longleftrightarrow> (\<forall>x\<in>set xs. \<not> P x)"
  by (auto simp: extract_None_iff)

lemma extract_SomeD:
  assumes "List.extract P xs = Some (ys, y, zs)"
  shows "xs = ys @ y # zs" "P y" "\<forall>x\<in>set ys. \<not> P x"
  using assms by (auto simp: extract_Some_iff)

lemma extract_hd [simp]: "P x \<Longrightarrow> List.extract P (x # xs) = Some ([], x, xs)"
  by (simp add: extract_Cons_code)

section \<open>Running a machine over a list of inputs\<close>

text \<open>The state after all inputs, and everything the machine put out, in order.\<close>

fun run :: "('s \<Rightarrow> 'i \<Rightarrow> 's \<times> 'o list) \<Rightarrow> 's \<Rightarrow> 'i list \<Rightarrow> 's \<times> 'o list" where
  "run f s [] = (s, [])"
| "run f s (i # is) = (let (s1, out1) = f s i; (s2, out2) = run f s1 is in (s2, out1 @ out2))"

lemma run_append:
  "run f s (is @ js) =
     (let (s1, out1) = run f s is; (s2, out2) = run f s1 js in (s2, out1 @ out2))"
  by (induction "is" arbitrary: s) (auto simp: Let_def split: prod.splits)

lemma fst_run_append [simp]: "fst (run f s (is @ js)) = fst (run f (fst (run f s is)) js)"
  by (simp add: run_append Let_def split: prod.splits)

lemma run_invariant:
  assumes "\<And>s i. I s \<Longrightarrow> I (fst (f s i))" "I s"
  shows "I (fst (run f s is))"
  using assms(2)
proof (induction "is" arbitrary: s)
  case (Cons i "is")
  then have "I (fst (run f (fst (f s i)) is))" using assms(1) by blast
  then show ?case by (simp add: Let_def split_beta)
qed simp

text \<open>
  The contract several components share: a machine that starts in a good state and whose
  every step keeps it good; and a machine that, besides, owes something for what it takes in
  and settles it by what it puts out, so that nothing is lost and nothing is settled twice.
\<close>

locale invariant_machine =
  fixes step :: "'s \<Rightarrow> 'i \<Rightarrow> 's \<times> 'o list"
    and init :: 's
    and inv :: "'s \<Rightarrow> bool"
  assumes inv_init: "inv init"
    and inv_step: "inv s \<Longrightarrow> inv (fst (step s i))"
begin

lemma inv_run: "inv (fst (run step init is))"
  using inv_step inv_init by (rule run_invariant)

lemma inv_run_from: "inv s \<Longrightarrow> inv (fst (run step s is))"
  using inv_step by (rule run_invariant)

end

text \<open>An invariant under steps with a condition on their input.\<close>

locale guarded_machine =
  fixes step :: "'s \<Rightarrow> 'i \<Rightarrow> 's \<times> 'o list"
    and init :: 's
    and inv :: "'s \<Rightarrow> bool"
    and ok :: "'i \<Rightarrow> bool"
  assumes guarded_init: "inv init"
    and guarded_step: "inv s \<Longrightarrow> ok i \<Longrightarrow> inv (fst (step s i))"
begin

lemma guarded_run_from: "inv s \<Longrightarrow> list_all ok is \<Longrightarrow> inv (fst (run step s is))"
proof (induction "is" arbitrary: s)
  case (Cons i "is")
  then have "inv (fst (run step (fst (step s i)) is))" using guarded_step by simp
  then show ?case by (simp add: Let_def split_beta)
qed simp

lemma guarded_run: "list_all ok is \<Longrightarrow> inv (fst (run step init is))"
  using guarded_init by (rule guarded_run_from)

end

locale ledger_machine = invariant_machine +
  fixes owed :: "'a \<Rightarrow> nat"
    and takes_in :: "'b \<Rightarrow> nat"
    and settles :: "'c list \<Rightarrow> nat"
  assumes owed_init: "owed init = 0"
    and settles_Nil: "settles [] = 0"
    and settles_append: "settles (xs @ ys) = settles xs + settles ys"
    and balance: "inv s \<Longrightarrow> settles (snd (step s i)) + owed (fst (step s i)) = owed s + takes_in i"
begin

lemma run_balance_from:
  assumes "inv s"
  shows "settles (snd (run step s is)) + owed (fst (run step s is)) =
    owed s + sum_list (map takes_in is)"
  using assms
proof (induction "is" arbitrary: s)
  case Nil
  then show ?case by (simp add: settles_Nil)
next
  case (Cons i "is")
  have "inv (fst (step s i))" using Cons.prems by (rule inv_step)
  from Cons.IH [OF this] balance [OF Cons.prems, of i] show ?case
    by (simp add: Let_def split_beta settles_append)
qed

lemma run_balance:
  "settles (snd (run step init is)) + owed (fst (run step init is)) = sum_list (map takes_in is)"
  using run_balance_from [OF inv_init] by (simp add: owed_init)

end

text \<open>
  A machine that makes things as it runs and settles each of them by what it puts out: what
  it holds changes by what was made less what was settled.
\<close>

locale flow_machine = invariant_machine +
  fixes held :: "'a \<Rightarrow> nat"
    and made :: "'a \<Rightarrow> nat"
    and settles :: "'c list \<Rightarrow> nat"
  assumes flow_Nil: "settles [] = 0"
    and flow_append: "settles (xs @ ys) = settles xs + settles ys"
    and flow_init: "held init = made init"
    and conserve: "inv s \<Longrightarrow> settles (snd (step s i)) + held (fst (step s i)) + made s = held s + made (fst (step s i))"
begin

lemma flow_run_from:
  "inv s \<Longrightarrow> settles (snd (run step s is)) + held (fst (run step s is)) + made s =
     held s + made (fst (run step s is))"
proof (induction "is" arbitrary: s)
  case (Cons i "is")
  from Cons.IH [OF inv_step [OF Cons.prems, of i]] conserve [OF Cons.prems, of i] show ?case
    by (simp add: Let_def split_beta flow_append)
qed (simp add: flow_Nil)

lemma flow_run: "settles (snd (run step init is)) + held (fst (run step init is)) = made (fst (run step init is))"
  using flow_run_from [OF inv_init, of "is"] flow_init by simp

end

text \<open>A machine that uses up what it is given: each thing given is used at most once.\<close>

locale budget_machine = invariant_machine +
  fixes held :: "'a \<Rightarrow> 'm multiset"
    and given :: "'b \<Rightarrow> 'm multiset"
    and used :: "'c list \<Rightarrow> 'm multiset"
  assumes held_init: "held init = {#}"
    and used_Nil: "used [] = {#}"
    and used_append: "used (xs @ ys) = used xs + used ys"
    and within_budget: "inv s \<Longrightarrow> used (snd (step s i)) + held (fst (step s i)) \<subseteq># held s + given i"
begin

lemma budget_run_from:
  "inv s \<Longrightarrow> used (snd (run step s is)) + held (fst (run step s is)) \<subseteq># held s + sum_list (map given is)"
proof (induction "is" arbitrary: s)
  case (Cons i "is")
  let ?s = "fst (step s i)" and ?u = "used (snd (step s i))"
  let ?r = "used (snd (run step ?s is)) + held (fst (run step ?s is))"
  have "?u + ?r \<subseteq># ?u + (held ?s + sum_list (map given is))"
    using Cons.IH [OF inv_step [OF Cons.prems, of i]] by (rule subset_mset.add_left_mono)
  also have "\<dots> = (?u + held ?s) + sum_list (map given is)" by (simp add: ac_simps)
  also have "\<dots> \<subseteq># (held s + given i) + sum_list (map given is)"
    using within_budget [OF Cons.prems, of i] by (rule subset_mset.add_right_mono)
  finally show ?case by (simp add: Let_def split_beta used_append ac_simps)
qed (simp add: used_Nil)

lemma budget_run: "used (snd (run step init is)) \<subseteq># sum_list (map given is)"
proof -
  have "used (snd (run step init is)) \<subseteq># used (snd (run step init is)) + held (fst (run step init is))" by simp
  also have "\<dots> \<subseteq># sum_list (map given is)" using budget_run_from [OF inv_init, of "is"] by (simp add: held_init)
  finally show ?thesis .
qed

end

text \<open>A machine with a part that runs on its own: the part's state and what is seen of the
  output are those of a machine that never sees the rest.\<close>

locale observed_machine = invariant_machine +
  fixes view :: "'a \<Rightarrow> 'v"
    and vstep :: "'v \<Rightarrow> 'b \<Rightarrow> 'v \<times> 'w list"
    and observe :: "'c list \<Rightarrow> 'w list"
  assumes observe_Nil: "observe [] = []"
    and observe_append: "observe (xs @ ys) = observe xs @ observe ys"
    and view_step: "inv s \<Longrightarrow> vstep (view s) i = (view (fst (step s i)), observe (snd (step s i)))"
begin

lemma view_run_from:
  "inv s \<Longrightarrow> run vstep (view s) is = (view (fst (run step s is)), observe (snd (run step s is)))"
proof (induction "is" arbitrary: s)
  case (Cons i "is")
  from Cons.IH [OF inv_step [OF Cons.prems, of i]] view_step [OF Cons.prems, of i] show ?case
    by (simp add: Let_def split_beta observe_append)
qed (simp add: observe_Nil)

lemma view_run: "run vstep (view init) is = (view (fst (run step init is)), observe (snd (run step init is)))"
  using inv_init by (rule view_run_from)

end

text \<open>A machine whose states stand for the states of a simpler one, step by step.\<close>

locale refined_machine =
  fixes step :: "'s \<Rightarrow> 'i \<Rightarrow> 's \<times> 'o list"
    and init :: 's
    and rel :: "'s \<Rightarrow> 'a \<Rightarrow> bool"
    and astep :: "'i \<Rightarrow> 'a \<Rightarrow> 'a"
    and ainit :: 'a
  assumes rel_init: "rel init ainit"
    and rel_step: "rel s a \<Longrightarrow> rel (fst (step s i)) (astep i a)"
begin

lemma rel_run_from: "rel s a \<Longrightarrow> rel (fst (run step s is)) (fold astep is a)"
proof (induction "is" arbitrary: s a)
  case (Cons i "is")
  then have "rel (fst (run step (fst (step s i)) is)) (fold astep is (astep i a))"
    using rel_step by blast
  then show ?case by (simp add: Let_def split_beta)
qed simp

lemma rel_run: "rel (fst (run step init is)) (fold astep is ainit)"
  using rel_init by (rule rel_run_from)

end

section \<open>Words\<close>

lemma word_u64_lt: "n < 2 ^ k \<Longrightarrow> k \<le> 64 \<Longrightarrow> take_bit k (word_of_nat n :: u64) = word_of_nat n"
  by (metis take_bit_nat_eq_self take_bit_of_nat)

lemma bit_low_masks:
  "bit (255 :: int) i \<longleftrightarrow> i < 8" "bit (31 :: int) i \<longleftrightarrow> i < 5"
proof -
  have m: "(255 :: int) = mask 8" "(31 :: int) = mask 5" by (simp_all add: mask_eq_exp_minus_1)
  show "bit (255 :: int) i \<longleftrightarrow> i < 8" "bit (31 :: int) i \<longleftrightarrow> i < 5"
    unfolding m by (simp_all only: bit_mask_iff possible_bit_def) simp_all
qed

lemma u8_eqI:
  assumes "bit a 0 = bit b 0" "bit a 1 = bit b 1" "bit a 2 = bit b 2" "bit a 3 = bit b 3"
    "bit a 4 = bit b 4" "bit a 5 = bit b 5" "bit a 6 = bit b 6" "bit a 7 = bit b 7"
  shows "a = (b :: u8)"
proof (rule bit_word_eqI)
  fix i assume "i < LENGTH(8)"
  then consider "i = 0" | "i = 1" | "i = 2" | "i = 3" | "i = 4" | "i = 5" | "i = 6" | "i = 7"
    by (simp; linarith)
  then show "bit a i = bit b i" using assms by cases simp_all
qed

lemma unat_of_nat_small: "n < 2 ^ LENGTH('a) \<Longrightarrow> unat (word_of_nat n :: 'a::len word) = n"
  by (simp add: unat_of_nat)

lemma unat_inc_below: "i < n \<Longrightarrow> unat (i + 1) = Suc (unat i)" for i n :: "'a::len word"
proof -
  assume "i < n"
  then have "Suc (unat i) < 2 ^ LENGTH('a)"
    using unsigned_less [of n, where ?'a = nat] unfolding word_less_nat_alt by linarith
  moreover have "unat (i + 1) = (unat i + 1) mod 2 ^ LENGTH('a)"
    by (simp add: unat_word_ariths)
  ultimately show ?thesis by simp
qed

lemma unat_u8_lt: "unat (b :: u8) < 256"
  using unsigned_less [of b] by simp

lemma unat_ucast_up:
  "LENGTH('a) \<le> LENGTH('b) \<Longrightarrow> unat (ucast (w :: 'a::len word) :: 'b::len word) = unat w"
  by (simp add: unsigned_ucast_eq take_bit_nat_eq_self_iff) (meson less_le_trans unsigned_less one_le_numeral power_increasing)

section \<open>Little-endian bytes\<close>

text \<open>The bytes of a word in memory order on the little-endian targets, and reading them back.\<close>

fun le_bytes :: "nat \<Rightarrow> 'a::len word \<Rightarrow> bytes" where
  "le_bytes 0 v = []"
| "le_bytes (Suc n) v = ucast v # le_bytes n (drop_bit 8 v)"

definition le_word :: "bytes \<Rightarrow> 'a::len word" where
  "le_word bs = foldr (\<lambda>b acc. push_bit 8 acc OR ucast b) bs 0"

lemma length_le_bytes [simp]: "length (le_bytes n v) = n"
  by (induction n arbitrary: v) simp_all

lemma le_word_le_bytes: "le_word (le_bytes n v) = take_bit (8 * n) v"
proof (induction n arbitrary: v)
  case (Suc n)
  have "le_word (le_bytes (Suc n) v) = push_bit 8 (take_bit (8 * n) (drop_bit 8 v)) OR ucast (ucast v :: u8)"
    using Suc.IH [of "drop_bit 8 v"] by (simp add: le_word_def)
  also have "\<dots> = take_bit (8 * Suc n) v"
    by (rule bit_word_eqI) (auto simp: bit_simps)
  finally show ?case .
qed (simp add: le_word_def)

lemma le_word_le_bytes_full: "LENGTH('a) \<le> 8 * n \<Longrightarrow> le_word (le_bytes n v) = v" for v :: "'a::len word"
  by (simp add: le_word_le_bytes take_bit_word_eq_self)

end
