(* ===== verification/Ble_Protocol.thy ===== *)
theory Ble_Protocol
  imports Gp_Prelude
begin

text \<open>
  GoPro BLE packet framing: \<open>native/include/ble_protocol.h\<close> and
  \<open>native/src/ble_protocol.cpp\<close>. Transmit side: \<open>fragment\<close>, whose loop is kept as a loop
  (a partial function, so that running forever would be \<open>None\<close>). Receive side: the class
  \<open>Reassembler\<close> as a record with \<open>reset\<close>, \<open>feed\<close> and \<open>take\<close>. The lemmas show that the
  fragmentation loop terminates and equals a closed form, that every fragment fits the ATT
  payload, that the fragments are packets of the wire format (\<open>framed\<close>, which also has the GENERAL
  headers only the camera sends), that the receiver delivers exactly the framed messages, and
  that every error leaves the receiver reset.
\<close>

section \<open>Constants and enumerations\<close>

definition kContMask :: u8 where "kContMask = 0x80"
definition kHdrMask :: u8 where "kHdrMask = 0x60"
definition kGenLenMask :: u8 where "kGenLenMask = 0x1F"
definition kExt13Byte0Mask :: u8 where "kExt13Byte0Mask = 0x1F"

datatype PacketHeader = kGeneral | kExt13 | kExt16 | kReserved

text \<open>The enumerators' values, and the cast from the two header bits.\<close>

fun packet_header_value :: "PacketHeader \<Rightarrow> u8" where
  "packet_header_value kGeneral = 0"
| "packet_header_value kExt13 = 1"
| "packet_header_value kExt16 = 2"
| "packet_header_value kReserved = 3"

definition packet_header_of :: "u8 \<Rightarrow> PacketHeader" where
  "packet_header_of b =
     (if b = 0 then kGeneral else if b = 1 then kExt13 else if b = 2 then kExt16 else kReserved)"

definition kMaxMessageLen :: nat where "kMaxMessageLen = 2 ^ 16 - 2"
definition kMinAttPayload :: nat where "kMinAttPayload = 20"

datatype FeedResult =
    kNeedMore | kComplete | kEmptyPacket | kTruncatedHdr
  | kReservedHdr | kStrayCont | kOverflow | kZeroLength

fun feed_result_to_string :: "FeedResult \<Rightarrow> string" where
  "feed_result_to_string kNeedMore = ''need-more''"
| "feed_result_to_string kComplete = ''complete''"
| "feed_result_to_string kEmptyPacket = ''empty-packet''"
| "feed_result_to_string kTruncatedHdr = ''truncated-header''"
| "feed_result_to_string kReservedHdr = ''reserved-header''"
| "feed_result_to_string kStrayCont = ''stray-continuation''"
| "feed_result_to_string kOverflow = ''overflow''"
| "feed_result_to_string kZeroLength = ''zero-length''"

section \<open>Transmit\<close>

text \<open>The header of the first fragment for a message of \<open>len\<close> bytes.\<close>

definition first_hdr :: "nat \<Rightarrow> bytes" where
  "first_hdr n =
     (let len = (word_of_nat n :: u64) in
      if n < 2 ^ 13 - 1 then
        [ucast (push_bit 5 (ucast (packet_header_value kExt13) :: u64) OR
                (drop_bit 8 len AND ucast kExt13Byte0Mask)),
         ucast (len AND 0xFF)]
      else
        [ucast (push_bit 5 (ucast (packet_header_value kExt16) :: u64)),
         ucast (drop_bit 8 len AND 0xFF),
         ucast (len AND 0xFF)])"

text \<open>
  The \<open>while (offset < len)\<close> loop. The caller has checked that the ATT payload exceeds the
  first header, so \<open>att_payload - packet.size()\<close> does not wrap.
\<close>

partial_function (option) fragment_loop ::
  "bytes \<Rightarrow> nat \<Rightarrow> bytes \<Rightarrow> nat \<Rightarrow> bool \<Rightarrow> bytes list \<Rightarrow> bytes list option" where
  "fragment_loop data att_payload hdr offset first out =
     (if offset < length data then
        (let packet = (if first then hdr else [kContMask]);
             room = att_payload - length packet;
             tk = min room (length data - offset);
             packet' = packet @ take tk (drop offset data)
         in fragment_loop data att_payload hdr (offset + tk) False (out @ [packet']))
      else Some out)"

definition fragment :: "bytes \<Rightarrow> nat \<Rightarrow> bytes list option" where
  "fragment data att_payload =
     (if data = [] \<or> length data > kMaxMessageLen then Some []
      else
        (let hdr = first_hdr (length data) in
         if att_payload \<le> length hdr then Some []
         else fragment_loop data att_payload hdr 0 True []))"

section \<open>Receive\<close>

record Reassembler =
  rx_buf :: bytes
  rx_remaining :: nat
  rx_declared :: nat
  rx_in_progress :: bool

definition rx_init :: Reassembler where
  "rx_init = \<lparr>rx_buf = [], rx_remaining = 0, rx_declared = 0, rx_in_progress = False\<rparr>"

definition rx_reset :: "Reassembler \<Rightarrow> Reassembler" where
  "rx_reset r = r\<lparr>rx_buf := [], rx_remaining := 0, rx_declared := 0, rx_in_progress := False\<rparr>"

text \<open>
  The header switch of \<open>Reassembler::feed\<close>: the error it returns with, or the declared
  length and where the payload starts.
\<close>

definition feed_header :: "bytes \<Rightarrow> FeedResult + nat \<times> nat" where
  "feed_header packet =
     (case packet_header_of (drop_bit 5 (packet ! 0 AND kHdrMask)) of
        kGeneral \<Rightarrow> Inr (unat (packet ! 0 AND kGenLenMask), 1)
      | kExt13 \<Rightarrow>
          (if length packet < 2 then Inl kTruncatedHdr
           else Inr (unat (push_bit 8 (ucast (packet ! 0 AND kExt13Byte0Mask) :: u64)
                           OR ucast (packet ! 1)), 2))
      | kExt16 \<Rightarrow>
          (if length packet < 3 then Inl kTruncatedHdr
           else Inr (unat (push_bit 8 (ucast (packet ! 1) :: u64) OR ucast (packet ! 2)), 3))
      | kReserved \<Rightarrow> Inl kReservedHdr)"

text \<open>The common tail of \<open>feed\<close>: the payload of a first or continuation packet.\<close>

definition feed_payload :: "Reassembler \<Rightarrow> bytes \<Rightarrow> nat \<Rightarrow> Reassembler \<times> FeedResult" where
  "feed_payload r packet payload_start =
     (let payload_len = length packet - payload_start in
      if payload_len > rx_remaining r then (rx_reset r, kOverflow)
      else
        (let r' = r\<lparr>rx_buf := rx_buf r @ drop payload_start packet,
                    rx_remaining := rx_remaining r - payload_len\<rparr>
         in if rx_remaining r' = 0 then (r'\<lparr>rx_in_progress := False\<rparr>, kComplete)
            else (r', kNeedMore)))"

definition feed :: "Reassembler \<Rightarrow> bytes \<Rightarrow> Reassembler \<times> FeedResult" where
  "feed r packet =
     (if packet = [] then (rx_reset r, kEmptyPacket)
      else if packet ! 0 AND kContMask \<noteq> 0 then
        (if \<not> rx_in_progress r then (rx_reset r, kStrayCont)
         else feed_payload r packet 1)
      else
        (case feed_header packet of
           Inl e \<Rightarrow> (rx_reset r, e)
         | Inr (decl, payload_start) \<Rightarrow>
             (if decl = 0 then (rx_reset r, kZeroLength)
              else feed_payload
                     (r\<lparr>rx_buf := [], rx_declared := decl, rx_remaining := decl,
                        rx_in_progress := True\<rparr>) packet payload_start)))"

text \<open>\<open>take\<close> moves the message out and clears the state.\<close>

definition rx_take :: "Reassembler \<Rightarrow> Reassembler \<times> bytes" where
  "rx_take r = (rx_reset r, rx_buf r)"

definition bytes_remaining :: "Reassembler \<Rightarrow> nat" where
  "bytes_remaining r = rx_remaining r"

definition declared_len :: "Reassembler \<Rightarrow> nat" where
  "declared_len r = rx_declared r"


text \<open>
  What \<open>BleSession::feed\<close> does with a verdict: a complete message is taken out at once, an
  error or an incomplete message delivers nothing.
\<close>

definition rx_receive :: "Reassembler \<Rightarrow> bytes \<Rightarrow> Reassembler \<times> bytes list" where
  "rx_receive r packet =
     (case feed r packet of
        (r', res) \<Rightarrow>
          (if res = kComplete then (case rx_take r' of (r'', msg) \<Rightarrow> (r'', [msg]))
           else (r', [])))"

section \<open>Fragmentation: the loop terminates and equals its closed form\<close>

definition fragment_ref :: "bytes \<Rightarrow> nat \<Rightarrow> bytes list" where
  "fragment_ref data att_payload =
     (let hdr = first_hdr (length data); room = att_payload - length hdr in
      if data = [] \<or> length data > kMaxMessageLen \<or> att_payload \<le> length hdr then []
      else (hdr @ take room data) #
           map ((#) kContMask) (chunks (att_payload - 1) (drop room data)))"

lemma length_first_hdr: "length (first_hdr n) = (if n < 2 ^ 13 - 1 then 2 else 3)"
  by (simp add: first_hdr_def Let_def)

lemma fragment_loop_cont:
  assumes "1 < att"
  shows "fragment_loop data att hdr off False out =
    Some (out @ map ((#) kContMask) (chunks (att - 1) (drop off data)))"
proof (induction "length data - off" arbitrary: off out rule: less_induct)
  case less
  show ?case
  proof (cases "off < length data")
    case False
    then show ?thesis by (subst fragment_loop.simps) simp
  next
    case True
    define tk where "tk = min (att - 1) (length data - off)"
    have tk: "0 < tk" and dec: "length data - (off + tk) < length data - off"
      using assms True by (auto simp: tk_def)
    have take: "take tk (drop off data) = take (att - 1) (drop off data)"
      and drop: "drop tk (drop off data) = drop (att - 1) (drop off data)"
      by (auto simp: tk_def min_def)
    have "fragment_loop data att hdr off False out =
        fragment_loop data att hdr (off + tk) False (out @ [kContMask # take tk (drop off data)])"
      using True by (subst fragment_loop.simps) (simp add: Let_def tk_def)
    also have "\<dots> = Some ((out @ [kContMask # take tk (drop off data)]) @
        map ((#) kContMask) (chunks (att - 1) (drop (off + tk) data)))"
      by (rule less [OF dec])
    also have "chunks (att - 1) (drop off data) =
        take tk (drop off data) # chunks (att - 1) (drop (off + tk) data)"
      using assms True take drop by (subst chunks_step) (auto simp: add.commute)
    ultimately show ?thesis by simp
  qed
qed

lemma fragment_loop_first:
  assumes "data \<noteq> []" "length hdr < att" "1 < att"
  shows "fragment_loop data att hdr 0 True [] =
    Some ((hdr @ take (att - length hdr) data) #
          map ((#) kContMask) (chunks (att - 1) (drop (att - length hdr) data)))"
proof -
  define tk where "tk = min (att - length hdr) (length data)"
  have "fragment_loop data att hdr 0 True [] =
      fragment_loop data att hdr tk False [hdr @ take tk data]"
    using assms(1) by (subst fragment_loop.simps) (simp add: Let_def tk_def)
  moreover have "take tk data = take (att - length hdr) data"
    and "drop tk data = drop (att - length hdr) data"
    by (auto simp: tk_def min_def)
  ultimately show ?thesis by (simp add: fragment_loop_cont [OF assms(3)])
qed

lemma fragment_closed_form: "fragment data att = Some (fragment_ref data att)"
proof (cases "data = [] \<or> length data > kMaxMessageLen \<or> att \<le> length (first_hdr (length data))")
  case True
  then show ?thesis by (auto simp: fragment_def fragment_ref_def Let_def)
next
  case False
  then have "1 < att" by (auto simp: length_first_hdr split: if_splits)
  with False show ?thesis
    by (simp add: fragment_def fragment_ref_def Let_def fragment_loop_first)
qed

section \<open>Headers decode to what was encoded\<close>

lemmas hdr_defs = kContMask_def kHdrMask_def kGenLenMask_def kExt13Byte0Mask_def

lemma first_hdr_ext13:
  assumes "n < 2 ^ 13 - 1"
  shows "(first_hdr n ! 0) AND kContMask = 0"
    "packet_header_of (drop_bit 5 (first_hdr n ! 0 AND kHdrMask)) = kExt13"
    "push_bit 8 (ucast (first_hdr n ! 0 AND kExt13Byte0Mask) :: u64) OR ucast (first_hdr n ! 1) = word_of_nat n"
proof -
  define w :: u64 where "w = word_of_nat n"
  have w: "\<And>i. bit w i \<Longrightarrow> i < 13"
    using word_u64_lt [of n 13] assms by (auto simp: w_def simp flip: bit_take_bit_iff) (metis bit_take_bit_iff)
  have h: "first_hdr n = [ucast (push_bit 5 (ucast (packet_header_value kExt13) :: u64) OR
                (drop_bit 8 w AND ucast kExt13Byte0Mask)), ucast (w AND 0xFF)]"
    using assms by (simp add: first_hdr_def Let_def w_def)
  show "(first_hdr n ! 0) AND kContMask = 0"
    unfolding h by (rule u8_eqI) (simp_all add: hdr_defs bit_simps)
  show "push_bit 8 (ucast (first_hdr n ! 0 AND kExt13Byte0Mask) :: u64) OR ucast (first_hdr n ! 1) = word_of_nat n"
  proof -
    have b0: "first_hdr n ! 0 AND kExt13Byte0Mask = ucast (drop_bit 8 w AND 31)"
      unfolding h by (rule u8_eqI) (simp_all add: hdr_defs bit_simps)
    show ?thesis unfolding b0 unfolding h w_def [symmetric]
      by (rule bit_word_eqI) (auto simp: hdr_defs bit_simps bit_low_masks dest: w)
  qed
  show "packet_header_of (drop_bit 5 (first_hdr n ! 0 AND kHdrMask)) = kExt13"
  proof -
    have "drop_bit 5 (first_hdr n ! 0 AND kHdrMask) = 1"
      unfolding h by (rule u8_eqI) (simp_all add: hdr_defs bit_simps)
    then show ?thesis by (simp add: packet_header_of_def)
  qed
qed

lemma first_hdr_ext16:
  assumes "\<not> n < 2 ^ 13 - 1" "n < 2 ^ 16"
  shows "(first_hdr n ! 0) AND kContMask = 0"
    "packet_header_of (drop_bit 5 (first_hdr n ! 0 AND kHdrMask)) = kExt16"
    "push_bit 8 (ucast (first_hdr n ! 1) :: u64) OR ucast (first_hdr n ! 2) = word_of_nat n"
proof -
  define w :: u64 where "w = word_of_nat n"
  have w: "\<And>i. bit w i \<Longrightarrow> i < 16"
    using word_u64_lt [of n 16] assms(2) by (metis bit_take_bit_iff w_def numeral_le_iff semiring_norm(69) semiring_norm(71) semiring_norm(68))
  have h: "first_hdr n = [64, ucast (drop_bit 8 w AND 0xFF), ucast (w AND 0xFF)]"
    using assms(1) by (simp add: first_hdr_def Let_def w_def)
  show "(first_hdr n ! 0) AND kContMask = 0"
    unfolding h by (simp add: hdr_defs)
  show "push_bit 8 (ucast (first_hdr n ! 1) :: u64) OR ucast (first_hdr n ! 2) = word_of_nat n"
    unfolding h w_def [symmetric] by (rule bit_word_eqI) (auto simp: bit_simps bit_low_masks dest: w)
  show "packet_header_of (drop_bit 5 (first_hdr n ! 0 AND kHdrMask)) = kExt16"
    unfolding h by (simp add: hdr_defs packet_header_of_def)
qed


lemma feed_header_first:
  assumes "n < 2 ^ 16"
  shows "feed_header (first_hdr n @ xs) = Inr (n, length (first_hdr n))"
    and "(first_hdr n @ xs) ! 0 AND kContMask = 0"
proof -
  have len: "0 < length (first_hdr n)" "1 < length (first_hdr n)"
    by (simp_all add: length_first_hdr)
  then have nth: "(first_hdr n @ xs) ! 0 = first_hdr n ! 0" "(first_hdr n @ xs) ! 1 = first_hdr n ! 1"
    by (simp_all add: nth_append)
  have un: "unat (word_of_nat n :: u64) = n"
    using assms by (simp add: unat_of_nat_small)
  show "(first_hdr n @ xs) ! 0 AND kContMask = 0"
    using first_hdr_ext13(1) [of n] first_hdr_ext16(1) [of n] assms unfolding nth
    by (cases "n < 2 ^ 13 - 1") simp_all
  show "feed_header (first_hdr n @ xs) = Inr (n, length (first_hdr n))"
  proof (cases "n < 2 ^ 13 - 1")
    case True
    note h = first_hdr_ext13 [OF this]
    have l2: "length (first_hdr n) = 2" using True by (simp add: length_first_hdr)
    show ?thesis by (simp only: feed_header_def nth h(2) h(3) un l2 length_append PacketHeader.case) simp
  next
    case False
    note h = first_hdr_ext16 [OF this assms]
    have l3: "length (first_hdr n) = 3" and nth2: "(first_hdr n @ xs) ! 2 = first_hdr n ! 2"
      using False by (simp_all add: length_first_hdr nth_append)
    show ?thesis by (simp only: feed_header_def nth nth2 h(2) h(3) un l3 length_append PacketHeader.case) simp
  qed
qed

section \<open>The packets that frame a message\<close>

text \<open>
  The wire format as the header comment of \<open>ble_protocol.h\<close> gives it, for either direction: the
  camera also sends GENERAL headers and chooses its own packet sizes, and a continuation header
  is any byte with bit 7 set. \<open>declares\<close>: a header and the length it announces. \<open>frames\<close>:
  packets that announce \<open>n\<close> bytes and have brought \<open>xs\<close> of them; a packet without payload is
  allowed as long as the message is not complete. \<open>framed\<close>: the packets of a whole message.
\<close>

inductive declares :: "bytes \<Rightarrow> nat \<Rightarrow> bool" where
  general: "b < 32 \<Longrightarrow> declares [b] (unat b)"
| ext13: "b < 32 \<Longrightarrow> declares [0x20 + b, c] (256 * unat b + unat c)"
| ext16: "b < 32 \<Longrightarrow> declares [0x40 + b, c, d] (256 * unat c + unat d)"

inductive frames :: "nat \<Rightarrow> bytes \<Rightarrow> bytes list \<Rightarrow> bool" where
  first: "declares hdr n \<Longrightarrow> 0 < n \<Longrightarrow> length xs \<le> n \<Longrightarrow> frames n xs [hdr @ xs]"
| continued: "frames n ys ps \<Longrightarrow> length ys < n \<Longrightarrow> length (ys @ xs) \<le> n \<Longrightarrow> k AND kContMask \<noteq> 0 \<Longrightarrow>
    frames n (ys @ xs) (ps @ [k # xs])"

definition framed :: "bytes \<Rightarrow> bytes list \<Rightarrow> bool" where
  "framed m ps \<longleftrightarrow> frames (length m) m ps"

lemma frames_nonempty: "frames n xs ps \<Longrightarrow> ps \<noteq> [] \<and> list_all (\<lambda>p. p \<noteq> []) ps"
  by (induction rule: frames.induct) (auto elim: declares.cases)

text \<open>Reading a header back: the words of its bytes.\<close>

lemma low5:
  assumes "(b :: u8) < 32" "bit b i"
  shows "i < 5"
proof -
  have "unat b < 2 ^ 5" using assms(1) by (simp add: word_less_nat_alt)
  then have "take_bit 5 (unat b) = unat b" by (rule take_bit_nat_eq_self)
  moreover have "bit (unat b) i" using assms(2) by (simp add: bit_unsigned_iff)
  ultimately show ?thesis by (metis bit_take_bit_iff)
qed

lemma low5_add:
  assumes "(b :: u8) < 32"
  shows "0x20 + b = 0x20 OR b" "0x40 + b = 0x40 OR b"
proof -
  have bit: "\<not> bit b 5" "\<not> bit b 6" "\<not> bit b 7" using low5 [OF assms] by force+
  have z: "0x20 AND b = 0" "0x40 AND b = 0" by (rule u8_eqI; simp add: bit_simps bit)+
  show "0x20 + b = 0x20 OR b" by (rule disjunctive_add) (use arg_cong [OF z(1), of "bit"] in \<open>auto simp: fun_eq_iff bit_and_iff\<close>)
  show "0x40 + b = 0x40 OR b" by (rule disjunctive_add) (use arg_cong [OF z(2), of "bit"] in \<open>auto simp: fun_eq_iff bit_and_iff\<close>)
qed

lemma header_byte:
  assumes "b < 32"
  shows "(b :: u8) AND kGenLenMask = b" "(0x20 + b) AND kGenLenMask = b"
    "b AND kContMask = 0" "(0x20 + b) AND kContMask = 0" "(0x40 + b) AND kContMask = 0"
    "drop_bit 5 (b AND kHdrMask) = 0" "drop_bit 5 ((0x20 + b) AND kHdrMask) = 1" "drop_bit 5 ((0x40 + b) AND kHdrMask) = 2"
proof -
  have bit: "\<not> bit b 5" "\<not> bit b 6" "\<not> bit b 7" using low5 [OF assms] by force+
  note p = low5_add [OF assms]
  show "b AND kGenLenMask = b" "b AND kContMask = 0" "drop_bit 5 (b AND kHdrMask) = 0"
    by (rule u8_eqI; simp add: hdr_defs bit_simps bit)+
  show "(0x20 + b) AND kGenLenMask = b" "(0x20 + b) AND kContMask = 0" "(0x40 + b) AND kContMask = 0"
    "drop_bit 5 ((0x20 + b) AND kHdrMask) = 1" "drop_bit 5 ((0x40 + b) AND kHdrMask) = 2"
    unfolding p by (rule u8_eqI; simp add: hdr_defs bit_simps bit)+
qed

lemma low5_lt: "(b :: u8) AND kGenLenMask < 32"
proof -
  have "b AND kGenLenMask \<le> kGenLenMask" by (rule word_and_le1)
  then show ?thesis unfolding kGenLenMask_def by (rule order.strict_trans1) simp
qed

lemma header_byte_of:
  assumes "(b :: u8) AND kContMask = 0"
  shows "drop_bit 5 (b AND kHdrMask) = 0 \<Longrightarrow> b = b AND kGenLenMask"
    "drop_bit 5 (b AND kHdrMask) = 1 \<Longrightarrow> b = 0x20 + (b AND kGenLenMask)"
    "drop_bit 5 (b AND kHdrMask) = 2 \<Longrightarrow> b = 0x40 + (b AND kGenLenMask)"
proof -
  have b7: "\<not> bit b 7" using arg_cong [OF assms, of "\<lambda>w. bit w 7"] by (simp add: hdr_defs bit_simps)
  note p = low5_add [OF low5_lt, of b]
  have hd: "bit b 5 = bit (drop_bit 5 (b AND kHdrMask)) 0" "bit b 6 = bit (drop_bit 5 (b AND kHdrMask)) 1"
    by (simp_all add: hdr_defs bit_simps)
  { assume "drop_bit 5 (b AND kHdrMask) = 0"
    then show "b = b AND kGenLenMask" using hd b7 by (intro u8_eqI) (simp_all add: hdr_defs bit_simps) }
  { assume "drop_bit 5 (b AND kHdrMask) = 1"
    then show "b = 0x20 + (b AND kGenLenMask)" unfolding p using hd b7 by (intro u8_eqI) (simp_all add: hdr_defs bit_simps) }
  { assume "drop_bit 5 (b AND kHdrMask) = 2"
    then show "b = 0x40 + (b AND kGenLenMask)" unfolding p using hd b7 by (intro u8_eqI) (simp_all add: hdr_defs bit_simps) }
qed

lemma big_endian: "unat (push_bit 8 (ucast (c :: u8) :: u64) OR ucast (d :: u8)) = 256 * unat c + unat d"
proof -
  have "push_bit 8 (ucast c :: u64) OR ucast d = push_bit 8 (ucast c) + ucast d"
  proof (rule disjunctive_add [symmetric])
    fix i show "\<not> bit (push_bit 8 (ucast c :: u64)) i \<or> \<not> bit (ucast d :: u64) i"
      using bit_imp_le_length [of d i] by (cases "i < 8") (auto simp: bit_push_bit_iff bit_ucast_iff)
  qed
  also have "\<dots> = word_of_nat (256 * unat c + unat d)" by (simp add: push_bit_eq_mult unsigned_ucast_eq mult.commute)
  finally have e: "push_bit 8 (ucast (c :: u8) :: u64) OR ucast (d :: u8) = word_of_nat (256 * unat c + unat d)" .
  have "unat c < 2 ^ 8" "unat d < 2 ^ 8" using unsigned_less [of c] unsigned_less [of d] by simp_all
  then show ?thesis unfolding e by (intro unat_of_nat_small) simp
qed

lemma ext13_mask: "kExt13Byte0Mask = kGenLenMask"
  by (simp add: hdr_defs)

lemmas feed_header_eqs = feed_header_def packet_header_of_def ext13_mask big_endian

text \<open>A header of the format reads as the length it declares, and whatever reads as a header is one.\<close>

lemma declares_header:
  assumes "declares hdr n"
  shows "hdr \<noteq> []" "hdr ! 0 AND kContMask = 0" "feed_header (hdr @ xs) = Inr (n, length hdr)"
proof -
  have "hdr \<noteq> [] \<and> hdr ! 0 AND kContMask = 0 \<and> feed_header (hdr @ xs) = Inr (n, length hdr)"
    using assms
  proof cases
    case (general b)
    then show ?thesis by (simp add: feed_header_eqs header_byte del: drop_bit_and)
  next
    case (ext13 b c)
    then show ?thesis by (simp add: feed_header_eqs header_byte del: drop_bit_and)
  next
    case (ext16 b c d)
    then show ?thesis by (simp add: feed_header_eqs header_byte del: drop_bit_and)
  qed
  then show "hdr \<noteq> []" "hdr ! 0 AND kContMask = 0" "feed_header (hdr @ xs) = Inr (n, length hdr)" by auto
qed

lemma header_declares:
  assumes "feed_header (b # p) = Inr (n, st)" "b AND kContMask = 0"
  shows "declares (take st (b # p)) n" 
proof -
  note b = header_byte_of [OF assms(2)]
  consider "drop_bit 5 (b AND kHdrMask) = 0" "st = 1" "n = unat (b AND kGenLenMask)"
    | c p' where "drop_bit 5 (b AND kHdrMask) = 1" "st = 2" "p = c # p'" "n = 256 * unat (b AND kGenLenMask) + unat c"
    | c d p' where "drop_bit 5 (b AND kHdrMask) = 2" "st = 3" "p = c # d # p'" "n = 256 * unat c + unat d"
    using assms(1) by (cases p; cases "tl p") (auto simp: feed_header_eqs simp del: drop_bit_and split: if_splits)
  then show ?thesis
  proof cases
    case 1
    then show ?thesis using b(1) declares.general [OF low5_lt [of b]] by simp
  next
    case (2 c p')
    then show ?thesis using b(2) declares.ext13 [OF low5_lt [of b], of c] by simp
  next
    case (3 c d p')
    then show ?thesis using b(3) declares.ext16 [OF low5_lt [of b], of c d] by simp
  qed
qed

section \<open>Reassembly inverts fragmentation\<close>

text \<open>Feeding several notifications in order, as the transport does.\<close>

fun feed_all :: "Reassembler \<Rightarrow> bytes list \<Rightarrow> Reassembler \<times> FeedResult list" where
  "feed_all r [] = (r, [])"
| "feed_all r (p # ps) =
     (let (r1, res) = feed r p; (r2, ress) = feed_all r1 ps in (r2, res # ress))"

text \<open>The receiver's state inside a message of \<open>n\<close> bytes of which \<open>xs\<close> have arrived.\<close>

definition rx_at :: "nat \<Rightarrow> bytes \<Rightarrow> Reassembler" where
  "rx_at n xs = \<lparr>rx_buf = xs, rx_remaining = n - length xs, rx_declared = n,
                  rx_in_progress = (length xs < n)\<rparr>"

definition rx_verdict :: "nat \<Rightarrow> bytes \<Rightarrow> FeedResult" where
  "rx_verdict n xs = (if length xs = n then kComplete else kNeedMore)"

lemma rx_reset_eq [simp]: "rx_reset r = rx_init"
  by (simp add: rx_reset_def rx_init_def)

lemma feed_first:
  assumes "declares hdr n" "0 < n" "length xs \<le> n"
  shows "feed r (hdr @ xs) = (rx_at n xs, rx_verdict n xs)"
proof -
  note h = declares_header [OF assms(1)]
  have "(hdr @ xs) ! 0 = hdr ! 0" using h(1) by (cases hdr) simp_all
  then have "feed r (hdr @ xs) = feed_payload
      (r\<lparr>rx_buf := [], rx_declared := n, rx_remaining := n, rx_in_progress := True\<rparr>) (hdr @ xs) (length hdr)"
    using h assms(2) by (simp add: feed_def)
  then show ?thesis using assms(2,3) by (auto simp: feed_payload_def Let_def rx_at_def rx_verdict_def)
qed

lemma feed_continued:
  assumes "length ys < n" "length (ys @ xs) \<le> n" "k AND kContMask \<noteq> 0"
  shows "feed (rx_at n ys) (k # xs) = (rx_at n (ys @ xs), rx_verdict n (ys @ xs))"
  using assms by (auto simp: feed_def feed_payload_def Let_def rx_at_def rx_verdict_def)

lemma feed_all_append:
  "feed_all r (ps @ qs) = (let (r1, o1) = feed_all r ps; (r2, o2) = feed_all r1 qs in (r2, o1 @ o2))"
  by (induction ps arbitrary: r) (auto simp: Let_def split: prod.splits)

lemma feed_all_frames:
  "frames n xs ps \<Longrightarrow> feed_all r ps = (rx_at n xs, replicate (length ps - 1) kNeedMore @ [rx_verdict n xs])"
proof (induction rule: frames.induct)
  case (first hdr n xs)
  then show ?case by (simp add: feed_first)
next
  case (continued n ys ps xs k)
  have "ps \<noteq> []" using frames_nonempty [OF continued.hyps(1)] by simp
  then have "replicate (length ps - 1) kNeedMore @ [kNeedMore] = replicate (length ps) kNeedMore"
    by (simp add: replicate_append_same flip: replicate_Suc)
  then show ?case using continued feed_continued [OF continued.hyps(2-4)]
    by (simp add: feed_all_append rx_verdict_def)
qed

lemma rx_take_at [simp]: "rx_take (rx_at n xs) = (rx_init, xs)"
  by (simp add: rx_take_def rx_at_def)

lemma receive_frames:
  "frames n xs ps \<Longrightarrow> run rx_receive r ps = (if length xs = n then (rx_init, [xs]) else (rx_at n xs, []))"
proof (induction rule: frames.induct)
  case (first hdr n xs)
  then show ?case by (simp add: rx_receive_def feed_first rx_verdict_def)
next
  case (continued n ys ps xs k)
  then show ?case using feed_continued [OF continued.hyps(2-4)]
    by (simp add: run_append rx_receive_def rx_verdict_def)
qed


text \<open>Transmission produces packets of the format.\<close>

lemma frames_more:
  "frames n ys ps \<Longrightarrow> list_all (\<lambda>c. c \<noteq> []) cs \<Longrightarrow> length ys + length (concat cs) \<le> n \<Longrightarrow>
   frames n (ys @ concat cs) (ps @ map ((#) kContMask) cs)"
proof (induction cs arbitrary: ys ps)
  case (Cons c cs)
  have "frames n (ys @ c) (ps @ [kContMask # c])"
    using Cons.prems by (intro frames.continued) (auto simp: kContMask_def neq_Nil_conv)
  then show ?case using Cons.IH [of "ys @ c" "ps @ [kContMask # c]"] Cons.prems by simp
qed simp

lemma first_hdr_declares:
  assumes "n < 2 ^ 16"
  shows "declares (first_hdr n) n"
proof -
  have "first_hdr n = hd (first_hdr n) # tl (first_hdr n)" by (simp add: first_hdr_def Let_def)
  with feed_header_first [OF assms, of "[]"] header_declares [of "hd (first_hdr n)" "tl (first_hdr n)"] show ?thesis
    by (metis append.right_neutral nth_Cons_0 take_all_iff order_refl)
qed

lemma fragment_framed:
  assumes "data \<noteq> []" "length data \<le> kMaxMessageLen" "length (first_hdr (length data)) < att"
  shows "framed data (fragment_ref data att)"
proof -
  define room where "room = att - length (first_hdr (length data))"
  define cs where "cs = chunks (att - 1) (drop room data)"
  have att: "1 < att" using assms(3) by (auto simp: length_first_hdr split: if_splits)
  have ref: "fragment_ref data att = [first_hdr (length data) @ take room data] @ map ((#) kContMask) cs"
    using assms by (simp add: fragment_ref_def Let_def room_def cs_def)
  have cat: "take room data @ concat cs = data" using att by (simp add: cs_def)
  have "frames (length data) (take room data) [first_hdr (length data) @ take room data]"
    using assms(1,2) by (intro frames.first first_hdr_declares) (auto simp: kMaxMessageLen_def)
  then have "frames (length data) (take room data @ concat cs) (fragment_ref data att)"
    unfolding ref
  proof (rule frames_more)
    show "list_all (\<lambda>c. c \<noteq> []) cs" by (auto simp: cs_def list_all_iff dest: chunks_bounds)
    show "length (take room data) + length (concat cs) \<le> length data" using arg_cong [OF cat, of length] by simp
  qed
  then show ?thesis by (simp add: framed_def cat)
qed

lemma feed_all_fragments:
  assumes "data \<noteq> []" "length data \<le> kMaxMessageLen" "length (first_hdr (length data)) < att"
  shows "feed_all r (fragment_ref data att) =
    (rx_at (length data) data,
     replicate (length (fragment_ref data att) - 1) kNeedMore @ [kComplete])"
  using feed_all_frames [OF fragment_framed [OF assms, unfolded framed_def], of r] by (simp add: rx_verdict_def)

section \<open>The receiver's invariant\<close>

text \<open>
  While a message is in progress, what has arrived and what is missing add up to the declared
  length, and something is missing; at rest nothing is missing.
\<close>

definition rx_inv :: "Reassembler \<Rightarrow> bool" where
  "rx_inv r \<longleftrightarrow>
     (if rx_in_progress r then
        0 < rx_remaining r \<and> length (rx_buf r) + rx_remaining r = rx_declared r \<and>
        rx_declared r < 2 ^ 16
      else rx_remaining r = 0 \<and> length (rx_buf r) = rx_declared r \<and> rx_declared r < 2 ^ 16)"

lemma rx_inv_init [simp]: "rx_inv rx_init"
  by (simp add: rx_inv_def rx_init_def)

lemma unat_or_u16: "unat (push_bit 8 (ucast (a :: u8) :: u64) OR ucast (b :: u8)) < 2 ^ 16"
proof -
  define w where "w = push_bit 8 (ucast a :: u64) OR ucast b"
  have "take_bit 16 w = w" unfolding w_def
    by (rule bit_word_eqI) (auto simp: bit_simps dest: bit_imp_le_length)
  then have "unat w = unat (take_bit 16 w)" by simp
  also have "\<dots> = take_bit 16 (unat w)" by (rule unsigned_take_bit_eq)
  also have "\<dots> < 2 ^ 16" by (rule take_bit_nat_less_exp)
  finally show ?thesis unfolding w_def .
qed

lemma feed_header_bound:
  assumes "feed_header packet = Inr (decl, st)" "packet \<noteq> []"
  shows "decl < 2 ^ 16" "st \<le> length packet" "0 < st"
proof -
  have b: "unat (packet ! 0 AND kGenLenMask) < 2 ^ 16"
    by (rule less_trans [OF unsigned_less]) simp
  have l: "0 < length packet" using assms(2) by simp
  show "decl < 2 ^ 16" "st \<le> length packet" "0 < st"
    using assms(1) b l unat_or_u16
    by (auto simp: feed_header_def Suc_le_eq split: PacketHeader.splits if_splits)
qed

lemma feed_payload_inv:
  assumes "rx_in_progress r" "rx_inv r"
  shows "rx_inv (fst (feed_payload r packet st))"
  using assms by (auto simp: feed_payload_def Let_def rx_inv_def rx_init_def)

text \<open>The state \<open>feed\<close> sets up for a new message before it looks at the payload.\<close>

lemma rx_inv_start:
  "0 < n \<Longrightarrow> n < 2 ^ 16 \<Longrightarrow>
   rx_inv (r\<lparr>rx_buf := [], rx_declared := n, rx_remaining := n, rx_in_progress := True\<rparr>)"
  by (simp add: rx_inv_def)

lemma feed_inv:
  assumes "rx_inv r"
  shows "rx_inv (fst (feed r packet))"
proof (cases "packet = [] \<or> packet ! 0 AND kContMask \<noteq> 0")
  case True
  then show ?thesis using assms by (auto simp: feed_def feed_payload_inv)
next
  case False
  then show ?thesis
    by (auto simp: feed_def intro!: feed_payload_inv rx_inv_start
        dest: feed_header_bound split: sum.splits)
qed

lemma rx_take_inv: "rx_inv (fst (rx_take r))"
  by (simp add: rx_take_def)

text \<open>What a verdict says about the state it leaves.\<close>

lemma feed_payload_verdict:
  assumes "feed_payload r packet st = (r', res)"
  shows "(res = kOverflow \<and> r' = rx_init) \<or> (res = kNeedMore \<and> 0 < rx_remaining r' \<and> rx_in_progress r' = rx_in_progress r) \<or>
    (res = kComplete \<and> rx_remaining r' = 0 \<and> \<not> rx_in_progress r')"
  using assms by (auto simp: feed_payload_def Let_def split: if_splits)

lemma feed_header_Inl: "feed_header packet = Inl e \<Longrightarrow> e = kTruncatedHdr \<or> e = kReservedHdr"
  by (auto simp: feed_header_def split: PacketHeader.splits if_splits)

lemma feed_error_resets:
  assumes "feed r packet = (r', res)" "res \<noteq> kNeedMore" "res \<noteq> kComplete"
  shows "r' = rx_init"
  using assms
  by (auto simp: feed_def split: if_splits sum.splits prod.splits
      dest!: feed_payload_verdict feed_header_Inl)

lemma feed_complete_progress:
  assumes "feed r packet = (r', kComplete)"
  shows "\<not> rx_in_progress r'"
  using assms
  by (auto simp: feed_def split: if_splits sum.splits prod.splits
      dest!: feed_payload_verdict feed_header_Inl)

lemma rx_receive_inv: "rx_inv r \<Longrightarrow> rx_inv (fst (rx_receive r packet))"
  using feed_inv [of r packet] by (auto simp: rx_receive_def rx_take_def split: prod.splits)

section \<open>What the receiver holds is a framing\<close>

text \<open>
  The last packets fed, after some others, frame what the receiver holds, and \<open>res\<close> is the verdict
  on them.
\<close>

definition rx_holds :: "bytes list \<Rightarrow> Reassembler \<Rightarrow> FeedResult \<Rightarrow> bool" where
  "rx_holds ps r res \<longleftrightarrow> (\<exists>junk qs n xs. ps = junk @ qs \<and> frames n xs qs \<and> r = rx_at n xs \<and> res = rx_verdict n xs)"

lemma feed_payload_at:
  assumes "feed_payload (r\<lparr>rx_buf := ys, rx_declared := n, rx_remaining := n - length ys, rx_in_progress := True\<rparr>) (h @ xs) (length h) = (r', res)"
    and "length ys < n" "res = kNeedMore \<or> res = kComplete"
  shows "length (ys @ xs) \<le> n \<and> r' = rx_at n (ys @ xs) \<and> res = rx_verdict n (ys @ xs)"
  using assms by (auto simp: feed_payload_def Let_def rx_at_def rx_verdict_def split: if_splits)

lemma feed_accepts:
  assumes "feed r p = (r', res)" "res = kNeedMore \<or> res = kComplete"
    and "rx_in_progress r \<longrightarrow> rx_holds ps r kNeedMore"
  shows "rx_holds (ps @ [p]) r' res"
proof (cases p)
  case Nil
  then show ?thesis using assms(1,2) by (auto simp: feed_def)
next
  case (Cons b p')
  show ?thesis
  proof (cases "b AND kContMask = 0")
    case False
    then have "rx_in_progress r" using assms(1,2) Cons by (auto simp: feed_def split: if_splits)
    then obtain junk qs n ys where h: "ps = junk @ qs" "frames n ys qs" "r = rx_at n ys" "length ys \<noteq> n"
      using assms(3) by (auto simp: rx_holds_def rx_verdict_def split: if_splits)
    then have lt: "length ys < n" using \<open>rx_in_progress r\<close> by (simp add: rx_at_def)
    then have r: "r = r\<lparr>rx_buf := ys, rx_declared := n, rx_remaining := n - length ys, rx_in_progress := True\<rparr>"
      by (simp add: h(3) rx_at_def)
    have "feed_payload r p 1 = (r', res)" using assms(1) Cons False \<open>rx_in_progress r\<close> by (simp add: feed_def)
    then have "length (ys @ p') \<le> n \<and> r' = rx_at n (ys @ p') \<and> res = rx_verdict n (ys @ p')"
      using lt assms(2) by (intro feed_payload_at [where r = r and h = "[b]"]) (use Cons in \<open>simp flip: r\<close>)
    then show ?thesis unfolding rx_holds_def Cons h(1)
      using frames.continued [OF h(2) lt _ False, of p'] by (metis append.assoc)
  next
    case True
    then obtain n st where fh: "feed_header p = Inr (n, st)"
      using assms(1,2) Cons by (auto simp: feed_def split: sum.splits dest: feed_header_Inl)
    have decl: "declares (take st p) n" using header_declares fh True Cons by blast
    have st: "length (take st p) = st" using feed_header_bound(2) [OF fh] Cons by simp
    have n: "0 < n" using assms(1,2) Cons True fh by (auto simp: feed_def split: if_splits)
    have "feed_payload (r\<lparr>rx_buf := [], rx_declared := n, rx_remaining := n, rx_in_progress := True\<rparr>) p st = (r', res)"
      using assms(1) Cons True fh n by (simp add: feed_def)
    then have "length ([] @ drop st p) \<le> n \<and> r' = rx_at n ([] @ drop st p) \<and> res = rx_verdict n ([] @ drop st p)"
      using n assms(2) by (intro feed_payload_at [where r = r and h = "take st p"]) (simp_all add: st del: length_take)
    then show ?thesis unfolding rx_holds_def
      using frames.first [OF decl n, of "drop st p"] by (metis append_take_drop_id append_Nil)
  qed
qed

lemma received_holds:
  "rx_in_progress (fst (run rx_receive rx_init ps)) \<longrightarrow> rx_holds ps (fst (run rx_receive rx_init ps)) kNeedMore"
proof (induction ps rule: rev_induct)
  case (snoc p ps)
  let ?r = "fst (run rx_receive rx_init ps)"
  obtain r' res where f: "feed ?r p = (r', res)" by fastforce
  have s: "fst (run rx_receive rx_init (ps @ [p])) = (if res = kComplete then rx_init else r')"
    by (simp add: rx_receive_def f rx_take_def split_beta)
  consider "res = kNeedMore" | "res = kComplete" | "r' = rx_init" using feed_error_resets [OF f] by blast
  then show ?case unfolding s using feed_accepts [OF f _ snoc.IH] by cases (auto simp: rx_init_def)
qed (simp add: rx_init_def)

section \<open>Framing as an interface\<close>

text \<open>
  What the session relies on: whatever the receiver's state, feeding it the packets of a
  sendable message delivers exactly that message and leaves the receiver idle.
\<close>

locale framing =
  fixes packets :: "'m \<Rightarrow> 'p list"
    and sendable :: "'m \<Rightarrow> bool"
    and receive :: "'s \<Rightarrow> 'p \<Rightarrow> 's \<times> 'm list"
    and idle :: 's
  assumes receive_packets: "sendable m \<Longrightarrow> run receive s (packets m) = (idle, [m])"
begin

lemma stream_from_idle:
  assumes "list_all sendable ms"
  shows "run receive idle (concat (map packets ms)) = (idle, ms)"
  using assms by (induction ms) (simp_all add: run_append receive_packets)

lemma stream_delivered:
  assumes "list_all sendable ms" "ms \<noteq> []"
  shows "run receive s (junk @ concat (map packets ms)) = (idle, snd (run receive s junk) @ ms)"
proof -
  obtain m ms' where ms: "ms = m # ms'" using assms(2) by (cases ms) auto
  obtain s' out where junk: "run receive s junk = (s', out)" by (cases "run receive s junk")
  from assms(1) ms have "run receive s' (concat (map packets ms)) = (idle, ms)"
    by (simp add: run_append receive_packets stream_from_idle)
  then show ?thesis by (simp add: run_append junk)
qed

end

definition ble_sendable :: "nat \<Rightarrow> bytes \<Rightarrow> bool" where
  "ble_sendable att data \<longleftrightarrow>
     data \<noteq> [] \<and> length data \<le> kMaxMessageLen \<and> length (first_hdr (length data)) < att"

interpretation ble_framing: framing "\<lambda>data. fragment_ref data att" "ble_sendable att" rx_receive rx_init
  for att
proof unfold_locales
  fix m :: bytes and r :: Reassembler
  assume "ble_sendable att m"
  then have "framed m (fragment_ref m att)" by (intro fragment_framed) (auto simp: ble_sendable_def)
  then show "run rx_receive r (fragment_ref m att) = (rx_init, [m])" by (simp add: framed_def receive_frames)
qed

section \<open>Properties\<close>

lemma fragment_ref_Nil_iff:
  "fragment_ref data att = [] \<longleftrightarrow>
     data = [] \<or> length data > kMaxMessageLen \<or> att \<le> length (first_hdr (length data))"
  by (auto simp: fragment_ref_def Let_def)

lemma fragment_ref_sizes:
  assumes "p \<in> set (fragment_ref data att)"
  shows "1 < length p" "length p \<le> att"
  using assms
  by (auto simp: fragment_ref_def Let_def length_first_hdr split: if_splits dest!: chunks_bounds)

text \<open>
  C37. Fragmentation always terminates; it yields no packet exactly when the message is empty,
  longer than \<open>kMaxMessageLen\<close>, or the ATT payload has no room for a header and one byte;
  and every packet it yields fits the ATT payload and carries at least one payload byte
  beyond a continuation header.
\<close>

theorem fragment_terminates_and_fits:
  "\<exists>ps. fragment data att = Some ps \<and>
     (ps = [] \<longleftrightarrow> data = [] \<or> length data > kMaxMessageLen \<or>
                  att \<le> length (first_hdr (length data))) \<and>
     list_all (\<lambda>p. 1 < length p \<and> length p \<le> att) ps"
  by (auto simp: fragment_closed_form fragment_ref_Nil_iff list_all_iff dest: fragment_ref_sizes)

text \<open>
  C23. Reassembly inverts fragmentation from every receiver state: feeding the fragments of a
  message in order answers \<open>kNeedMore\<close> for all but the last and \<open>kComplete\<close> for the last, and
  \<open>take\<close> then yields the message and leaves the receiver as new.
\<close>

theorem reassemble_fragments:
  assumes "data \<noteq> []" "length data \<le> kMaxMessageLen" "length (first_hdr (length data)) < att"
  shows "\<exists>ps r'. fragment data att = Some ps \<and>
    feed_all r ps = (r', replicate (length ps - 1) kNeedMore @ [kComplete]) \<and>
    rx_take r' = (rx_init, data)"
  using feed_all_fragments [OF assms, of r]
  by (intro exI [of _ "fragment_ref data att"] exI [of _ "rx_at (length data) data"])
     (simp add: fragment_closed_form)

theorem reassemble_fragments_witness:
  "\<exists>ps r'. fragment (replicate 30 7) 20 = Some ps \<and>
    feed_all rx_init ps = (r', replicate (length ps - 1) kNeedMore @ [kComplete]) \<and>
    rx_take r' = (rx_init, replicate 30 7)"
  by (rule reassemble_fragments) (simp_all add: kMaxMessageLen_def length_first_hdr)

text \<open>
  C33. The receiver delivers exactly the messages that were framed: from a new receiver and after
  any packets whatsoever, the next packet makes it deliver \<open>m\<close> if and only if the packets up to
  this one end with a framing of \<open>m\<close>, with a GENERAL, an EXT_13 or an EXT_16 header and packets
  of any sizes. Nothing before can keep a framed message from being delivered, and no message is
  delivered that is cut short, spliced from two, or that its header did not declare.
\<close>

theorem delivers_exactly_framed:
  "snd (rx_receive (fst (run rx_receive rx_init ps)) p) = [m] \<longleftrightarrow>
   (\<exists>junk qs. ps @ [p] = junk @ qs \<and> framed m qs)"
proof
  let ?r = "fst (run rx_receive rx_init ps)"
  obtain r' res where f: "feed ?r p = (r', res)" by fastforce
  assume "snd (rx_receive ?r p) = [m]"
  then have res: "res = kComplete" "rx_buf r' = m" by (auto simp: rx_receive_def f rx_take_def split: if_splits)
  then have "rx_holds (ps @ [p]) r' kComplete" using feed_accepts [OF f _ received_holds] by simp
  then show "\<exists>junk qs. ps @ [p] = junk @ qs \<and> framed m qs"
    using res(2) by (auto simp: rx_holds_def rx_verdict_def framed_def rx_at_def split: if_splits)
next
  assume "\<exists>junk qs. ps @ [p] = junk @ qs \<and> framed m qs"
  then obtain junk qs where e: "ps @ [p] = junk @ qs" and m: "frames (length m) m qs" by (auto simp: framed_def)
  from m obtain qs' where qs: "qs = qs' @ [p]" and quiet: "snd (run rx_receive r qs') = []" for r
  proof cases
    case (first hdr)
    then show ?thesis using that [of "[]"] e by simp
  next
    case (continued ys qs' xs k)
    then show ?thesis using that [of qs'] e receive_frames [OF continued(3)] by simp
  qed
  then have ps: "ps = junk @ qs'" using e by simp
  have "snd (run rx_receive (fst (run rx_receive rx_init junk)) qs) = [m]" using receive_frames [OF m] by simp
  then show "snd (rx_receive (fst (run rx_receive rx_init ps)) p) = [m]"
    using quiet by (simp add: qs ps run_append split_beta)
qed

text \<open>
  The receiver's invariant is kept by every packet, whatever its bytes; an error verdict
  leaves the receiver exactly as newly constructed, and \<open>kComplete\<close> leaves a buffer of the
  declared length.
\<close>

lemma feed_keeps_invariant:
  assumes "rx_inv r" "feed r packet = (r', res)"
  shows "rx_inv r' \<and> (res \<noteq> kNeedMore \<and> res \<noteq> kComplete \<longrightarrow> r' = rx_init) \<and>
    (res = kComplete \<longrightarrow> length (rx_buf r') = declared_len r' \<and> bytes_remaining r' = 0)"
proof -
  have inv: "rx_inv r'" using feed_inv [OF assms(1), of packet] assms(2) by simp
  moreover have "res = kComplete \<Longrightarrow> \<not> rx_in_progress r'"
    using assms(2) by (simp add: feed_complete_progress)
  ultimately show ?thesis using feed_error_resets [OF assms(2)]
    by (auto simp: rx_inv_def declared_len_def bytes_remaining_def split: if_splits)
qed

end
