(* ===== verification/Query_Parser.thy ===== *)
theory Query_Parser
  imports Gp_Prelude
begin

text \<open>
  Query responses and the ready gate: \<open>native/include/query_parser.h\<close> and
  \<open>native/src/query_parser.cpp\<close>. \<open>parse_query\<close> keeps the source's index loop; its out
  parameter is the first component of the result. The lemmas give the loop an exact
  specification (what is decoded, what is left over and why it stopped), the value of a
  big-endian field, and what the gate knows after any sequence of responses.
\<close>

section \<open>Query responses\<close>

definition kGetStatusVal :: u8 where "kGetStatusVal = 0x13"
definition kRegStatusValUpdate :: u8 where "kRegStatusValUpdate = 0x53"
definition kUnregStatusValUpdate :: u8 where "kUnregStatusValUpdate = 0x73"
definition kStatusValPush :: u8 where "kStatusValPush = 0x93"

definition kStatusBusy :: u8 where "kStatusBusy = 8"
definition kStatusEncoding :: u8 where "kStatusEncoding = 10"

record QueryEntry =
  qe_id :: u8
  qe_value :: bytes

record QueryResponse =
  query_cmd_id :: u8
  qr_status :: u8
  qr_entries :: "QueryEntry list"

definition empty_response :: QueryResponse where
  "empty_response = \<lparr>query_cmd_id = 0, qr_status = 0, qr_entries = []\<rparr>"

definition as_uint :: "QueryEntry \<Rightarrow> u64 option" where
  "as_uint e =
     (if qe_value e = [] \<or> length (qe_value e) > 8 then None
      else Some (foldl (\<lambda>v b. push_bit 8 v OR ucast b) 0 (qe_value e)))"

definition as_bool :: "QueryEntry \<Rightarrow> bool" where
  "as_bool e = ((case as_uint e of None \<Rightarrow> 0 | Some v \<Rightarrow> v) \<noteq> 0)"

definition is_status :: "QueryResponse \<Rightarrow> bool" where
  "is_status r \<longleftrightarrow>
     query_cmd_id r = kGetStatusVal \<or> query_cmd_id r = kRegStatusValUpdate \<or>
     query_cmd_id r = kUnregStatusValUpdate \<or> query_cmd_id r = kStatusValPush"

definition qr_ok :: "QueryResponse \<Rightarrow> bool" where
  "qr_ok r \<longleftrightarrow> qr_status r = 0"

definition qr_find :: "QueryResponse \<Rightarrow> u8 \<Rightarrow> QueryEntry option" where
  "qr_find r i = List.find (\<lambda>e. qe_id e = i) (qr_entries r)"

datatype QueryParseResult = kOk | kTooShort | kTruncatedTlv

fun query_parse_result_to_string :: "QueryParseResult \<Rightarrow> string" where
  "query_parse_result_to_string kOk = ''ok''"
| "query_parse_result_to_string kTooShort = ''too-short''"
| "query_parse_result_to_string kTruncatedTlv = ''truncated-tlv''"

text \<open>The \<open>while (i + 1 < payload.size())\<close> loop; \<open>out\<close> is \<open>out.entries\<close>.\<close>

function parse_entries ::
  "bytes \<Rightarrow> nat \<Rightarrow> QueryEntry list \<Rightarrow> QueryEntry list \<times> QueryParseResult" where
  "parse_entries payload i out =
     (if i + 1 < length payload then
        (let eid = payload ! i; len = unat (payload ! (i + 1)) in
         if i + 2 + len > length payload then (out, kTruncatedTlv)
         else parse_entries payload (i + 2 + len)
                (out @ [\<lparr>qe_id = eid, qe_value = take len (drop (i + 2) payload)\<rparr>]))
      else (out, kOk))"
  by pat_completeness auto
termination
  by (relation "measure (\<lambda>(payload, i, out). length payload - i)") auto

declare parse_entries.simps [simp del]

definition parse_query :: "bytes \<Rightarrow> QueryResponse \<times> QueryParseResult" where
  "parse_query payload =
     (if length payload < 2 then (empty_response, kTooShort)
      else
        (case parse_entries payload 2 [] of
           (es, res) \<Rightarrow>
             (\<lparr>query_cmd_id = payload ! 0, qr_status = payload ! 1, qr_entries = es\<rparr>, res)))"

section \<open>ReadyState\<close>

record ReadyState =
  rs_busy :: "bool option"
  rs_encoding :: "bool option"

definition rs_init :: ReadyState where
  "rs_init = \<lparr>rs_busy = None, rs_encoding = None\<rparr>"

definition rs_reset :: "ReadyState \<Rightarrow> ReadyState" where
  "rs_reset rs = rs\<lparr>rs_busy := None, rs_encoding := None\<rparr>"

definition rs_ready :: "ReadyState \<Rightarrow> bool" where
  "rs_ready rs \<longleftrightarrow> rs_busy rs = Some False \<and> rs_encoding rs = Some False"

text \<open>An entry with no value yet carries no information and leaves the old state.\<close>

definition fold_entry :: "QueryEntry option \<Rightarrow> bool option \<Rightarrow> bool option" where
  "fold_entry e old =
     (case e of None \<Rightarrow> old
      | Some e \<Rightarrow> if qe_value e \<noteq> [] then Some (as_bool e) else old)"

definition rs_apply :: "ReadyState \<Rightarrow> QueryResponse \<Rightarrow> ReadyState \<times> bool" where
  "rs_apply rs response =
     (if \<not> is_status response then (rs, False)
      else
        (let was_ready = rs_ready rs;
             rs1 = rs\<lparr>rs_busy := fold_entry (qr_find response kStatusBusy) (rs_busy rs)\<rparr>;
             rs2 = rs1\<lparr>rs_encoding := fold_entry (qr_find response kStatusEncoding) (rs_encoding rs1)\<rparr>
         in (rs2, rs_ready rs2 \<noteq> was_ready)))"

section \<open>The parser decodes exactly the entries that are there\<close>

definition encode_entry :: "QueryEntry \<Rightarrow> bytes" where
  "encode_entry e = qe_id e # word_of_nat (length (qe_value e)) # qe_value e"

definition entry_fits :: "QueryEntry \<Rightarrow> bool" where
  "entry_fits e \<longleftrightarrow> length (qe_value e) < 256"

text \<open>
  \<open>entry_tail rest res\<close>: why the loop stopped in front of \<open>rest\<close>: at most one byte is left, or
  the next entry's length runs past the end.
\<close>

definition entry_tail :: "bytes \<Rightarrow> QueryParseResult \<Rightarrow> bool" where
  "entry_tail rest res \<longleftrightarrow>
     (if length rest \<le> 1 then res = kOk
      else length rest < 2 + unat (rest ! 1) \<and> res = kTruncatedTlv)"

lemma entry_surj: "\<lparr>qe_id = qe_id e, qe_value = qe_value e\<rparr> = e"
  by simp

lemma unat_len_byte: "n < 256 \<Longrightarrow> unat (word_of_nat n :: u8) = n"
  by (simp add: unat_of_nat_small)

lemma parse_entries_tail:
  assumes "length pre = i" "entry_tail rest res"
  shows "parse_entries (pre @ rest) i out = (out, res)"
  using assms
  by (subst parse_entries.simps)
     (auto simp: entry_tail_def Let_def nth_append split: if_splits)

lemma parse_entries_complete:
  assumes "length pre = i" "list_all entry_fits es" "entry_tail rest res"
  shows "parse_entries (pre @ concat (map encode_entry es) @ rest) i out = (out @ es, res)"
  using assms
proof (induction es arbitrary: pre i out)
  case Nil
  then show ?case by (simp add: parse_entries_tail)
next
  case (Cons e es)
  let ?more = "concat (map encode_entry es) @ rest"
  let ?payload = "pre @ encode_entry e @ ?more"
  define len where "len = length (qe_value e)"
  have fits: "unat (word_of_nat len :: u8) = len"
    using Cons.prems(2) by (simp add: entry_fits_def unat_len_byte len_def)
  have nth: "?payload ! i = qe_id e" "?payload ! (i + 1) = word_of_nat len"
    "take len (drop (i + 2) ?payload) = qe_value e" "i + 1 < length ?payload"
    "\<not> i + 2 + len > length ?payload"
    using Cons.prems(1) by (auto simp: encode_entry_def nth_append len_def)
  have "parse_entries ?payload i out = parse_entries ?payload (i + 2 + len) (out @ [e])"
    by (subst parse_entries.simps) (simp only: nth fits Let_def if_True if_False entry_surj)
  also have "\<dots> = parse_entries ((pre @ encode_entry e) @ ?more) (i + 2 + len) (out @ [e])"
    by simp
  also have "\<dots> = ((out @ [e]) @ es, res)"
    by (rule Cons.IH) (use Cons.prems in \<open>auto simp: encode_entry_def len_def\<close>)
  finally show ?case by simp
qed

text \<open>Every byte string splits into complete entries and a tail the loop stops at.\<close>

lemma entries_split:
  "\<exists>es rest res. xs = concat (map encode_entry es) @ rest \<and> list_all entry_fits es \<and>
     entry_tail rest res"
proof (induction xs rule: length_induct)
  case (1 xs)
  show ?case
  proof (cases "length xs \<le> 1 \<or> length xs < 2 + unat (xs ! 1)")
    case True
    then have "xs = concat (map encode_entry []) @ xs \<and> list_all entry_fits [] \<and>
        entry_tail xs (if length xs \<le> 1 then kOk else kTruncatedTlv)"
      by (auto simp: entry_tail_def)
    then show ?thesis by blast
  next
    case False
    define len where "len = unat (xs ! 1)"
    have len: "len < 256" "2 + len \<le> length xs"
      using False unat_u8_lt [of "xs ! 1"] by (auto simp: len_def)
    obtain a b ys where xs: "xs = a # b # ys" using False by (cases xs; cases "tl xs") auto
    then have b: "unat b = len" and ys: "len \<le> length ys" using len by (auto simp: len_def)
    define e where "e = \<lparr>qe_id = a, qe_value = take len ys\<rparr>"
    obtain es rest res where ih: "drop len ys = concat (map encode_entry es) @ rest"
      "list_all entry_fits es" "entry_tail rest res"
      using 1 xs by (metis length_drop diff_le_self length_Cons less_Suc_eq_le le_SucI)
    have "encode_entry e @ drop len ys = xs"
      using xs ys b by (auto simp: encode_entry_def e_def)
    moreover have "entry_fits e" using len(1) by (simp add: entry_fits_def e_def)
    ultimately have "xs = concat (map encode_entry (e # es)) @ rest \<and> list_all entry_fits (e # es) \<and>
        entry_tail rest res"
      using ih by simp
    then show ?thesis by blast
  qed
qed

lemma parse_query_complete:
  assumes "list_all entry_fits es" "entry_tail rest res"
  shows "parse_query (c # s # concat (map encode_entry es) @ rest) =
    (\<lparr>query_cmd_id = c, qr_status = s, qr_entries = es\<rparr>, res)"
  using parse_entries_complete [of "[c, s]" 2 es rest res "[]"] assms
  by (simp add: parse_query_def)


section \<open>Values and the ready gate\<close>

lemma be_fold_unat:
  fixes bs :: bytes
  assumes "length bs \<le> 8"
  shows "unat (foldl (\<lambda>v b. push_bit 8 v OR ucast b) (0 :: u64) bs) =
      foldl (\<lambda>a b. a * 256 + unat b) 0 bs \<and>
    foldl (\<lambda>a b. a * 256 + unat b) 0 bs < 256 ^ length bs"
  using assms
proof (induction bs rule: rev_induct)
  case Nil
  then show ?case by simp
next
  case (snoc b bs)
  define v where "v = foldl (\<lambda>v b. push_bit 8 v OR ucast b) (0 :: u64) bs"
  define m where "m = foldl (\<lambda>a b. a * 256 + unat b) 0 bs"
  have v: "unat v = m" and m: "m < 256 ^ length bs" using snoc by (simp_all add: v_def m_def)
  have small: "m * 256 + unat b < 256 ^ Suc (length bs)"
    using m unat_u8_lt [of b] by simp
  also have "(256 :: nat) ^ Suc (length bs) \<le> 256 ^ 8"
    using snoc.prems by (intro power_increasing) auto
  finally have big: "m * 256 + unat b < 2 ^ 64" by simp
  have "push_bit 8 v AND ucast b = 0"
    by (rule bit_word_eqI) (auto simp: bit_simps dest: bit_imp_le_length)
  then have "push_bit 8 v OR ucast b = v * 256 + ucast b"
    by (simp add: disjunctive_add_eq_or [symmetric] push_bit_eq_mult)
  then have "unat (push_bit 8 v OR ucast b) = m * 256 + unat b"
    using big v by (simp add: unat_word_ariths unat_ucast_up)
  then show ?case using small by (simp add: v_def [symmetric] m_def [symmetric])
qed

lemma rs_reset_eq [simp]: "rs_reset rs = rs_init"
  by (simp add: rs_reset_def rs_init_def)

text \<open>What one response reports about a status: nothing unless it is a status response with a
  value for that id.\<close>

definition reported :: "u8 \<Rightarrow> QueryResponse \<Rightarrow> bool option" where
  "reported i r = (if is_status r then fold_entry (qr_find r i) None else None)"

definition latest :: "bool option \<Rightarrow> bool option \<Rightarrow> bool option" where
  "latest old new = (case new of None \<Rightarrow> old | Some b \<Rightarrow> Some b)"

lemma fold_entry_latest: "fold_entry e old = latest old (fold_entry e None)"
  by (auto simp: fold_entry_def latest_def split: option.splits)

lemma rs_apply_fields:
  "rs_busy (fst (rs_apply rs r)) = latest (rs_busy rs) (reported kStatusBusy r)"
  "rs_encoding (fst (rs_apply rs r)) = latest (rs_encoding rs) (reported kStatusEncoding r)"
  using fold_entry_latest [of "qr_find r kStatusBusy" "rs_busy rs"]
    fold_entry_latest [of "qr_find r kStatusEncoding" "rs_encoding rs"]
  by (simp_all add: rs_apply_def reported_def Let_def latest_def)

lemma rs_apply_changed:
  "snd (rs_apply rs r) \<longleftrightarrow> rs_ready (fst (rs_apply rs r)) \<noteq> rs_ready rs"
  by (auto simp: rs_apply_def Let_def)

lemma rs_fold_fields:
  "rs_busy (foldl (\<lambda>rs r. fst (rs_apply rs r)) rs rss) =
     foldl latest (rs_busy rs) (map (reported kStatusBusy) rss)"
  "rs_encoding (foldl (\<lambda>rs r. fst (rs_apply rs r)) rs rss) =
     foldl latest (rs_encoding rs) (map (reported kStatusEncoding) rss)"
  by (induction rss arbitrary: rs) (simp_all add: rs_apply_fields)

lemma find_filter: "(\<And>x. P x \<Longrightarrow> Q x) \<Longrightarrow> List.find P (filter Q xs) = List.find P xs"
  by (induction xs) auto

section \<open>Properties\<close>

text \<open>
  C39. Exact specification of \<open>parse_query\<close>: a payload of fewer than two bytes is \<open>kTooShort\<close>;
  any other payload is its command id, its status, the decoded entries in order, and a tail
  that holds no further complete entry. The verdict is \<open>kOk\<close> when the tail has at most one
  byte and \<open>kTruncatedTlv\<close> when the tail starts an entry that runs past the end, in which
  case the entries before it are still reported.
\<close>

theorem parse_query_exact:
  "case parse_query payload of
     (r, res) \<Rightarrow>
       if length payload < 2 then r = empty_response \<and> res = kTooShort
       else \<exists>rest. payload = query_cmd_id r # qr_status r #
                      concat (map encode_entry (qr_entries r)) @ rest \<and>
                    list_all entry_fits (qr_entries r) \<and> entry_tail rest res"
proof (cases "length payload < 2")
  case True
  then show ?thesis by (simp add: parse_query_def)
next
  case False
  then obtain c s xs where payload: "payload = c # s # xs"
    by (cases payload; cases "tl payload") auto
  obtain es rest res where "xs = concat (map encode_entry es) @ rest" "list_all entry_fits es"
    "entry_tail rest res"
    using entries_split [of xs] by blast
  with payload show ?thesis using parse_query_complete [of es rest res c s] by auto
qed

text \<open>
  Round trip: every list of entries whose values fit a one-byte length is decoded from its
  encoding, and a stray trailing byte changes nothing.
\<close>

lemma parse_query_roundtrip:
  assumes "list_all entry_fits es" "length rest \<le> 1"
  shows "parse_query (c # s # concat (map encode_entry es) @ rest) =
    (\<lparr>query_cmd_id = c, qr_status = s, qr_entries = es\<rparr>, kOk)"
  using assms by (intro parse_query_complete) (auto simp: entry_tail_def)

text \<open>
  A value is read as a big-endian unsigned integer without loss: \<open>as_uint\<close> is defined
  exactly for one to eight bytes and its value is the number those bytes denote.
\<close>

lemma as_uint_big_endian:
  "case as_uint e of
     None \<Rightarrow> qe_value e = [] \<or> 8 < length (qe_value e)
   | Some v \<Rightarrow> 0 < length (qe_value e) \<and> length (qe_value e) \<le> 8 \<and>
               unat v = foldl (\<lambda>a b. a * 256 + unat b) 0 (qe_value e)"
  using be_fold_unat [of "qe_value e"] by (auto simp: as_uint_def)

text \<open>
  The ready gate is a function of what the camera has reported: after any sequence of
  responses it is open exactly when the latest report of BUSY and the latest report of
  ENCODING both exist and both say no; each \<open>apply\<close> announces a change exactly when the gate
  changed, and entries with other ids have no effect.
\<close>

lemma ready_gate_history:
  "(rs_ready (foldl (\<lambda>rs r. fst (rs_apply rs r)) rs_init rss) \<longleftrightarrow>
      foldl latest None (map (reported kStatusBusy) rss) = Some False \<and>
      foldl latest None (map (reported kStatusEncoding) rss) = Some False) \<and>
   (snd (rs_apply rs r) \<longleftrightarrow> rs_ready (fst (rs_apply rs r)) \<noteq> rs_ready rs) \<and>
   rs_apply rs (r\<lparr>qr_entries :=
       filter (\<lambda>e. qe_id e = kStatusBusy \<or> qe_id e = kStatusEncoding) (qr_entries r)\<rparr>) =
     rs_apply rs r"
proof (intro conjI)
  show "rs_ready (foldl (\<lambda>rs r. fst (rs_apply rs r)) rs_init rss) \<longleftrightarrow>
      foldl latest None (map (reported kStatusBusy) rss) = Some False \<and>
      foldl latest None (map (reported kStatusEncoding) rss) = Some False"
    by (simp add: rs_ready_def rs_fold_fields) (simp add: rs_init_def)
  show "snd (rs_apply rs r) \<longleftrightarrow> rs_ready (fst (rs_apply rs r)) \<noteq> rs_ready rs"
    by (rule rs_apply_changed)
  show "rs_apply rs (r\<lparr>qr_entries :=
       filter (\<lambda>e. qe_id e = kStatusBusy \<or> qe_id e = kStatusEncoding) (qr_entries r)\<rparr>) =
     rs_apply rs r"
    by (simp add: rs_apply_def is_status_def qr_find_def find_filter)
qed

end
