(* ===== verification/Command_Queue.thy ===== *)
theory Command_Queue
  imports Gp_Prelude "HOL-Library.Multiset"
begin

text \<open>
  The ready-gated command queue: \<open>native/include/command_queue.h\<close> and
  \<open>native/src/command_queue.cpp\<close>. A completion callback is an opaque token \<open>'c\<close> (or none,
  for an empty \<open>std::function\<close>); transmitting and completing are events put out in the order
  the source performs them. Callbacks that re-enter the queue are not modelled: the ones the
  library installs only post to a Dart port. Times are \<open>uint64_t\<close> and their differences wrap.

  The lemmas show the queue's invariant (no correlation id outstanding twice, at most one
  ordinary command in flight, nothing left waiting that could be sent), the exact effect of
  every operation on every branch, and that every submission is completed exactly once.
\<close>

section \<open>Data\<close>

type_synonym CorrelationId = u64

datatype Priority = kQueued | kFastpass | kKeepAlive

fun priority_to_string :: "Priority \<Rightarrow> string" where
  "priority_to_string kQueued = ''queued''"
| "priority_to_string kFastpass = ''fastpass''"
| "priority_to_string kKeepAlive = ''keep-alive''"

datatype Outcome = kResponded | kTimedOut | kCanceled | kRejected

fun outcome_to_string :: "Outcome \<Rightarrow> string" where
  "outcome_to_string kResponded = ''responded''"
| "outcome_to_string kTimedOut = ''timed-out''"
| "outcome_to_string kCanceled = ''canceled''"
| "outcome_to_string kRejected = ''rejected''"

record CommandQueueOptions =
  write_timeout_ms :: u32
  queue_timeout_ms :: u32

definition default_queue_options :: CommandQueueOptions where
  "default_queue_options = \<lparr>write_timeout_ms = 5000, queue_timeout_ms = 30000\<rparr>"

record 'c Entry =
  e_id :: CorrelationId
  e_payload :: bytes
  e_priority :: Priority
  e_done :: "'c option"
  e_queued_at_ms :: u64
  e_sent_at_ms :: u64

record 'c CommandQueue =
  q_opts :: CommandQueueOptions
  q_ready :: bool
  q_pending :: "'c Entry list"
  q_in_flight :: "'c Entry list"

text \<open>A call of \<open>write_\<close>, and a call of a completion callback.\<close>

datatype 'c QEvent =
    QWrite CorrelationId bytes
  | QDone 'c Outcome bytes

section \<open>Operations\<close>

definition new_queue :: "CommandQueueOptions \<Rightarrow> 'c CommandQueue" where
  "new_queue opts = \<lparr>q_opts = opts, q_ready = False, q_pending = [], q_in_flight = []\<rparr>"

definition call_done :: "'c option \<Rightarrow> Outcome \<Rightarrow> bytes \<Rightarrow> 'c QEvent list" where
  "call_done d outcome data = (case d of None \<Rightarrow> [] | Some c \<Rightarrow> [QDone c outcome data])"

definition is_in_flight :: "'c CommandQueue \<Rightarrow> CorrelationId \<Rightarrow> bool" where
  "is_in_flight q i = list_ex (\<lambda>e. e_id e = i) (q_in_flight q)"

definition can_send :: "'c CommandQueue \<Rightarrow> 'c Entry \<Rightarrow> bool" where
  "can_send q e =
     (if is_in_flight q (e_id e) then False
      else
        (case e_priority e of
           kKeepAlive \<Rightarrow> True
         | kFastpass \<Rightarrow> True
         | kQueued \<Rightarrow>
             (if \<not> q_ready q then False
              else \<not> list_ex (\<lambda>f. e_priority f = kQueued) (q_in_flight q))))"

definition send :: "'c CommandQueue \<Rightarrow> 'c Entry \<Rightarrow> u64 \<Rightarrow> 'c CommandQueue \<times> 'c QEvent list" where
  "send q e now_ms =
     (q\<lparr>q_in_flight := q_in_flight q @ [e\<lparr>e_sent_at_ms := now_ms\<rparr>]\<rparr>,
      [QWrite (e_id e) (e_payload e)])"

text \<open>
  The scan restarts from the front after each transmission, because sending erases the entry
  it found; it stops after a pass that finds nothing to send.
\<close>

function pump :: "'c CommandQueue \<Rightarrow> u64 \<Rightarrow> 'c CommandQueue \<times> 'c QEvent list" where
  "pump q now_ms =
     (case List.extract (can_send q) (q_pending q) of
        None \<Rightarrow> (q, [])
      | Some (before, e, after) \<Rightarrow>
          (let (q1, ev1) = send (q\<lparr>q_pending := before @ after\<rparr>) e now_ms;
               (q2, ev2) = pump q1 now_ms
           in (q2, ev1 @ ev2)))"
  by pat_completeness auto
termination
  by (relation "measure (\<lambda>(q, now). length (q_pending q))")
     (auto simp: send_def dest!: extract_SomeD(1))

declare pump.simps [simp del]

definition duplicate :: "'c CommandQueue \<Rightarrow> CorrelationId \<Rightarrow> bool" where
  "duplicate q i \<longleftrightarrow> is_in_flight q i \<or> list_ex (\<lambda>e. e_id e = i) (q_pending q)"

definition submit ::
  "'c CommandQueue \<Rightarrow> CorrelationId \<Rightarrow> bytes \<Rightarrow> Priority \<Rightarrow> 'c option \<Rightarrow> u64 \<Rightarrow>
   'c CommandQueue \<times> 'c QEvent list \<times> bool" where
  "submit q i payload priority d now_ms =
     (if duplicate q i then (q, call_done d kRejected [], False)
      else
        (let e = \<lparr>e_id = i, e_payload = payload, e_priority = priority, e_done = d,
                  e_queued_at_ms = now_ms, e_sent_at_ms = 0\<rparr>;
             q1 = (if priority = kKeepAlive then q\<lparr>q_pending := e # q_pending q\<rparr>
                   else q\<lparr>q_pending := q_pending q @ [e]\<rparr>);
             (q2, evs) = pump q1 now_ms
         in (q2, evs, True)))"

definition set_ready :: "'c CommandQueue \<Rightarrow> bool \<Rightarrow> u64 \<Rightarrow> 'c CommandQueue \<times> 'c QEvent list" where
  "set_ready q rdy now_ms =
     (let q1 = q\<lparr>q_ready := rdy\<rparr> in if q_ready q1 then pump q1 now_ms else (q1, []))"

definition on_response ::
  "'c CommandQueue \<Rightarrow> CorrelationId \<Rightarrow> bytes \<Rightarrow> u64 \<Rightarrow> 'c CommandQueue \<times> 'c QEvent list \<times> bool" where
  "on_response q i data now_ms =
     (case List.extract (\<lambda>e. e_id e = i) (q_in_flight q) of
        None \<Rightarrow> (q, [], False)
      | Some (before, e, after) \<Rightarrow>
          (let (q1, evs) = pump (q\<lparr>q_in_flight := before @ after\<rparr>) now_ms
           in (q1, call_done (e_done e) kResponded data @ evs, True)))"

definition write_expired :: "'c CommandQueue \<Rightarrow> u64 \<Rightarrow> 'c Entry \<Rightarrow> bool" where
  "write_expired q now_ms e \<longleftrightarrow> now_ms - e_sent_at_ms e \<ge> ucast (write_timeout_ms (q_opts q))"

definition queue_expired :: "'c CommandQueue \<Rightarrow> u64 \<Rightarrow> 'c Entry \<Rightarrow> bool" where
  "queue_expired q now_ms e \<longleftrightarrow>
     queue_timeout_ms (q_opts q) \<noteq> 0 \<and>
     now_ms - e_queued_at_ms e \<ge> ucast (queue_timeout_ms (q_opts q))"

definition tick :: "'c CommandQueue \<Rightarrow> u64 \<Rightarrow> 'c CommandQueue \<times> 'c QEvent list" where
  "tick q now_ms =
     (let expired = filter (write_expired q now_ms) (q_in_flight q) @
                    filter (queue_expired q now_ms) (q_pending q);
          q1 = q\<lparr>q_in_flight := filter (\<lambda>e. \<not> write_expired q now_ms e) (q_in_flight q),
                 q_pending := filter (\<lambda>e. \<not> queue_expired q now_ms e) (q_pending q)\<rparr>;
          (q2, evs) = pump q1 now_ms
      in (q2, concat (map (\<lambda>e. call_done (e_done e) kTimedOut []) expired) @ evs))"

definition cancel_all :: "'c CommandQueue \<Rightarrow> 'c CommandQueue \<times> 'c QEvent list" where
  "cancel_all q =
     (q\<lparr>q_in_flight := [], q_pending := []\<rparr>,
      concat (map (\<lambda>e. call_done (e_done e) kCanceled []) (q_in_flight q @ q_pending q)))"

text \<open>The class's public operations as one step function.\<close>

datatype 'c QOp =
    Submit CorrelationId bytes Priority "'c option" u64
  | SetReady bool u64
  | OnResponse CorrelationId bytes u64
  | Tick u64
  | CancelAll

fun q_step :: "'c CommandQueue \<Rightarrow> 'c QOp \<Rightarrow> 'c CommandQueue \<times> 'c QEvent list" where
  "q_step q (Submit i p pr d now) = (case submit q i p pr d now of (q', evs, _) \<Rightarrow> (q', evs))"
| "q_step q (SetReady b now) = set_ready q b now"
| "q_step q (OnResponse i d now) = (case on_response q i d now of (q', evs, _) \<Rightarrow> (q', evs))"
| "q_step q (Tick now) = tick q now"
| "q_step q CancelAll = cancel_all q"

section \<open>The pump\<close>

abbreviation queued :: "'c Entry \<Rightarrow> bool" where
  "queued e \<equiv> e_priority e = kQueued"

abbreviation sent_at :: "u64 \<Rightarrow> 'c Entry \<Rightarrow> 'c Entry" where
  "sent_at now e \<equiv> e\<lparr>e_sent_at_ms := now\<rparr>"

abbreviation qwrite :: "'c Entry \<Rightarrow> 'c QEvent" where
  "qwrite e \<equiv> QWrite (e_id e) (e_payload e)"

text \<open>Nothing that waits could be sent.\<close>

definition q_quiet :: "'c CommandQueue \<Rightarrow> bool" where
  "q_quiet q \<longleftrightarrow> (\<forall>e\<in>set (q_pending q). \<not> can_send q e)"

text \<open>What the pump needs and keeps: outstanding ids are distinct, and at most one ordinary
  command is in flight.\<close>

definition q_pre :: "'c CommandQueue \<Rightarrow> bool" where
  "q_pre q \<longleftrightarrow> distinct (map e_id (q_in_flight q @ q_pending q)) \<and>
     length (filter queued (q_in_flight q)) \<le> 1"

definition q_inv :: "'c CommandQueue \<Rightarrow> bool" where
  "q_inv q \<longleftrightarrow> q_pre q \<and> q_quiet q"

lemma pump_quiet: "q_quiet q \<Longrightarrow> pump q now = (q, [])"
  by (subst pump.simps) (simp add: q_quiet_def extract_None_iff_ball [THEN iffD2])

lemma pump_send:
  assumes "List.extract (can_send q) (q_pending q) = Some (b, e, a)"
    and "q1 = q\<lparr>q_pending := b @ a, q_in_flight := q_in_flight q @ [sent_at now e]\<rparr>"
  shows "pump q now = (fst (pump q1 now), qwrite e # snd (pump q1 now))"
  by (subst pump.simps) (simp add: assms send_def split_beta)

lemma pump_cases [case_names quiet send]:
  assumes "q_quiet q \<Longrightarrow> P"
    and "\<And>b e a. List.extract (can_send q) (q_pending q) = Some (b, e, a) \<Longrightarrow>
           q_pending q = b @ e # a \<Longrightarrow> can_send q e \<Longrightarrow> P"
  shows P
proof (cases "List.extract (can_send q) (q_pending q)")
  case None
  then show P using assms(1) by (simp add: extract_None_iff_ball q_quiet_def)
next
  case (Some t)
  obtain b e a where "t = (b, e, a)" by (cases t)
  with Some extract_SomeD [of "can_send q" "q_pending q" b e a] show P using assms(2) by blast
qed

lemma pump_induct [case_names quiet send]:
  assumes "\<And>q. q_quiet q \<Longrightarrow> P q"
    and "\<And>q b e a. List.extract (can_send q) (q_pending q) = Some (b, e, a) \<Longrightarrow>
      q_pending q = b @ e # a \<Longrightarrow> can_send q e \<Longrightarrow>
      P (q\<lparr>q_pending := b @ a, q_in_flight := q_in_flight q @ [sent_at now e]\<rparr>) \<Longrightarrow> P q"
  shows "P q"
proof (induction "length (q_pending q)" arbitrary: q rule: less_induct)
  case less
  show ?case
  proof (cases q rule: pump_cases)
    case quiet
    then show ?thesis by (rule assms(1))
  next
    case (send b e a)
    show ?thesis by (rule assms(2) [OF send]) (rule less, simp add: send(2))
  qed
qed

text \<open>The pump moves some waiting entries to the end of the in-flight list, writing each, and
  stops when nothing more can go.\<close>

lemma pump_effect:
  "\<exists>sent. q_in_flight (fst (pump q now)) = q_in_flight q @ map (sent_at now) sent \<and>
     snd (pump q now) = map qwrite sent \<and>
     mset (q_pending q) = mset sent + mset (q_pending (fst (pump q now)))"
proof (induction q rule: pump_induct [where now = now])
  case (quiet q)
  then show ?case by (simp add: pump_quiet)
next
  case (send q b e a)
  let ?r = "pump (q\<lparr>q_pending := b @ a, q_in_flight := q_in_flight q @ [sent_at now e]\<rparr>) now"
  from send(4) obtain sent where "q_in_flight (fst ?r) = q_in_flight q @ map (sent_at now) (e # sent)"
    "snd ?r = map qwrite sent" "mset (b @ a) = mset sent + mset (q_pending (fst ?r))"
    by auto
  with send(2) show ?case
    by (intro exI [of _ "e # sent"]) (simp add: pump_send [OF send(1) refl])
qed

lemma pump_frame [simp]:
  "q_ready (fst (pump q now)) = q_ready q" "q_opts (fst (pump q now)) = q_opts q"
proof (induction q rule: pump_induct [where now = now])
  case (quiet q)
  {
    case 1
    then show ?case using quiet by (simp add: pump_quiet)
  next
    case 2
    then show ?case using quiet by (simp add: pump_quiet)
  }
next
  case (send q b e a)
  {
    case 1
    then show ?case using send(4) by (simp add: pump_send [OF send(1) refl])
  next
    case 2
    then show ?case using send(5) by (simp add: pump_send [OF send(1) refl])
  }
qed

lemma pump_is_quiet: "q_quiet (fst (pump q now))"
proof (induction q rule: pump_induct [where now = now])
  case (send q b e a)
  then show ?case by (simp add: pump_send [OF send(1) refl])
qed (simp add: pump_quiet)

lemma can_send_not_in_flight: "can_send q e \<Longrightarrow> e_id e \<notin> e_id ` set (q_in_flight q)"
  by (auto simp: can_send_def is_in_flight_def list_ex_iff split: if_splits)

lemma can_send_queued:
  "can_send q e \<Longrightarrow> queued e \<Longrightarrow> q_ready q \<and> filter queued (q_in_flight q) = []"
  by (auto simp: can_send_def list_ex_iff filter_empty_conv split: if_splits)

lemma pump_pre: "q_pre q \<Longrightarrow> q_pre (fst (pump q now))"
proof (induction q rule: pump_induct [where now = now])
  case (quiet q)
  then show ?case by (simp add: pump_quiet)
next
  case (send q b e a)
  have "q_pre (q\<lparr>q_pending := b @ a, q_in_flight := q_in_flight q @ [sent_at now e]\<rparr>)"
    using send(2,3) \<open>q_pre q\<close> can_send_queued [of q e] by (cases "queued e") (auto simp: q_pre_def)
  with send(4) show ?case by (simp add: pump_send [OF send(1) refl])
qed

lemma pump_inv: "q_pre q \<Longrightarrow> q_inv (fst (pump q now))"
  by (simp add: q_inv_def pump_pre pump_is_quiet)

section \<open>Every operation keeps the invariant\<close>

lemma duplicate_iff: "duplicate q i \<longleftrightarrow> i \<in> e_id ` set (q_in_flight q @ q_pending q)"
  by (auto simp: duplicate_def is_in_flight_def list_ex_iff)

lemma q_inv_new: "q_inv (new_queue opts)"
  by (simp add: q_inv_def q_pre_def q_quiet_def new_queue_def)

lemma submit_inv:
  assumes "q_inv q"
  shows "q_inv (fst (submit q i payload priority d now))"
proof (cases "duplicate q i")
  case True
  with assms show ?thesis by (simp add: submit_def)
next
  case False
  with assms have pre: "q_pre q" and new: "i \<notin> e_id ` set (q_in_flight q @ q_pending q)"
    by (simp_all add: q_inv_def duplicate_iff)
  define e :: "'a Entry" where "e = \<lparr>e_id = i, e_payload = payload, e_priority = priority,
    e_done = d, e_queued_at_ms = now, e_sent_at_ms = 0\<rparr>"
  have "q_pre (q\<lparr>q_pending := e # q_pending q\<rparr>)" "q_pre (q\<lparr>q_pending := q_pending q @ [e]\<rparr>)"
    using pre new by (auto simp: q_pre_def e_def)
  then show ?thesis using False
    by (simp add: submit_def Let_def split_beta e_def [symmetric] pump_inv)
qed

lemma set_ready_inv:
  assumes "q_inv q"
  shows "q_inv (fst (set_ready q b now))"
proof (cases b)
  case True
  from assms have "q_pre (q\<lparr>q_ready := True\<rparr>)" by (simp add: q_inv_def q_pre_def)
  then show ?thesis using True by (simp add: set_ready_def pump_inv)
next
  case False
  have "can_send (q\<lparr>q_ready := False\<rparr>) e \<Longrightarrow> can_send q e" for e
    by (auto simp: can_send_def is_in_flight_def split: if_splits Priority.splits)
  then show ?thesis using assms False
    by (auto simp: set_ready_def q_inv_def q_pre_def q_quiet_def)
qed

lemma distinct_mset_sub:
  assumes "mset xs \<subseteq># mset ys" "distinct ys"
  shows "distinct xs"
  unfolding distinct_count_atmost_1
proof
  fix a
  have "count (mset xs) a \<le> count (mset ys) a" using assms(1) by (rule mset_subset_eq_count)
  also have "\<dots> \<le> 1" using assms(2) by (simp add: distinct_count_atmost_1)
  finally have le: "count (mset xs) a \<le> 1" .
  show "count (mset xs) a = (if a \<in> set xs then 1 else 0)"
  proof (cases "a \<in> set xs")
    case True
    then have "0 < count (mset xs) a" by simp
    with le have "count (mset xs) a = 1" by linarith
    with True show ?thesis by simp
  qed simp
qed

lemma q_pre_subset:
  assumes "q_pre q" "mset (q_in_flight q') \<subseteq># mset (q_in_flight q)" "mset (q_pending q') \<subseteq># mset (q_pending q)"
  shows "q_pre q'"
proof -
  have "mset (map e_id (q_in_flight q' @ q_pending q')) \<subseteq># mset (map e_id (q_in_flight q @ q_pending q))"
    using assms(2,3) by (simp add: image_mset_subseteq_mono subset_mset.add_mono)
  then have "distinct (map e_id (q_in_flight q' @ q_pending q'))"
    using assms(1) by (auto simp only: q_pre_def intro: distinct_mset_sub)
  moreover have "filter_mset queued (mset (q_in_flight q')) \<subseteq># filter_mset queued (mset (q_in_flight q))"
    using assms(2) by (rule multiset_filter_mono)
  then have "length (filter queued (q_in_flight q')) \<le> length (filter queued (q_in_flight q))"
    by (metis mset_filter size_mset size_mset_mono)
  ultimately show ?thesis using assms(1) by (simp add: q_pre_def)
qed

lemma on_response_inv:
  assumes "q_inv q"
  shows "q_inv (fst (on_response q i data now))"
proof (cases "List.extract (\<lambda>e. e_id e = i) (q_in_flight q)")
  case None
  with assms show ?thesis by (simp add: on_response_def)
next
  case (Some t)
  obtain b e a where t: "t = (b, e, a)" by (cases t)
  from extract_SomeD(1) [OF Some [unfolded t]] have f: "q_in_flight q = b @ e # a" .
  have "q_pre (q\<lparr>q_in_flight := b @ a\<rparr>)"
    by (rule q_pre_subset [of q]) (use assms f in \<open>simp_all add: q_inv_def\<close>)
  then show ?thesis using Some t by (simp add: on_response_def split_beta pump_inv)
qed

lemma tick_inv:
  assumes "q_inv q"
  shows "q_inv (fst (tick q now))"
proof -
  have "q_pre (q\<lparr>q_in_flight := filter (\<lambda>e. \<not> write_expired q now e) (q_in_flight q),
      q_pending := filter (\<lambda>e. \<not> queue_expired q now e) (q_pending q)\<rparr>)"
    by (rule q_pre_subset [of q]) (use assms in \<open>simp_all add: q_inv_def\<close>)
  then show ?thesis by (simp add: tick_def Let_def split_beta pump_inv)
qed

lemma cancel_all_inv: "q_inv (fst (cancel_all q))"
  by (simp add: cancel_all_def q_inv_def q_pre_def q_quiet_def)

lemma q_step_inv: "q_inv q \<Longrightarrow> q_inv (fst (q_step q op))"
  using submit_inv set_ready_inv on_response_inv tick_inv cancel_all_inv
  by (cases op) (auto simp: split_beta)

text \<open>What the invariant says about a waiting entry.\<close>

lemma q_inv_pending:
  assumes "q_inv q" "e \<in> set (q_pending q)"
  shows "queued e" "q_ready q \<Longrightarrow> filter queued (q_in_flight q) \<noteq> []" "e_id e \<notin> e_id ` set (q_in_flight q)"
proof -
  show ids: "e_id e \<notin> e_id ` set (q_in_flight q)"
    using assms by (auto simp: q_inv_def q_pre_def)
  have "\<not> can_send q e" using assms by (auto simp: q_inv_def q_quiet_def)
  moreover have "\<not> is_in_flight q (e_id e)" using ids by (auto simp: is_in_flight_def list_ex_iff image_iff)
  ultimately show "queued e" "q_ready q \<Longrightarrow> filter queued (q_in_flight q) \<noteq> []"
    by (auto simp: can_send_def list_ex_iff filter_empty_conv split: Priority.splits if_splits)
qed

section \<open>The exact effect of the operations\<close>

lemma can_send_antimono:
  "can_send (q\<lparr>q_pending := ps, q_in_flight := q_in_flight q @ xs\<rparr>) e \<Longrightarrow> can_send q e"
  by (auto simp: can_send_def is_in_flight_def split: if_splits Priority.splits)

lemma can_send_pending [simp]: "can_send (q\<lparr>q_pending := ps\<rparr>) = can_send q"
  by (rule ext) (auto simp: can_send_def is_in_flight_def split: Priority.splits)

lemma q_quiet_more_in_flight:
  "q_quiet q \<Longrightarrow> set ps \<subseteq> set (q_pending q) \<Longrightarrow>
   q_quiet (q\<lparr>q_pending := ps, q_in_flight := q_in_flight q @ xs\<rparr>)"
  by (auto simp: q_quiet_def dest: can_send_antimono)

text \<open>The entry \<open>submit\<close> builds.\<close>

definition new_entry :: "CorrelationId \<Rightarrow> bytes \<Rightarrow> Priority \<Rightarrow> 'c option \<Rightarrow> u64 \<Rightarrow> 'c Entry" where
  "new_entry i payload priority d now = \<lparr>e_id = i, e_payload = payload, e_priority = priority,
     e_done = d, e_queued_at_ms = now, e_sent_at_ms = 0\<rparr>"

lemma new_entry_sel [simp]:
  "e_id (new_entry i p pr d now) = i" "e_payload (new_entry i p pr d now) = p"
  "e_priority (new_entry i p pr d now) = pr" "e_done (new_entry i p pr d now) = d"
  by (simp_all add: new_entry_def)

lemma submit_accepted:
  "\<not> duplicate q i \<Longrightarrow> submit q i p pr d now =
     (case pump (if pr = kKeepAlive then q\<lparr>q_pending := new_entry i p pr d now # q_pending q\<rparr>
                 else q\<lparr>q_pending := q_pending q @ [new_entry i p pr d now]\<rparr>) now of
        (q2, evs) \<Rightarrow> (q2, evs, True))"
  by (simp add: submit_def Let_def new_entry_def)

lemma submit_duplicate:
  "duplicate q i \<Longrightarrow> submit q i p pr d now = (q, call_done d kRejected [], False)"
  by (simp add: submit_def)

text \<open>A keep-alive or fastpass command goes out in the call that submits it.\<close>

lemma submit_ungated:
  assumes "q_inv q" "\<not> duplicate q i" "pr \<noteq> kQueued"
  shows "submit q i p pr d now =
    (q\<lparr>q_in_flight := q_in_flight q @ [sent_at now (new_entry i p pr d now)]\<rparr>, [QWrite i p], True)"
proof -
  define e where "e = new_entry i p pr d now"
  define q1 where "q1 = (if pr = kKeepAlive then q\<lparr>q_pending := e # q_pending q\<rparr>
                 else q\<lparr>q_pending := q_pending q @ [e]\<rparr>)"
  have go: "can_send q e" using assms(2,3)
    by (auto simp: can_send_def e_def duplicate_def split: Priority.splits)
  have blocked: "\<forall>x\<in>set (q_pending q). \<not> can_send q x"
    using assms(1) by (simp add: q_inv_def q_quiet_def)
  obtain b a where x: "List.extract (can_send q1) (q_pending q1) = Some (b, e, a)"
    and rest: "b @ a = q_pending q"
    using go blocked by (cases "pr = kKeepAlive") (simp_all add: q1_def extract_snoc)
  let ?q2 = "q\<lparr>q_in_flight := q_in_flight q @ [sent_at now e]\<rparr>"
  have "q_quiet (q\<lparr>q_pending := q_pending q, q_in_flight := q_in_flight q @ [sent_at now e]\<rparr>)"
    using assms(1) by (intro q_quiet_more_in_flight) (simp_all add: q_inv_def)
  then have "pump ?q2 now = (?q2, [])" by (intro pump_quiet) simp
  moreover have "?q2 = q1\<lparr>q_pending := b @ a, q_in_flight := q_in_flight q1 @ [sent_at now e]\<rparr>"
    by (simp add: q1_def rest)
  ultimately have "pump q1 now = (?q2, [QWrite i p])"
    using pump_send [OF x] by (simp add: e_def)
  then show ?thesis by (simp only: submit_accepted [OF assms(2)] q1_def e_def prod.case)
qed

text \<open>With only ordinary commands waiting, the pump releases the oldest one if the gate is open
  and none is in flight, and nothing otherwise.\<close>

definition slot_free :: "'c CommandQueue \<Rightarrow> bool" where
  "slot_free q \<longleftrightarrow> q_ready q \<and> filter queued (q_in_flight q) = []"

definition release :: "'c CommandQueue \<Rightarrow> u64 \<Rightarrow> 'c CommandQueue \<times> 'c QEvent list" where
  "release q now =
     (case q_pending q of
        [] \<Rightarrow> (q, [])
      | e # es \<Rightarrow>
          if slot_free q then
            (q\<lparr>q_pending := es, q_in_flight := q_in_flight q @ [sent_at now e]\<rparr>, [qwrite e])
          else (q, []))"

lemma pump_queued:
  assumes "q_pre q" "list_all queued (q_pending q)"
  shows "pump q now = release q now"
proof (cases "slot_free q \<and> q_pending q \<noteq> []")
  case False
  then have "q_quiet q" using assms(2)
    by (auto simp: q_quiet_def slot_free_def can_send_def list_all_iff list_ex_iff filter_empty_conv
        split: Priority.splits)
  then show ?thesis using False by (auto simp: pump_quiet release_def split: list.splits)
next
  case True
  then obtain e es where p: "q_pending q = e # es" by (cases "q_pending q") auto
  have "can_send q e" using True assms p
    by (auto simp: can_send_def slot_free_def is_in_flight_def list_ex_iff filter_empty_conv q_pre_def image_iff
        split: Priority.splits)
  then have x: "List.extract (can_send q) (q_pending q) = Some ([], e, es)" by (simp add: p)
  let ?q1 = "q\<lparr>q_pending := es, q_in_flight := q_in_flight q @ [sent_at now e]\<rparr>"
  have "q_quiet ?q1" using assms(2) p
    by (auto simp: q_quiet_def can_send_def list_all_iff list_ex_iff split: Priority.splits)
  then show ?thesis using True p pump_send [OF x refl] by (simp add: release_def pump_quiet)
qed

lemma q_inv_all_queued: "q_inv q \<Longrightarrow> list_all queued (q_pending q)"
  by (auto simp: list_all_iff dest: q_inv_pending)

lemma q_inv_slot_free: "q_inv q \<Longrightarrow> slot_free q \<Longrightarrow> q_pending q = []"
  using q_inv_pending(2) [of q "hd (q_pending q)"]
  by (cases "q_pending q") (auto simp: slot_free_def)

lemma submit_ordinary:
  assumes "q_inv q" "\<not> duplicate q i"
  shows "submit q i p kQueued d now =
    (if slot_free q
     then (q\<lparr>q_in_flight := q_in_flight q @ [sent_at now (new_entry i p kQueued d now)]\<rparr>, [QWrite i p], True)
     else (q\<lparr>q_pending := q_pending q @ [new_entry i p kQueued d now]\<rparr>, [], True))"
proof -
  let ?e = "new_entry i p kQueued d now"
  let ?q1 = "q\<lparr>q_pending := q_pending q @ [?e]\<rparr>"
  have "q_pre ?q1" using assms by (auto simp: q_inv_def q_pre_def duplicate_iff)
  then have "pump ?q1 now = release ?q1 now"
    using q_inv_all_queued [OF assms(1)] by (intro pump_queued) simp_all
  moreover have "slot_free ?q1 = slot_free q" by (simp add: slot_free_def)
  ultimately show ?thesis using q_inv_slot_free [OF assms(1)] assms(2)
    by (cases "q_pending q") (auto simp: submit_accepted release_def)
qed

lemma set_ready_open:
  assumes "q_inv q"
  shows "set_ready q True now = release (q\<lparr>q_ready := True\<rparr>) now"
proof -
  have "pump (q\<lparr>q_ready := True\<rparr>) now = release (q\<lparr>q_ready := True\<rparr>) now"
    using assms q_inv_all_queued [OF assms] by (intro pump_queued) (auto simp: q_inv_def q_pre_def)
  then show ?thesis by (simp add: set_ready_def)
qed

lemma on_response_matched:
  assumes "q_inv q" "q_in_flight q = b @ e # a" "e_id e = i"
  shows "on_response q i data now =
    (case release (q\<lparr>q_in_flight := b @ a\<rparr>) now of
       (q1, evs) \<Rightarrow> (q1, call_done (e_done e) kResponded data @ evs, True))"
proof -
  have "distinct (map e_id (q_in_flight q))" using assms(1) by (simp add: q_inv_def q_pre_def)
  then have "\<forall>x\<in>set b. e_id x \<noteq> i" using assms(2,3) by (force simp: image_iff)
  then have x: "List.extract (\<lambda>e. e_id e = i) (q_in_flight q) = Some (b, e, a)"
    using assms(2,3) by (simp add: extract_Some_iff)
  have "q_pre (q\<lparr>q_in_flight := b @ a\<rparr>)"
    by (rule q_pre_subset [of q]) (use assms in \<open>simp_all add: q_inv_def\<close>)
  then have "pump (q\<lparr>q_in_flight := b @ a\<rparr>) now = release (q\<lparr>q_in_flight := b @ a\<rparr>) now"
    using q_inv_all_queued [OF assms(1)] by (intro pump_queued) simp_all
  then show ?thesis by (simp add: on_response_def x)
qed

lemma on_response_unmatched:
  "\<not> is_in_flight q i \<Longrightarrow> on_response q i data now = (q, [], False)"
  by (simp add: on_response_def is_in_flight_def list_ex_iff extract_None_iff_ball [THEN iffD2])

text \<open>The queue after \<open>tick\<close> has dropped what is overdue, before it releases anything.\<close>

definition tick_dropped :: "'c CommandQueue \<Rightarrow> u64 \<Rightarrow> 'c CommandQueue" where
  "tick_dropped q now =
     q\<lparr>q_in_flight := filter (\<lambda>e. \<not> write_expired q now e) (q_in_flight q),
       q_pending := filter (\<lambda>e. \<not> queue_expired q now e) (q_pending q)\<rparr>"

lemma tick_effect:
  assumes "q_inv q"
  shows "tick q now =
    (case release (tick_dropped q now) now of
       (q2, evs) \<Rightarrow>
         (q2, concat (map (\<lambda>e. call_done (e_done e) kTimedOut [])
                (filter (write_expired q now) (q_in_flight q) @
                 filter (queue_expired q now) (q_pending q))) @ evs))"
proof -
  have "q_pre (tick_dropped q now)"
    by (rule q_pre_subset [of q]) (use assms in \<open>simp_all add: q_inv_def tick_dropped_def\<close>)
  then have "pump (tick_dropped q now) now = release (tick_dropped q now) now"
    using q_inv_all_queued [OF assms]
    by (intro pump_queued) (auto simp: list_all_iff tick_dropped_def)
  then show ?thesis by (simp add: tick_def tick_dropped_def)
qed

lemma release_frame [simp]:
  "q_ready (fst (release q now)) = q_ready q" "q_opts (fst (release q now)) = q_opts q"
  by (auto simp: release_def split: list.splits)

section \<open>Completions\<close>

definition q_owed :: "'c \<Rightarrow> 'c CommandQueue \<Rightarrow> nat" where
  "q_owed c q = length (filter (\<lambda>e. e_done e = Some c) (q_in_flight q @ q_pending q))"

fun q_takes :: "'c \<Rightarrow> 'c QOp \<Rightarrow> nat" where
  "q_takes c (Submit i p pr d now) = (if d = Some c then 1 else 0)"
| "q_takes c _ = 0"

fun done_for :: "'c \<Rightarrow> 'c QEvent \<Rightarrow> bool" where
  "done_for c (QDone c' outcome data) = (c' = c)"
| "done_for c (QWrite i p) = False"

definition q_settles :: "'c \<Rightarrow> 'c QEvent list \<Rightarrow> nat" where
  "q_settles c evs = length (filter (done_for c) evs)"

lemma q_settles_simps [simp]:
  "q_settles c [] = 0" "q_settles c (xs @ ys) = q_settles c xs + q_settles c ys"
  "q_settles c (map qwrite es) = 0"
  "q_settles c (call_done d outcome data) = (if d = Some c then 1 else 0)"
  by (auto simp: q_settles_def call_done_def filter_empty_conv split: option.splits)

lemma q_settles_calls:
  "q_settles c (concat (map (\<lambda>e. call_done (e_done e) outcome []) es)) =
   length (filter (\<lambda>e. e_done e = Some c) es)"
  by (induction es) simp_all

lemma length_filter_eq_count: "length (filter (\<lambda>x. f x = y) xs) = count (image_mset f (mset xs)) y"
  by (induction xs) auto

lemma q_owed_count:
  "q_owed c q = count (image_mset e_done (mset (q_in_flight q) + mset (q_pending q))) (Some c)"
  by (simp add: q_owed_def length_filter_eq_count)

lemma q_owed_add [simp]:
  "q_owed c (q\<lparr>q_pending := e # q_pending q\<rparr>) = q_owed c q + (if e_done e = Some c then 1 else 0)"
  "q_owed c (q\<lparr>q_pending := q_pending q @ [e]\<rparr>) = q_owed c q + (if e_done e = Some c then 1 else 0)"
  "q_owed c (q\<lparr>q_ready := b\<rparr>) = q_owed c q"
  by (simp_all add: q_owed_def)

lemma pump_owed [simp]: "q_owed c (fst (pump q now)) = q_owed c q"
  and pump_settles [simp]: "q_settles c (snd (pump q now)) = 0"
proof -
  obtain sent where s: "q_in_flight (fst (pump q now)) = q_in_flight q @ map (sent_at now) sent"
     "snd (pump q now) = map qwrite sent"
     "mset (q_pending q) = mset sent + mset (q_pending (fst (pump q now)))"
    using pump_effect [of q now] by blast
  have "image_mset e_done (mset (map (sent_at now) sent)) = image_mset e_done (mset sent)"
    by (simp add: image_mset.compositionality comp_def)
  then show "q_owed c (fst (pump q now)) = q_owed c q"
    by (simp add: q_owed_count s(1,3) del: mset_map)
  show "q_settles c (snd (pump q now)) = 0" by (simp add: s(2))
qed

lemma length_filter_split:
  "length (filter P (filter Q xs)) + length (filter P (filter (\<lambda>x. \<not> Q x) xs)) = length (filter P xs)"
  by (induction xs) auto

lemma q_step_balance:
  "q_settles c (snd (q_step q op)) + q_owed c (fst (q_step q op)) = q_owed c q + q_takes c op"
proof (cases op)
  case (Submit i p pr d now)
  then show ?thesis
    by (cases "duplicate q i") (simp_all add: submit_duplicate submit_accepted split_beta)
next
  case (SetReady b now)
  then show ?thesis by (simp add: set_ready_def Let_def)
next
  case (OnResponse i data now)
  show ?thesis
  proof (cases "List.extract (\<lambda>e. e_id e = i) (q_in_flight q)")
    case None
    then show ?thesis by (simp add: OnResponse on_response_def)
  next
    case (Some t)
    obtain b e a where t: "t = (b, e, a)" by (cases t)
    from extract_SomeD(1) [OF Some [unfolded t]] have "q_in_flight q = b @ e # a" .
    then have "q_owed c q = (if e_done e = Some c then 1 else 0) + q_owed c (q\<lparr>q_in_flight := b @ a\<rparr>)"
      by (simp add: q_owed_def)
    then show ?thesis
      using Some t by (simp add: OnResponse on_response_def split_beta)
  qed
next
  case (Tick now)
  have "q_owed c (tick_dropped q now) + length (filter (\<lambda>e. e_done e = Some c)
      (filter (write_expired q now) (q_in_flight q) @ filter (queue_expired q now) (q_pending q))) = q_owed c q"
    using length_filter_split [of "\<lambda>e. e_done e = Some c" "write_expired q now" "q_in_flight q"]
      length_filter_split [of "\<lambda>e. e_done e = Some c" "queue_expired q now" "q_pending q"]
    by (simp add: q_owed_def tick_dropped_def)
  then show ?thesis
    by (simp add: Tick tick_def Let_def split_beta q_settles_calls
        tick_dropped_def [symmetric])
next
  case CancelAll
  then show ?thesis by (simp add: cancel_all_def q_owed_def q_settles_calls)
qed

interpretation queue_machine: ledger_machine q_step "new_queue opts" q_inv "q_owed c" "q_takes c" "q_settles c"
  for opts c
proof unfold_locales
  show "q_inv (new_queue opts)" by (rule q_inv_new)
  show "q_inv (fst (q_step q op))" if "q_inv q" for q :: "'a CommandQueue" and op
    using that by (rule q_step_inv)
  show "q_owed c (new_queue opts) = 0" by (simp add: q_owed_def new_queue_def)
qed (simp_all add: q_step_balance)

section \<open>Properties of every outstanding command\<close>

definition q_all :: "('c Entry \<Rightarrow> bool) \<Rightarrow> 'c CommandQueue \<Rightarrow> bool" where
  "q_all P q \<longleftrightarrow> (\<forall>e\<in>set (q_in_flight q @ q_pending q). P e)"

text \<open>
  A property of a command that does not depend on when it was sent holds of all outstanding
  commands after every operation, if it holds of the command that is submitted.
\<close>

locale entry_property =
  fixes P :: "'c Entry \<Rightarrow> bool"
  assumes stable: "P (e\<lparr>e_sent_at_ms := t\<rparr>) \<longleftrightarrow> P e"
begin

lemma pump_all:
  assumes "q_all P q"
  shows "q_all P (fst (pump q now))"
proof -
  obtain sent where s: "q_in_flight (fst (pump q now)) = q_in_flight q @ map (sent_at now) sent"
     "mset (q_pending q) = mset sent + mset (q_pending (fst (pump q now)))"
    using pump_effect [of q now] by blast
  from arg_cong [OF s(2), of set_mset] have "set (q_pending q) = set sent \<union> set (q_pending (fst (pump q now)))"
    by simp
  with assms show ?thesis by (auto simp: q_all_def s(1) stable)
qed

lemma submit_all:
  assumes "q_all P q" "P (new_entry i p pr d now)"
  shows "q_all P (fst (submit q i p pr d now))"
proof (cases "duplicate q i")
  case False
  from assms have "q_all P (q\<lparr>q_pending := new_entry i p pr d now # q_pending q\<rparr>)"
    "q_all P (q\<lparr>q_pending := q_pending q @ [new_entry i p pr d now]\<rparr>)"
    by (auto simp: q_all_def)
  then show ?thesis using False by (auto simp: submit_accepted split_beta pump_all)
qed (simp add: submit_duplicate assms)

lemma set_ready_all: "q_all P q \<Longrightarrow> q_all P (fst (set_ready q b now))"
  using pump_all [of "q\<lparr>q_ready := b\<rparr>" now] by (simp add: set_ready_def Let_def q_all_def)

lemma on_response_all: "q_all P q \<Longrightarrow> q_all P (fst (on_response q i data now))"
proof (cases "List.extract (\<lambda>e. e_id e = i) (q_in_flight q)")
  case (Some t)
  assume q: "q_all P q"
  obtain b e a where t: "t = (b, e, a)" by (cases t)
  from extract_SomeD(1) [OF Some [unfolded t]] q have "q_all P (q\<lparr>q_in_flight := b @ a\<rparr>)"
    by (auto simp: q_all_def)
  with Some t show ?thesis by (simp add: on_response_def split_beta pump_all)
qed (simp add: on_response_def)

lemma tick_all: "q_all P q \<Longrightarrow> q_all P (fst (tick q now))"
proof -
  assume "q_all P q"
  then have "q_all P (tick_dropped q now)" by (auto simp: tick_dropped_def q_all_def)
  moreover have "fst (tick q now) = fst (pump (tick_dropped q now) now)"
    by (simp add: tick_def Let_def split_beta tick_dropped_def)
  ultimately show ?thesis by (simp only: pump_all)
qed

lemma cancel_all_all: "q_all P (fst (cancel_all q))"
  by (simp add: q_all_def cancel_all_def)

end

section \<open>The closed gate and the deadlines\<close>

lemma pump_closed:
  "\<not> q_ready q \<Longrightarrow> filter queued (q_in_flight (fst (pump q now))) = filter queued (q_in_flight q)"
proof (induction q rule: pump_induct [where now = now])
  case (quiet q)
  then show ?case by (simp add: pump_quiet)
next
  case (send q b e a)
  with can_send_queued [of q e] show ?case by (auto simp: pump_send [OF send(1) refl])
qed

lemma q_step_closed:
  assumes "\<not> q_ready (fst (q_step q op))"
  shows "mset (filter queued (q_in_flight (fst (q_step q op)))) \<subseteq># mset (filter queued (q_in_flight q))"
proof (cases op)
  case (Submit i p pr d now)
  with assms show ?thesis
    by (cases "duplicate q i")
       (auto simp: submit_duplicate submit_accepted split_beta pump_closed split: if_splits)
next
  case (SetReady b now)
  with assms show ?thesis by (auto simp: set_ready_def Let_def pump_closed split: if_splits)
next
  case (OnResponse i data now)
  show ?thesis
  proof (cases "List.extract (\<lambda>e. e_id e = i) (q_in_flight q)")
    case None
    then show ?thesis by (simp add: OnResponse on_response_def)
  next
    case (Some t)
    obtain b e a where t: "t = (b, e, a)" by (cases t)
    from extract_SomeD(1) [OF Some [unfolded t]] have "q_in_flight q = b @ e # a" .
    with assms Some t show ?thesis
      by (auto simp: OnResponse on_response_def split_beta pump_closed)
  qed
next
  case (Tick now)
  have "filter_mset queued (filter_mset P (mset (q_in_flight q))) \<subseteq># filter_mset queued (mset (q_in_flight q))" for P
    by (rule multiset_filter_mono) simp
  with assms show ?thesis
    by (simp add: Tick tick_def Let_def split_beta pump_closed del: filter_filter)
next
  case CancelAll
  then show ?thesis by (simp add: cancel_all_def)
qed

lemma release_in_flight:
  "e \<in> set (q_in_flight (fst (release q now))) \<Longrightarrow> e \<in> set (q_in_flight q) \<or> e_sent_at_ms e = now"
  "e \<in> set (q_pending (fst (release q now))) \<Longrightarrow> e \<in> set (q_pending q)"
  by (auto simp: release_def split: list.splits if_splits)

lemma tick_deadlines:
  assumes "q_inv q" "tick q now = (q', evs)"
  shows "e \<in> set (q_in_flight q') \<Longrightarrow> write_timeout_ms (q_opts q) \<noteq> 0 \<Longrightarrow> \<not> write_expired q' now e"
    and "e \<in> set (q_pending q') \<Longrightarrow> \<not> queue_expired q' now e"
proof -
  from assms have q': "q' = fst (release (tick_dropped q now) now)"
    by (simp add: tick_effect split: prod.splits)
  then have opts: "q_opts q' = q_opts q" by (simp add: tick_dropped_def)
  then have same: "write_expired q' = write_expired q" "queue_expired q' = queue_expired q"
    by (auto simp: write_expired_def queue_expired_def fun_eq_iff)
  show "\<not> queue_expired q' now e" if e: "e \<in> set (q_pending q')"
  proof -
    have "e \<in> set (q_pending (tick_dropped q now))" by (rule release_in_flight(2) [OF e [unfolded q']])
    then show ?thesis by (simp add: same tick_dropped_def)
  qed
  assume e: "e \<in> set (q_in_flight q')" and t: "write_timeout_ms (q_opts q) \<noteq> 0"
  have "\<not> ucast (write_timeout_ms (q_opts q)) \<le> (0 :: u64)"
    using t by (simp add: word_le_nat_alt unat_ucast_up unat_gt_0)
  then show "\<not> write_expired q' now e"
    using release_in_flight(1) [OF e [unfolded q']] unfolding same
    by (auto simp: tick_dropped_def write_expired_def [of q now e])
qed

section \<open>Properties\<close>

text \<open>
  C5. In every reachable state no correlation id is outstanding twice, at most one ordinary
  command is in flight, and whatever waits is an ordinary command held back by a closed gate
  or by the ordinary command in flight: a keep-alive or fastpass command never waits.
\<close>

theorem queue_invariant:
  "let q = fst (run q_step (new_queue opts) ops) in
     distinct (map e_id (q_in_flight q @ q_pending q)) \<and>
     length (filter (\<lambda>e. e_priority e = kQueued) (q_in_flight q)) \<le> 1 \<and>
     list_all (\<lambda>e. e_priority e = kQueued \<and>
        \<not> (q_ready q \<and> filter (\<lambda>f. e_priority f = kQueued) (q_in_flight q) = [])) (q_pending q)"
proof -
  define q where "q = fst (run q_step (new_queue opts) ops)"
  have inv: "q_inv q" unfolding q_def by (rule queue_machine.inv_run)
  then have "distinct (map e_id (q_in_flight q @ q_pending q))" "length (filter queued (q_in_flight q)) \<le> 1"
    by (simp_all only: q_inv_def q_pre_def)
  moreover have "list_all (\<lambda>e. queued e \<and> \<not> (q_ready q \<and> filter queued (q_in_flight q) = [])) (q_pending q)"
    using q_inv_pending(1,2) [OF inv] by (auto simp only: list_all_iff)
  ultimately show ?thesis by (simp only: Let_def q_def [symmetric])
qed

text \<open>
  C10. Every submission is completed exactly once: along any sequence of operations the calls
  of a callback and the outstanding commands that carry it add up to its submissions, whether
  accepted or rejected, and \<open>cancel_all\<close> leaves none outstanding.
\<close>

theorem completion_exactly_once:
  "q_settles c (snd (run q_step (new_queue opts) ops)) +
     q_owed c (fst (run q_step (new_queue opts) ops)) = sum_list (map (q_takes c) ops) \<and>
   q_settles c (snd (run q_step (new_queue opts) (ops @ [CancelAll]))) = sum_list (map (q_takes c) ops)"
proof
  show "q_settles c (snd (run q_step (new_queue opts) ops)) +
     q_owed c (fst (run q_step (new_queue opts) ops)) = sum_list (map (q_takes c) ops)"
    by (rule queue_machine.run_balance)
  have "q_owed c (fst (run q_step (new_queue opts) (ops @ [CancelAll]))) = 0"
    by (simp add: cancel_all_def q_owed_def)
  then show "q_settles c (snd (run q_step (new_queue opts) (ops @ [CancelAll]))) =
      sum_list (map (q_takes c) ops)"
    using queue_machine.run_balance [of c opts "ops @ [CancelAll]"] by simp
qed

text \<open>
  Keep-alive is never starved: in every reachable state, whatever the gate and whatever is
  waiting, submitting a keep-alive or a fastpass command whose id is not outstanding writes it
  at once, in that call, and disturbs nothing else; an outstanding id is rejected at once.
\<close>

lemma ungated_never_starved:
  "let q = fst (run q_step (new_queue opts) ops) in
     list_all (\<lambda>pr. submit q i p pr d now =
       (if duplicate q i then (q, call_done d kRejected [], False)
        else (q\<lparr>q_in_flight := q_in_flight q @ [(new_entry i p pr d now)\<lparr>e_sent_at_ms := now\<rparr>]\<rparr>,
              [QWrite i p], True)))
     [kKeepAlive, kFastpass]"
  using queue_machine.inv_run [of opts ops]
  by (simp add: Let_def submit_duplicate submit_ungated)

text \<open>
  An ordinary command is written at once exactly when the gate is open and no ordinary
  command is in flight; otherwise it joins the end of the queue and nothing is written.
\<close>

lemma ordinary_gated:
  "let q = fst (run q_step (new_queue opts) ops) in
     submit q i p kQueued d now =
       (if duplicate q i then (q, call_done d kRejected [], False)
        else if slot_free q
        then (q\<lparr>q_in_flight := q_in_flight q @ [(new_entry i p kQueued d now)\<lparr>e_sent_at_ms := now\<rparr>]\<rparr>,
              [QWrite i p], True)
        else (q\<lparr>q_pending := q_pending q @ [new_entry i p kQueued d now]\<rparr>, [], True))"
  using queue_machine.inv_run [of opts ops]
  by (simp add: Let_def submit_duplicate submit_ordinary)

text \<open>
  No operation that leaves the gate closed lets another ordinary command out: the ordinary
  commands in flight afterwards were in flight before.
\<close>

lemma closed_gate_holds:
  assumes "\<not> q_ready (fst (q_step q op))"
  shows "mset (filter (\<lambda>e. e_priority e = kQueued) (q_in_flight (fst (q_step q op)))) \<subseteq>#
         mset (filter (\<lambda>e. e_priority e = kQueued) (q_in_flight q))"
  using assms by (rule q_step_closed)

text \<open>
  A response releases the serialization slot in order: the matching command's callback is
  called with the response, exactly that command leaves the in-flight list, and then the
  oldest waiting command, if the slot is free, is the only one written. An id nobody waits
  for changes nothing and is reported as unhandled.
\<close>

lemma response_releases_oldest:
  assumes "q_inv q"
  shows "if is_in_flight q i then
      \<exists>b e a. q_in_flight q = b @ e # a \<and> e_id e = i \<and>
        on_response q i data now =
          (case release (q\<lparr>q_in_flight := b @ a\<rparr>) now of
             (q1, evs) \<Rightarrow> (q1, call_done (e_done e) kResponded data @ evs, True))
    else on_response q i data now = (q, [], False)"
proof (cases "is_in_flight q i")
  case True
  then obtain e where "e \<in> set (q_in_flight q)" "e_id e = i"
    by (auto simp: is_in_flight_def list_ex_iff)
  then obtain b a where "q_in_flight q = b @ e # a" by (auto dest: split_list)
  with True \<open>e_id e = i\<close> on_response_matched [OF assms] show ?thesis by auto
next
  case False
  then show ?thesis by (simp add: on_response_unmatched)
qed

text \<open>
  No command waits past its deadline: after a \<open>tick\<close> nothing in flight is older than the
  write timeout and nothing waiting is older than the queue timeout, and every command that
  was overdue has had its callback called with \<open>kTimedOut\<close>, in order, in that call.
\<close>

lemma tick_enforces_deadlines:
  assumes "q_inv q" "write_timeout_ms (q_opts q) \<noteq> 0" "tick q now = (q', evs)"
  shows "list_all (\<lambda>e. \<not> write_expired q now e) (q_in_flight q') \<and>
    list_all (\<lambda>e. \<not> queue_expired q now e) (q_pending q') \<and>
    (\<exists>writes. evs = concat (map (\<lambda>e. call_done (e_done e) kTimedOut [])
        (filter (write_expired q now) (q_in_flight q) @ filter (queue_expired q now) (q_pending q))) @ writes)"
proof -
  from assms(1,3) have "q' = fst (release (tick_dropped q now) now)"
    by (simp add: tick_effect split: prod.splits)
  then have "q_opts q' = q_opts q" by (simp add: tick_dropped_def)
  then have "write_expired q' = write_expired q" "queue_expired q' = queue_expired q"
    by (auto simp: write_expired_def queue_expired_def fun_eq_iff)
  with tick_deadlines [OF assms(1,3)] assms(2)
  have "list_all (\<lambda>e. \<not> write_expired q now e) (q_in_flight q')"
    "list_all (\<lambda>e. \<not> queue_expired q now e) (q_pending q')"
    by (simp_all add: list_all_iff)
  with assms(3) show ?thesis by (auto simp: tick_effect [OF assms(1)] split: prod.splits)
qed

end
