(* ===== verification/Ble_Session.thy ===== *)
theory Ble_Session
  imports Ble_Protocol Query_Parser Command_Queue
begin

text \<open>
  The composed control plane: \<open>native/include/ble_session.h\<close> and \<open>native/src/ble_session.cpp\<close>.
  A session owns one reassembler per characteristic, the command queue and the ready state.
  Its five callbacks are events, put out in the order the source calls them; which callbacks
  are installed is part of the state. The queue's completion token is the correlation id the
  session captures. \<open>Channel\<close> is an enumeration over \<open>uint8_t\<close> that the source also makes by
  casting arbitrary bytes, so it is a byte here, with the enumerators as constants.

  The lemmas show that the queue's gate always equals the camera's readiness, that every
  message completed on a channel is delivered exactly once whatever the other channels do,
  that ids of the two widths never meet, and when a keep-alive is written.
\<close>

section \<open>Channels and correlation ids\<close>

type_synonym Channel = u8

definition kCommand :: Channel where "kCommand = 0"
definition kSettings :: Channel where "kSettings = 1"
definition kQuery :: Channel where "kQuery = 2"
definition kNetwork :: Channel where "kNetwork = 3"

lemmas channel_defs = kCommand_def kSettings_def kQuery_def kNetwork_def

definition kChannelCount :: nat where "kChannelCount = 4"

definition channel_to_string :: "Channel \<Rightarrow> string" where
  "channel_to_string c =
     (if c = kCommand then ''command'' else if c = kSettings then ''settings''
      else if c = kQuery then ''query'' else if c = kNetwork then ''network'' else ''?'')"

definition correlation_of :: "Channel \<Rightarrow> u8 \<Rightarrow> CorrelationId" where
  "correlation_of channel leading_byte = push_bit 8 (ucast channel) OR ucast leading_byte"

definition kProtobufCorrelationBit :: CorrelationId where
  "kProtobufCorrelationBit = push_bit 24 1"

definition protobuf_response_action :: "u8 \<Rightarrow> u8" where
  "protobuf_response_action request = request OR 0x80"

definition channel_of_correlation :: "CorrelationId \<Rightarrow> Channel" where
  "channel_of_correlation i =
     (let shift = (if i AND kProtobufCorrelationBit \<noteq> 0 then 16 else 8)
      in ucast (drop_bit shift i AND 0xFF))"

definition correlation_of_protobuf :: "Channel \<Rightarrow> u8 \<Rightarrow> u8 \<Rightarrow> CorrelationId" where
  "correlation_of_protobuf channel feature_id request_action_id =
     kProtobufCorrelationBit OR push_bit 16 (ucast channel) OR push_bit 8 (ucast feature_id) OR
     ucast (protobuf_response_action request_action_id)"

definition correlation_of_message :: "Channel \<Rightarrow> bytes \<Rightarrow> CorrelationId" where
  "correlation_of_message channel message =
     (if message = [] then correlation_of channel 0 else correlation_of channel (message ! 0))"

definition protobuf_correlation_of_message :: "Channel \<Rightarrow> bytes \<Rightarrow> CorrelationId" where
  "protobuf_correlation_of_message channel message =
     kProtobufCorrelationBit OR push_bit 16 (ucast channel) OR push_bit 8 (ucast (message ! 0)) OR
     ucast (message ! 1)"

definition kLedSettingId :: u8 where "kLedSettingId = 91"
definition kKeepAliveValue :: u8 where "kKeepAliveValue = 66"

definition keep_alive_payload :: bytes where
  "keep_alive_payload = [kLedSettingId, 1, kKeepAliveValue]"

section \<open>State\<close>

record SessionConfig =
  keep_alive_interval_ms :: u32
  sc_att_payload :: nat
  sc_queue :: CommandQueueOptions

definition default_session_config :: SessionConfig where
  "default_session_config = \<lparr>keep_alive_interval_ms = 3000, sc_att_payload = kMinAttPayload,
     sc_queue = default_queue_options\<rparr>"

text \<open>Which of the callbacks are installed.\<close>

record SessionCallbacks =
  has_write :: bool
  has_on_response :: bool
  has_on_push :: bool
  has_on_ready :: bool
  has_on_frame_error :: bool

datatype SEvent =
    SWrite Channel bytes
  | SResponse CorrelationId Outcome bytes
  | SPush Channel QueryResponse bytes
  | SReady bool
  | SFrameError Channel FeedResult

record BleSession =
  s_cfg :: SessionConfig
  s_callbacks :: SessionCallbacks
  s_rx :: "Reassembler list"
  s_queue :: "CorrelationId CommandQueue"
  s_ready :: ReadyState
  s_last_keep_alive_ms :: u64
  s_keep_alive_started :: bool

definition new_session :: "bool \<Rightarrow> SessionConfig \<Rightarrow> BleSession" where
  "new_session write cfg =
     \<lparr>s_cfg = cfg,
      s_callbacks = \<lparr>has_write = write, has_on_response = False, has_on_push = False,
                     has_on_ready = False, has_on_frame_error = False\<rparr>,
      s_rx = replicate kChannelCount rx_init,
      s_queue = new_queue (sc_queue cfg),
      s_ready = rs_init,
      s_last_keep_alive_ms = 0,
      s_keep_alive_started = False\<rparr>"

text \<open>The four setters \<open>on_response\<close>, \<open>on_push\<close>, \<open>on_ready\<close> and \<open>on_frame_error\<close>, given
  together whether a callback is installed.\<close>

definition set_callbacks :: "BleSession \<Rightarrow> bool \<Rightarrow> bool \<Rightarrow> bool \<Rightarrow> bool \<Rightarrow> BleSession" where
  "set_callbacks s response push rdy frame_error =
     s\<lparr>s_callbacks := (s_callbacks s)\<lparr>has_on_response := response, has_on_push := push,
        has_on_ready := rdy, has_on_frame_error := frame_error\<rparr>\<rparr>"

section \<open>Operations\<close>

text \<open>
  What the session's own callbacks on the queue do: a write is fragmented and goes out on the
  channel recovered from the id, a completion is forwarded with its id.
\<close>

fun on_queue_event :: "BleSession \<Rightarrow> CorrelationId QEvent \<Rightarrow> SEvent list" where
  "on_queue_event s (QWrite i payload) =
     (let channel = channel_of_correlation i in
      case fragment payload (sc_att_payload (s_cfg s)) of
        None \<Rightarrow> []
      | Some packets \<Rightarrow>
          concat (map (\<lambda>packet. if has_write (s_callbacks s) then [SWrite channel packet] else []) packets))"
| "on_queue_event s (QDone i outcome response) =
     (if has_on_response (s_callbacks s) then [SResponse i outcome response] else [])"

definition on_queue :: "BleSession \<Rightarrow> CorrelationId QEvent list \<Rightarrow> SEvent list" where
  "on_queue s evs = concat (map (on_queue_event s) evs)"

definition call_on_ready :: "BleSession \<Rightarrow> bool \<Rightarrow> SEvent list" where
  "call_on_ready s b = (if has_on_ready (s_callbacks s) then [SReady b] else [])"

definition set_att_payload :: "BleSession \<Rightarrow> nat \<Rightarrow> BleSession" where
  "set_att_payload s n =
     (if n \<ge> kMinAttPayload then s\<lparr>s_cfg := (s_cfg s)\<lparr>sc_att_payload := n\<rparr>\<rparr> else s)"

definition response_id :: "BleSession \<Rightarrow> Channel \<Rightarrow> bytes \<Rightarrow> CorrelationId" where
  "response_id s channel message =
     (let i = correlation_of_message channel message in
      if length message \<ge> 2 then
        (let wide = protobuf_correlation_of_message channel message in
         if is_in_flight (s_queue s) wide then wide else i)
      else i)"

text \<open>Both branches of \<open>deliver\<close> fold a message that parses into the ready state.\<close>

definition deliver_reply :: "BleSession \<Rightarrow> bytes \<Rightarrow> u64 \<Rightarrow> BleSession \<times> SEvent list" where
  "deliver_reply s message now_ms =
     (case parse_query message of
        (parsed, res) \<Rightarrow>
          (if res = kOk then
             (let was = rs_ready (s_ready s);
                  (rs, changed) = rs_apply (s_ready s) parsed;
                  s1 = s\<lparr>s_ready := rs\<rparr>;
                  ev1 = (if changed then call_on_ready s1 (rs_ready rs) else []);
                  (q, qev) = (if rs_ready rs \<noteq> was then set_ready (s_queue s1) (rs_ready rs) now_ms
                              else (s_queue s1, []))
              in (s1\<lparr>s_queue := q\<rparr>, ev1 @ on_queue s1 qev))
           else (s, [])))"

definition deliver_push :: "BleSession \<Rightarrow> Channel \<Rightarrow> bytes \<Rightarrow> u64 \<Rightarrow> BleSession \<times> SEvent list" where
  "deliver_push s channel message now_ms =
     (case parse_query message of
        (parsed, res) \<Rightarrow>
          (let (s1, ev1) =
             (if res = kOk then
                (let was = rs_ready (s_ready s);
                     (rs, changed) = rs_apply (s_ready s) parsed;
                     s1 = s\<lparr>s_ready := rs\<rparr>
                 in if changed then
                      (let (q, qev) = set_ready (s_queue s1) (rs_ready rs) now_ms
                       in (s1\<lparr>s_queue := q\<rparr>, on_queue s1 qev @ call_on_ready s1 (rs_ready rs)))
                    else if rs_ready rs \<noteq> was then
                      (let (q, qev) = set_ready (s_queue s1) (rs_ready rs) now_ms
                       in (s1\<lparr>s_queue := q\<rparr>, on_queue s1 qev))
                    else (s1, []))
              else (s, []))
           in (s1, ev1 @ (if has_on_push (s_callbacks s) then [SPush channel parsed message] else []))))"

definition deliver :: "BleSession \<Rightarrow> Channel \<Rightarrow> bytes \<Rightarrow> u64 \<Rightarrow> BleSession \<times> SEvent list" where
  "deliver s channel message now_ms =
     (case on_response (s_queue s) (response_id s channel message) message now_ms of
        (q, qev, handled) \<Rightarrow>
          (if handled then
             (let s1 = s\<lparr>s_queue := q\<rparr>; (s2, ev2) = deliver_reply s1 message now_ms
              in (s2, on_queue s1 qev @ ev2))
           else deliver_push (s\<lparr>s_queue := q\<rparr>) channel message now_ms))"

definition session_feed :: "BleSession \<Rightarrow> Channel \<Rightarrow> bytes \<Rightarrow> u64 \<Rightarrow> BleSession \<times> SEvent list" where
  "session_feed s channel packet now_ms =
     (let idx = unat channel in
      if idx \<ge> kChannelCount then (s, [])
      else
        (case feed (s_rx s ! idx) packet of
           (r, result) \<Rightarrow>
             (case result of
                kNeedMore \<Rightarrow> (s\<lparr>s_rx := (s_rx s)[idx := r]\<rparr>, [])
              | kComplete \<Rightarrow>
                  (let (r', message) = rx_take r
                   in deliver (s\<lparr>s_rx := (s_rx s)[idx := r']\<rparr>) channel message now_ms)
              | _ \<Rightarrow> (s\<lparr>s_rx := (s_rx s)[idx := r]\<rparr>,
                      if has_on_frame_error (s_callbacks s) then [SFrameError channel result] else []))))"

definition enqueue :: "BleSession \<Rightarrow> CorrelationId \<Rightarrow> bytes \<Rightarrow> Priority \<Rightarrow> u64 \<Rightarrow>
    BleSession \<times> SEvent list \<times> bool" where
  "enqueue s i payload priority now_ms =
     (case submit (s_queue s) i payload priority (Some i) now_ms of
        (q, qev, accepted) \<Rightarrow> (s\<lparr>s_queue := q\<rparr>, on_queue s qev, accepted))"

definition session_submit :: "BleSession \<Rightarrow> Channel \<Rightarrow> bytes \<Rightarrow> Priority \<Rightarrow> u64 \<Rightarrow>
    BleSession \<times> SEvent list \<times> bool" where
  "session_submit s channel payload priority now_ms =
     (if payload = [] then (s, [], False)
      else enqueue s (correlation_of channel (payload ! 0)) payload priority now_ms)"

definition submit_protobuf :: "BleSession \<Rightarrow> Channel \<Rightarrow> u8 \<Rightarrow> u8 \<Rightarrow> bytes \<Rightarrow> Priority \<Rightarrow> u64 \<Rightarrow>
    BleSession \<times> SEvent list \<times> bool" where
  "submit_protobuf s channel feature_id action_id message priority now_ms =
     enqueue s (correlation_of_protobuf channel feature_id action_id)
       ([feature_id] @ [action_id] @ message) priority now_ms"

definition session_tick :: "BleSession \<Rightarrow> u64 \<Rightarrow> BleSession \<times> SEvent list" where
  "session_tick s now_ms =
     (let (q, qev) = tick (s_queue s) now_ms;
          s1 = s\<lparr>s_queue := q\<rparr>; ev1 = on_queue s qev
      in if \<not> s_keep_alive_started s1 then
           (s1\<lparr>s_keep_alive_started := True, s_last_keep_alive_ms := now_ms\<rparr>, ev1)
         else if now_ms - s_last_keep_alive_ms s1 < ucast (keep_alive_interval_ms (s_cfg s1)) then
           (s1, ev1)
         else
           (let s2 = s1\<lparr>s_last_keep_alive_ms := now_ms\<rparr>;
                (s3, ev3, _) = session_submit s2 kSettings keep_alive_payload kKeepAlive now_ms
            in (s3, ev1 @ ev3)))"

definition on_disconnect :: "BleSession \<Rightarrow> BleSession \<times> SEvent list" where
  "on_disconnect s =
     (let s1 = s\<lparr>s_rx := map rx_reset (s_rx s)\<rparr>;
          (q, qev) = cancel_all (s_queue s1);
          was = rs_ready (s_ready s1);
          rs = rs_reset (s_ready s1);
          (q', qev') = set_ready q False 0;
          s2 = s1\<lparr>s_queue := q', s_ready := rs, s_keep_alive_started := False\<rparr>
      in (s2, on_queue s1 qev @ on_queue s1 qev' @ (if was then call_on_ready s2 False else [])))"

text \<open>The public operations as one step function.\<close>

datatype SOp =
    SFeed Channel bytes u64
  | SSubmit Channel bytes Priority u64
  | SSubmitProtobuf Channel u8 u8 bytes Priority u64
  | STick u64
  | SSetAttPayload nat
  | SDisconnect

fun s_step :: "BleSession \<Rightarrow> SOp \<Rightarrow> BleSession \<times> SEvent list" where
  "s_step s (SFeed c p now) = session_feed s c p now"
| "s_step s (SSubmit c p pr now) = (case session_submit s c p pr now of (s', ev, _) \<Rightarrow> (s', ev))"
| "s_step s (SSubmitProtobuf c f a m pr now) =
     (case submit_protobuf s c f a m pr now of (s', ev, _) \<Rightarrow> (s', ev))"
| "s_step s (STick now) = session_tick s now"
| "s_step s (SSetAttPayload n) = (set_att_payload s n, [])"
| "s_step s SDisconnect = on_disconnect s"

section \<open>Correlation ids\<close>

lemma bit_protobuf_flag: "bit kProtobufCorrelationBit n \<longleftrightarrow> n = 24"
  unfolding kProtobufCorrelationBit_def
  by (simp only: bit_push_bit_iff bit_1_iff possible_bit_def) auto

lemma bit_ucast_u8: "bit (ucast (b :: u8) :: u64) n \<longleftrightarrow> bit b n"
  by (auto simp: bit_simps dest: bit_imp_le_length)

lemma bit_u8_lt: "bit (b :: u8) n \<Longrightarrow> n < 8"
  by (auto dest: bit_imp_le_length)

lemma bit_shifted_u8: "bit (push_bit k (ucast (b :: u8)) :: u64) n \<longleftrightarrow> n < 64 \<and> k \<le> n \<and> bit b (n - k)"
  by (auto simp: bit_push_bit_iff bit_ucast_u8)

lemma bit_correlation_of:
  "bit (correlation_of c b) n \<longleftrightarrow> (if n < 8 then bit b n else bit c (n - 8))"
  by (auto simp: correlation_of_def bit_or_iff bit_shifted_u8 bit_ucast_u8 dest: bit_u8_lt)

lemma bit_correlation_of_protobuf:
  "bit (correlation_of_protobuf c f a) n \<longleftrightarrow>
     (if n < 8 then bit (protobuf_response_action a) n else if n < 16 then bit f (n - 8)
      else n = 24 \<or> bit c (n - 16))"
  by (auto simp: correlation_of_protobuf_def bit_or_iff bit_shifted_u8 bit_ucast_u8 bit_protobuf_flag
      dest: bit_u8_lt)

lemma is_wide: "i AND kProtobufCorrelationBit \<noteq> 0 \<longleftrightarrow> bit i 24"
proof
  assume "i AND kProtobufCorrelationBit \<noteq> 0"
  then obtain n where "bit (i AND kProtobufCorrelationBit) n"
    by (metis bit_word_eqI bit_0_eq bot_apply bot_bool_def)
  then show "bit i 24" by (auto simp add: bit_and_iff bit_protobuf_flag)
next
  assume "bit i 24"
  then have "bit (i AND kProtobufCorrelationBit) 24" by (simp add: bit_and_iff bit_protobuf_flag)
  then show "i AND kProtobufCorrelationBit \<noteq> 0" by auto
qed

lemma bit_channel_of_correlation:
  "bit (channel_of_correlation i) n \<longleftrightarrow> n < 8 \<and> bit i (n + (if bit i 24 then 16 else 8))"
proof -
  have "bit (ucast (drop_bit k i AND 0xFF) :: u8) n \<longleftrightarrow> n < 8 \<and> bit i (n + k)" for k
  proof -
    have "(0xFF :: u64) = mask 8" by (simp add: mask_eq_exp_minus_1)
    then have "bit (0xFF :: u64) n \<longleftrightarrow> n < 8" by (simp only: bit_mask_iff possible_bit_def) auto
    then show ?thesis by (auto simp: bit_unsigned_iff bit_and_iff bit_drop_bit_eq ac_simps)
  qed
  then show ?thesis by (simp add: channel_of_correlation_def Let_def is_wide)
qed

lemma channel_of_correlation_of [simp]: "channel_of_correlation (correlation_of c b) = c"
  by (rule bit_word_eqI) (auto simp: bit_channel_of_correlation bit_correlation_of dest: bit_u8_lt)

lemma channel_of_correlation_protobuf [simp]: "channel_of_correlation (correlation_of_protobuf c f a) = c"
  by (rule bit_word_eqI)
     (auto simp: bit_channel_of_correlation bit_correlation_of_protobuf dest: bit_u8_lt)

lemma correlation_of_inject: "correlation_of c b = correlation_of c' b' \<longleftrightarrow> c = c' \<and> b = b'"
proof
  assume eq: "correlation_of c b = correlation_of c' b'"
  have "bit b n = bit b' n" if "n < 8" for n
    using arg_cong [OF eq, of "\<lambda>w. bit w n"] that by (simp add: bit_correlation_of)
  then have "b = b'" by (intro bit_word_eqI) simp
  moreover have "c = c'" using arg_cong [OF eq, of channel_of_correlation] by simp
  ultimately show "c = c' \<and> b = b'" by simp
qed simp

lemma correlation_of_protobuf_inject:
  "correlation_of_protobuf c f a = correlation_of_protobuf c' f' a' \<longleftrightarrow>
     c = c' \<and> f = f' \<and> protobuf_response_action a = protobuf_response_action a'"
proof
  assume eq: "correlation_of_protobuf c f a = correlation_of_protobuf c' f' a'"
  have "bit (protobuf_response_action a) n = bit (protobuf_response_action a') n" if "n < 8" for n
    using arg_cong [OF eq, of "\<lambda>w. bit w n"] that by (simp add: bit_correlation_of_protobuf)
  moreover have "bit f n = bit f' n" if "n < 8" for n
    using arg_cong [OF eq, of "\<lambda>w. bit w (n + 8)"] that by (simp add: bit_correlation_of_protobuf)
  moreover have "c = c'" using arg_cong [OF eq, of channel_of_correlation] by simp
  ultimately show "c = c' \<and> f = f' \<and> protobuf_response_action a = protobuf_response_action a'"
    by (auto intro: bit_word_eqI)
qed (simp add: correlation_of_protobuf_def)

lemma correlation_disjoint: "correlation_of c b \<noteq> correlation_of_protobuf c' f a"
proof
  assume "correlation_of c b = correlation_of_protobuf c' f a"
  then have "bit (correlation_of c b) 24" by (simp add: bit_correlation_of_protobuf)
  then show False by (auto simp: bit_correlation_of dest: bit_u8_lt)
qed

lemma wide_message_id:
  "protobuf_correlation_of_message c (f # a # rest) =
     correlation_of_protobuf c f a \<longleftrightarrow> protobuf_response_action a = a"
proof -
  have "protobuf_correlation_of_message c (f # a # rest) =
      kProtobufCorrelationBit OR push_bit 16 (ucast c) OR push_bit 8 (ucast f) OR ucast a"
    by (simp add: protobuf_correlation_of_message_def)
  moreover have "bit (kProtobufCorrelationBit OR push_bit 16 (ucast c) OR push_bit 8 (ucast f) OR ucast a) n \<longleftrightarrow>
      (if n < 8 then bit a n else if n < 16 then bit f (n - 8) else n = 24 \<or> bit c (n - 16))" for n
    by (auto simp: bit_or_iff bit_shifted_u8 bit_ucast_u8 bit_protobuf_flag dest: bit_u8_lt)
  ultimately show ?thesis
    by (auto simp: bit_eq_iff bit_correlation_of_protobuf dest: bit_u8_lt)
qed

lemma channel_of_message_id [simp]:
  "channel_of_correlation (correlation_of_message c m) = c"
  "channel_of_correlation (protobuf_correlation_of_message c m) = c"
proof -
  show "channel_of_correlation (correlation_of_message c m) = c"
    by (simp add: correlation_of_message_def)
  have "bit (protobuf_correlation_of_message c m) n \<longleftrightarrow>
      (if n < 8 then bit (m ! 1) n else if n < 16 then bit (m ! 0) (n - 8) else n = 24 \<or> bit c (n - 16))" for n
    by (auto simp: protobuf_correlation_of_message_def bit_or_iff bit_shifted_u8 bit_ucast_u8
        bit_protobuf_flag dest: bit_u8_lt)
  then show "channel_of_correlation (protobuf_correlation_of_message c m) = c"
    by (intro bit_word_eqI) (auto simp: bit_channel_of_correlation dest: bit_u8_lt)
qed

lemma channel_of_response_id [simp]: "channel_of_correlation (response_id s c m) = c"
  by (simp add: response_id_def Let_def)

section \<open>Invariant\<close>

abbreviation own_token :: "CorrelationId Entry \<Rightarrow> bool" where
  "own_token e \<equiv> e_done e = Some (e_id e)"

definition q_tokens :: "CorrelationId CommandQueue \<Rightarrow> bool" where
  "q_tokens q \<longleftrightarrow> q_all own_token q"

interpretation tokens: entry_property own_token
  by unfold_locales simp

text \<open>
  One reassembler per channel, the queue's own invariant, the queue's gate open exactly when
  the camera is ready, and every outstanding command completed under its own id.
\<close>

definition s_inv :: "BleSession \<Rightarrow> bool" where
  "s_inv s \<longleftrightarrow> length (s_rx s) = kChannelCount \<and> q_inv (s_queue s) \<and>
     q_ready (s_queue s) = rs_ready (s_ready s) \<and> q_tokens (s_queue s)"

lemma queue_tokens:
  "q_tokens q \<Longrightarrow> q_tokens (fst (submit q i p pr (Some i) now))"
  "q_tokens q \<Longrightarrow> q_tokens (fst (set_ready q b now))"
  "q_tokens q \<Longrightarrow> q_tokens (fst (on_response q i data now))"
  "q_tokens q \<Longrightarrow> q_tokens (fst (tick q now))"
  by (simp_all add: q_tokens_def tokens.submit_all tokens.set_ready_all tokens.on_response_all tokens.tick_all)

text \<open>Only \<open>set_ready\<close> moves the gate.\<close>

lemma queue_gate_frame [simp]:
  "q_ready (fst (submit q i p pr d now)) = q_ready q"
  "q_ready (fst (on_response q i data now)) = q_ready q"
  "q_ready (fst (tick q now)) = q_ready q"
  "q_ready (fst (cancel_all q)) = q_ready q"
  "q_ready (fst (set_ready q b now)) = b"
  by (simp_all add: submit_def on_response_def tick_def cancel_all_def set_ready_def Let_def
      split_beta split: option.splits)

lemma on_queue_event_cong:
  "s_cfg s = s_cfg t \<Longrightarrow> s_callbacks s = s_callbacks t \<Longrightarrow> on_queue_event s e = on_queue_event t e"
  by (cases e) (simp_all only: on_queue_event.simps)

lemma on_queue_cong:
  "s_cfg s = s_cfg t \<Longrightarrow> s_callbacks s = s_callbacks t \<Longrightarrow> on_queue s = on_queue t"
proof -
  assume "s_cfg s = s_cfg t" "s_callbacks s = s_callbacks t"
  then have "on_queue_event s = on_queue_event t" by (intro ext on_queue_event_cong)
  then show "on_queue s = on_queue t" by (intro ext) (simp only: on_queue_def)
qed

lemma on_queue_frame [simp]:
  "on_queue (s\<lparr>s_queue := q\<rparr>) = on_queue s" "on_queue (s\<lparr>s_ready := r\<rparr>) = on_queue s"
  "on_queue (s\<lparr>s_rx := x\<rparr>) = on_queue s" "on_queue (s\<lparr>s_last_keep_alive_ms := t\<rparr>) = on_queue s"
  by (rule on_queue_cong; simp)+

lemma on_queue_append [simp]: "on_queue s (xs @ ys) = on_queue s xs @ on_queue s ys"
  and on_queue_Nil [simp]: "on_queue s [] = []"
  by (simp_all add: on_queue_def)

lemma call_on_ready_frame [simp]:
  "call_on_ready (s\<lparr>s_ready := r\<rparr>) = call_on_ready s" "call_on_ready (s\<lparr>s_queue := q\<rparr>) = call_on_ready s"
  by (simp_all add: call_on_ready_def fun_eq_iff)

text \<open>What each branch of \<open>deliver\<close> does to the session, in closed form.\<close>

definition fold_ready :: "ReadyState \<Rightarrow> bytes \<Rightarrow> ReadyState" where
  "fold_ready rs message =
     (case parse_query message of (parsed, res) \<Rightarrow> if res = kOk then fst (rs_apply rs parsed) else rs)"

definition gate_moved :: "BleSession \<Rightarrow> bytes \<Rightarrow> bool" where
  "gate_moved s message \<longleftrightarrow> rs_ready (fold_ready (s_ready s) message) \<noteq> rs_ready (s_ready s)"

definition moved_queue :: "BleSession \<Rightarrow> bytes \<Rightarrow> u64 \<Rightarrow> CorrelationId CommandQueue \<times> CorrelationId QEvent list" where
  "moved_queue s message now =
     (if gate_moved s message
      then set_ready (s_queue s) (rs_ready (fold_ready (s_ready s) message)) now
      else (s_queue s, []))"

lemma deliver_reply_effect:
  "deliver_reply s message now =
     (s\<lparr>s_ready := fold_ready (s_ready s) message, s_queue := fst (moved_queue s message now)\<rparr>,
      (if gate_moved s message then call_on_ready s (rs_ready (fold_ready (s_ready s) message)) else []) @
      on_queue s (snd (moved_queue s message now)))"
  by (simp add: deliver_reply_def moved_queue_def gate_moved_def fold_ready_def Let_def split_beta
      rs_apply_changed)

lemma deliver_push_effect:
  "deliver_push s channel message now =
     (s\<lparr>s_ready := fold_ready (s_ready s) message, s_queue := fst (moved_queue s message now)\<rparr>,
      on_queue s (snd (moved_queue s message now)) @
      (if gate_moved s message then call_on_ready s (rs_ready (fold_ready (s_ready s) message)) else []) @
      (if has_on_push (s_callbacks s) then [SPush channel (fst (parse_query message)) message] else []))"
  by (simp add: deliver_push_def moved_queue_def gate_moved_def fold_ready_def Let_def split_beta
      rs_apply_changed)

lemma moved_queue_inv:
  assumes "q_inv (s_queue s)" "q_ready (s_queue s) = rs_ready (s_ready s)" "q_tokens (s_queue s)"
  shows "q_inv (fst (moved_queue s message now))"
    "q_ready (fst (moved_queue s message now)) = rs_ready (fold_ready (s_ready s) message)"
    "q_tokens (fst (moved_queue s message now))"
  using assms by (auto simp: moved_queue_def gate_moved_def set_ready_inv queue_tokens)

lemma deliver_inv:
  assumes "s_inv s"
  shows "s_inv (fst (deliver s channel message now))"
proof -
  obtain q qev handled where r: "on_response (s_queue s) (response_id s channel message) message now = (q, qev, handled)"
    by (cases "on_response (s_queue s) (response_id s channel message) message now")
  have "q_inv q" "q_tokens q" "q_ready q = rs_ready (s_ready s)"
    using assms r on_response_inv [of "s_queue s" "response_id s channel message" message now]
      queue_tokens(3) [of "s_queue s" "response_id s channel message" message now]
      queue_gate_frame(2) [of "s_queue s" "response_id s channel message" message now]
    by (auto simp: s_inv_def)
  then show ?thesis using assms
      moved_queue_inv [of "s\<lparr>s_queue := q\<rparr>" message now]
    by (auto simp: deliver_def r deliver_reply_effect deliver_push_effect s_inv_def Let_def)
qed

lemma session_feed_inv: "s_inv s \<Longrightarrow> s_inv (fst (session_feed s channel packet now))"
  by (auto simp: session_feed_def Let_def split_beta s_inv_def [of "s\<lparr>s_rx := _\<rparr>"] s_inv_def [of s]
      intro!: deliver_inv split: FeedResult.splits)

lemma enqueue_inv: "s_inv s \<Longrightarrow> s_inv (fst (enqueue s i payload pr now))"
  by (simp add: enqueue_def split_beta s_inv_def submit_inv queue_tokens)

lemma session_submit_inv: "s_inv s \<Longrightarrow> s_inv (fst (session_submit s channel payload pr now))"
  by (simp add: session_submit_def enqueue_inv)

text \<open>The session after \<open>tick\<close> has driven the queue's deadlines.\<close>

definition ticked :: "BleSession \<Rightarrow> u64 \<Rightarrow> BleSession" where
  "ticked s now = s\<lparr>s_queue := fst (tick (s_queue s) now)\<rparr>"

lemma ticked_inv: "s_inv s \<Longrightarrow> s_inv (ticked s now)"
  by (simp add: ticked_def s_inv_def tick_inv queue_tokens)

definition keep_alive_due :: "BleSession \<Rightarrow> u64 \<Rightarrow> bool" where
  "keep_alive_due s now \<longleftrightarrow> s_keep_alive_started s \<and>
     \<not> now - s_last_keep_alive_ms s < ucast (keep_alive_interval_ms (s_cfg s))"

lemma session_tick_effect:
  "session_tick s now =
     (let ev1 = on_queue s (snd (tick (s_queue s) now));
          (s3, ev3, _) = session_submit ((ticked s now)\<lparr>s_last_keep_alive_ms := now\<rparr>)
             kSettings keep_alive_payload kKeepAlive now
      in if keep_alive_due s now then (s3, ev1 @ ev3)
         else if s_keep_alive_started s then (ticked s now, ev1)
         else ((ticked s now)\<lparr>s_keep_alive_started := True, s_last_keep_alive_ms := now\<rparr>, ev1))"
  by (simp add: session_tick_def keep_alive_due_def ticked_def Let_def split_beta)

lemma session_tick_inv:
  assumes "s_inv s"
  shows "s_inv (fst (session_tick s now))"
proof -
  have "s_inv ((ticked s now)\<lparr>s_last_keep_alive_ms := now\<rparr>)"
    "s_inv ((ticked s now)\<lparr>s_keep_alive_started := True, s_last_keep_alive_ms := now\<rparr>)"
    using ticked_inv [OF assms] by (simp_all add: s_inv_def)
  then show ?thesis using ticked_inv [OF assms]
    by (simp add: session_tick_effect Let_def split_beta session_submit_inv)
qed

lemma on_disconnect_effect:
  "on_disconnect s =
     (s\<lparr>s_rx := map rx_reset (s_rx s), s_queue := (s_queue s)\<lparr>q_ready := False, q_in_flight := [], q_pending := []\<rparr>,
        s_ready := rs_init, s_keep_alive_started := False\<rparr>,
      on_queue s (snd (cancel_all (s_queue s))) @ (if rs_ready (s_ready s) then call_on_ready s False else []))"
  by (simp add: on_disconnect_def cancel_all_def set_ready_def Let_def rs_reset_def rs_init_def call_on_ready_def)

lemma on_disconnect_canceled:
  assumes "s_inv s" "has_on_response (s_callbacks s)"
  shows "on_queue s (snd (cancel_all (s_queue s))) =
    map (\<lambda>e. SResponse (e_id e) kCanceled []) (q_in_flight (s_queue s) @ q_pending (s_queue s))"
proof -
  have "on_queue s (concat (map (\<lambda>e. call_done (e_done e) kCanceled []) es)) =
      map (\<lambda>e. SResponse (e_id e) kCanceled []) es" if "\<forall>e\<in>set es. own_token e" for es
    using that assms(2) by (induction es) (simp_all add: call_done_def on_queue_def)
  then show ?thesis
    using assms(1) by (simp add: cancel_all_def s_inv_def q_tokens_def q_all_def del: map_append)
qed

lemma s_step_inv: "s_inv s \<Longrightarrow> s_inv (fst (s_step s op))"
proof (cases op)
  case (SSetAttPayload n)
  assume "s_inv s"
  with SSetAttPayload show ?thesis by (simp add: set_att_payload_def s_inv_def)
next
  case SDisconnect
  assume "s_inv s"
  with SDisconnect show ?thesis
    by (simp add: on_disconnect_effect s_inv_def q_inv_def q_pre_def q_quiet_def q_tokens_def q_all_def
        rs_ready_def rs_init_def)
qed (simp_all add: session_feed_inv session_submit_inv submit_protobuf_def enqueue_inv session_tick_inv split_beta)

lemma s_inv_new: "s_inv (new_session write cfg)"
  using q_inv_new [of "sc_queue cfg", where ?'a = CorrelationId]
  by (simp add: s_inv_def new_session_def rs_init_def rs_ready_def new_queue_def q_tokens_def q_all_def)

lemma s_inv_callbacks [simp]: "s_inv (set_callbacks s a b c d) = s_inv s"
  by (simp add: s_inv_def set_callbacks_def)

abbreviation live_session :: "SessionConfig \<Rightarrow> BleSession" where
  "live_session cfg \<equiv> set_callbacks (new_session True cfg) True True True True"

interpretation session_machine: invariant_machine s_step "live_session cfg" s_inv for cfg
  by unfold_locales (simp_all add: s_inv_new s_step_inv)

lemma s_step_callbacks [simp]: "s_callbacks (fst (s_step s op)) = s_callbacks s"
proof (cases op)
  case (SFeed c p now)
  then show ?thesis
    by (simp add: session_feed_def deliver_def deliver_reply_effect deliver_push_effect Let_def split_beta
        split: FeedResult.splits)
qed (simp_all add: session_submit_def submit_protobuf_def enqueue_def session_tick_effect ticked_def
    set_att_payload_def on_disconnect_effect Let_def split_beta)

section \<open>Every message is delivered once, on its channel\<close>

text \<open>The messages handed to the client as having arrived on a channel: pushes, and responses
  to commands of that channel.\<close>

fun delivered_by :: "Channel \<Rightarrow> SEvent \<Rightarrow> bytes list" where
  "delivered_by c (SPush c' r m) = (if c' = c then [m] else [])"
| "delivered_by c (SResponse i outcome m) =
     (if outcome = kResponded \<and> channel_of_correlation i = c then [m] else [])"
| "delivered_by c _ = []"

definition delivered :: "Channel \<Rightarrow> SEvent list \<Rightarrow> bytes list" where
  "delivered c evs = concat (map (delivered_by c) evs)"

lemma delivered_simps [simp]:
  "delivered c [] = []" "delivered c (xs @ ys) = delivered c xs @ delivered c ys"
  "delivered c (e # xs) = delivered_by c e @ delivered c xs"
  by (simp_all add: delivered_def)

lemma delivered_none:
  "\<forall>e\<in>set evs. delivered_by c e = [] \<Longrightarrow> delivered c evs = []"
  by (auto simp: delivered_def)

lemma delivered_on_queue:
  "\<forall>e\<in>set qev. \<forall>i m. e \<noteq> QDone i kResponded m \<Longrightarrow> delivered c (on_queue s qev) = []"
proof (rule delivered_none, rule ballI)
  fix e assume q: "\<forall>e\<in>set qev. \<forall>i m. e \<noteq> QDone i kResponded m" and "e \<in> set (on_queue s qev)"
  then obtain x where x: "x \<in> set qev" "e \<in> set (on_queue_event s x)" by (auto simp: on_queue_def)
  with q show "delivered_by c e = []"
    by (cases x) (auto simp: Let_def split: option.splits if_splits)
qed

text \<open>No operation of the queue but a matching response completes anything with \<open>kResponded\<close>.\<close>

definition no_reply :: "CorrelationId QEvent list \<Rightarrow> bool" where
  "no_reply qev \<longleftrightarrow> (\<forall>e\<in>set qev. \<forall>i m. e \<noteq> QDone i kResponded m)"

lemma no_reply_append [simp]: "no_reply (xs @ ys) \<longleftrightarrow> no_reply xs \<and> no_reply ys"
  by (auto simp: no_reply_def)

lemma no_reply_pump [simp]: "no_reply (snd (pump q now))"
  using pump_effect [of q now] by (auto simp: no_reply_def)

lemma no_reply_calls [simp]: "outcome \<noteq> kResponded \<Longrightarrow> no_reply (call_done d outcome data)"
  "outcome \<noteq> kResponded \<Longrightarrow> no_reply (concat (map (\<lambda>e. call_done (e_done e) outcome []) es))"
  by (auto simp: no_reply_def call_done_def split: option.splits)

lemma no_reply_ops [simp]:
  "no_reply (fst (snd (submit q i p pr d now)))" "no_reply (snd (set_ready q b now))"
  "no_reply (snd (tick q now))" "no_reply (snd (cancel_all q))"
proof -
  show "no_reply (fst (snd (submit q i p pr d now)))"
    by (simp add: submit_def Let_def split_beta)
  show "no_reply (snd (set_ready q b now))"
    by (simp add: set_ready_def Let_def) (simp add: no_reply_def)
  show "no_reply (snd (tick q now))" by (simp add: tick_def Let_def split_beta del: map_append)
  show "no_reply (snd (cancel_all q))" by (simp add: cancel_all_def del: map_append)
qed

lemma delivered_no_reply [simp]: "no_reply qev \<Longrightarrow> delivered c (on_queue s qev) = []"
  by (rule delivered_on_queue) (simp add: no_reply_def)

lemma delivered_call_on_ready [simp]: "delivered c (call_on_ready s b) = []"
  by (simp add: call_on_ready_def)

lemma no_reply_moved [simp]: "no_reply (snd (moved_queue s message now))"
  by (simp add: moved_queue_def) (simp add: no_reply_def)

lemma delivered_deliver:
  assumes "s_inv s" "has_on_response (s_callbacks s)" "has_on_push (s_callbacks s)"
  shows "delivered c (snd (deliver s channel message now)) = (if channel = c then [message] else [])"
proof (cases "is_in_flight (s_queue s) (response_id s channel message)")
  case True
  let ?i = "response_id s channel message"
  from True obtain e where "e \<in> set (q_in_flight (s_queue s))" "e_id e = ?i"
    by (auto simp: is_in_flight_def list_ex_iff)
  then obtain b a where q: "q_in_flight (s_queue s) = b @ e # a" by (auto dest: split_list)
  have "q_inv (s_queue s)" using assms(1) by (simp add: s_inv_def)
  note r = on_response_matched [OF this q \<open>e_id e = ?i\<close>, of message now]
  have "e_done e = Some ?i" using assms(1) q \<open>e_id e = ?i\<close> by (simp add: s_inv_def q_tokens_def q_all_def)
  moreover have "no_reply (snd (release (s_queue s\<lparr>q_in_flight := b @ a\<rparr>) now))"
    by (auto simp: release_def no_reply_def split: list.splits)
  ultimately show ?thesis using assms(2)
    by (simp add: deliver_def r split_beta Let_def deliver_reply_effect call_done_def on_queue_def [of s "_ # _"]
        on_queue_def [symmetric])
next
  case False
  then show ?thesis using assms(3)
    by (simp add: deliver_def on_response_unmatched deliver_push_effect)
qed

text \<open>One channel on its own.\<close>

fun channel_step :: "Channel \<Rightarrow> Reassembler \<Rightarrow> SOp \<Rightarrow> Reassembler \<times> bytes list" where
  "channel_step c r (SFeed c' packet now) =
     (if c' = c \<and> unat c < kChannelCount then rx_receive r packet else (r, []))"
| "channel_step c r SDisconnect = (rx_reset r, [])"
| "channel_step c r _ = (r, [])"

definition channel_view :: "Channel \<Rightarrow> BleSession \<Rightarrow> Reassembler" where
  "channel_view c s = (if unat c < kChannelCount then s_rx s ! unat c else rx_init)"

definition s_live :: "BleSession \<Rightarrow> bool" where
  "s_live s \<longleftrightarrow> s_inv s \<and> has_on_response (s_callbacks s) \<and> has_on_push (s_callbacks s)"

lemma deliver_rx [simp]: "s_rx (fst (deliver s channel message now)) = s_rx s"
  by (simp add: deliver_def deliver_reply_effect deliver_push_effect Let_def split_beta)

lemma channel_view_update:
  "length (s_rx s) = kChannelCount \<Longrightarrow> s_rx s' = (s_rx s)[unat c' := r] \<Longrightarrow> unat c' < kChannelCount \<Longrightarrow>
   channel_view c s' = (if c' = c then r else channel_view c s)"
  by (auto simp: channel_view_def nth_list_update word_unat_eq_iff [of c' c])

lemma channel_view_feed:
  assumes "s_live s"
  shows "channel_view c (fst (session_feed s c' packet now)) = fst (channel_step c (channel_view c s) (SFeed c' packet now))"
    and "delivered c (snd (session_feed s c' packet now)) = snd (channel_step c (channel_view c s) (SFeed c' packet now))"
proof -
  have len: "length (s_rx s) = kChannelCount" using assms by (simp add: s_live_def s_inv_def)
  obtain r res where f: "feed (s_rx s ! unat c') packet = (r, res)" by (cases "feed (s_rx s ! unat c') packet")
  let ?s = "\<lambda>r. s\<lparr>s_rx := (s_rx s)[unat c' := r]\<rparr>"
  have live: "s_inv (?s r)" "has_on_response (s_callbacks (?s r))" "has_on_push (s_callbacks (?s r))" for r
    using assms by (simp_all add: s_live_def s_inv_def)
  have "channel_view c (fst (session_feed s c' packet now)) = fst (channel_step c (channel_view c s) (SFeed c' packet now)) \<and>
     delivered c (snd (session_feed s c' packet now)) = snd (channel_step c (channel_view c s) (SFeed c' packet now))"
  proof (cases "unat c' < kChannelCount")
    case False
    then show ?thesis by (auto simp: session_feed_def Let_def)
  next
    case True
    have view: "c' = c \<Longrightarrow> channel_view c s = s_rx s ! unat c'" using True by (simp add: channel_view_def)
    show ?thesis
    proof (cases "res = kComplete")
      case False
      then have "fst (session_feed s c' packet now) = ?s r" "delivered c (snd (session_feed s c' packet now)) = []"
        using True f by (auto simp: session_feed_def Let_def split: FeedResult.splits)
      then show ?thesis using True False f view channel_view_update [OF len, of "?s r" c' r c]
        by (auto simp: rx_receive_def)
    next
      case Complete: True
      then have "session_feed s c' packet now = deliver (?s (rx_reset r)) c' (rx_buf r) now"
        using True f by (simp add: session_feed_def rx_take_def)
      moreover have "channel_view c (fst (deliver (?s (rx_reset r)) c' (rx_buf r) now)) =
          (if c' = c then rx_reset r else channel_view c s)"
        using True by (intro channel_view_update [OF len]) simp_all
      ultimately show ?thesis using True Complete f view live [of "rx_reset r"]
        by (auto simp: rx_receive_def rx_take_def delivered_deliver)
    qed
  qed
  then show "channel_view c (fst (session_feed s c' packet now)) = fst (channel_step c (channel_view c s) (SFeed c' packet now))"
    "delivered c (snd (session_feed s c' packet now)) = snd (channel_step c (channel_view c s) (SFeed c' packet now))"
    by blast+
qed

lemma enqueue_quiet [simp]:
  "s_rx (fst (enqueue s i p pr now)) = s_rx s" "delivered c (fst (snd (enqueue s i p pr now))) = []"
  by (simp_all add: enqueue_def split_beta)

lemma session_submit_quiet [simp]:
  "s_rx (fst (session_submit s ch p pr now)) = s_rx s"
  "delivered c (fst (snd (session_submit s ch p pr now))) = []"
  by (simp_all add: session_submit_def)

lemma channel_view_step:
  assumes "s_live s"
  shows "channel_step c (channel_view c s) op = (channel_view c (fst (s_step s op)), delivered c (snd (s_step s op)))"
proof (cases op)
  case (SFeed c' packet now)
  then show ?thesis using channel_view_feed [OF assms, of c c' packet now] by (simp add: prod_eq_iff del: channel_step.simps)
next
  case (SDisconnect)
  have "length (s_rx s) = kChannelCount" using assms by (simp add: s_live_def s_inv_def)
  then show ?thesis by (simp add: SDisconnect on_disconnect_effect channel_view_def)
next
  case (STick now)
  then show ?thesis
    by (simp add: session_tick_effect Let_def split_beta channel_view_def ticked_def)
qed (simp_all add: split_beta channel_view_def submit_protobuf_def set_att_payload_def)

interpretation session_channel: observed_machine s_step "live_session cfg" s_live
  "channel_view c" "channel_step c" "delivered c" for cfg c
proof unfold_locales
  show "s_live (live_session cfg)" by (simp add: s_live_def s_inv_new) (simp add: set_callbacks_def)
  show "s_live (fst (s_step s op))" if "s_live s" for s op
    using that by (simp add: s_live_def s_step_inv)
qed (simp_all add: channel_view_step)

lemma channel_view_live [simp]: "channel_view c (live_session cfg) = rx_init"
  by (simp add: channel_view_def set_callbacks_def new_session_def)

section \<open>The gate is announced\<close>

fun ready_by :: "SEvent \<Rightarrow> bool list" where
  "ready_by (SReady b) = [b]"
| "ready_by _ = []"

definition ready_log :: "SEvent list \<Rightarrow> bool list" where
  "ready_log evs = concat (map ready_by evs)"

lemma ready_log_simps [simp]:
  "ready_log [] = []" "ready_log (xs @ ys) = ready_log xs @ ready_log ys"
  "ready_log (e # xs) = ready_by e @ ready_log xs"
  by (simp_all add: ready_log_def)

lemma ready_log_on_queue [simp]: "ready_log (on_queue s qev) = []"
proof -
  have "ready_log (on_queue_event s e) = []" for e
    by (cases e) (auto simp: Let_def ready_log_def split: option.splits)
  then show ?thesis by (induction qev) (simp_all add: on_queue_def)
qed

lemma ready_log_call [simp]: "has_on_ready (s_callbacks s) \<Longrightarrow> ready_log (call_on_ready s b) = [b]"
  by (simp add: call_on_ready_def)

lemma deliver_ready [simp]:
  "s_ready (fst (deliver s channel message now)) = fold_ready (s_ready s) message"
  by (simp add: deliver_def deliver_reply_effect deliver_push_effect Let_def split_beta)

lemma deliver_ready_log:
  assumes "has_on_ready (s_callbacks s)"
  shows "ready_log (snd (deliver s channel message now)) =
    (if rs_ready (fold_ready (s_ready s) message) = rs_ready (s_ready s) then []
     else [rs_ready (fold_ready (s_ready s) message)])"
  using assms
  by (simp add: deliver_def deliver_reply_effect deliver_push_effect Let_def split_beta gate_moved_def)

lemma session_submit_ready [simp]:
  "s_ready (fst (session_submit s c p pr now)) = s_ready s"
  "ready_log (fst (snd (session_submit s c p pr now))) = []"
  by (simp_all add: session_submit_def enqueue_def split_beta)

lemma s_step_ready_log:
  assumes "has_on_ready (s_callbacks s)"
  shows "ready_log (snd (s_step s op)) =
    (if rs_ready (s_ready (fst (s_step s op))) = rs_ready (s_ready s) then []
     else [rs_ready (s_ready (fst (s_step s op)))])"
proof (cases op)
  case (SFeed c p now)
  then show ?thesis using assms
    by (simp add: session_feed_def Let_def split_beta deliver_ready_log split: FeedResult.splits)
next
  case SDisconnect
  then show ?thesis using assms by (simp add: on_disconnect_effect rs_ready_def rs_init_def)
qed (simp_all add: submit_protobuf_def enqueue_def session_tick_effect ticked_def set_att_payload_def
    Let_def split_beta)

section \<open>Every submission is answered once\<close>

text \<open>
  The keep-alive's own id is left out of the account: whether a tick submits one depends on
  the time, not only on the operation.
\<close>

definition keep_alive_id :: CorrelationId where
  "keep_alive_id = correlation_of kSettings kLedSettingId"

fun answer_to :: "CorrelationId \<Rightarrow> SEvent \<Rightarrow> bool" where
  "answer_to i (SResponse j outcome data) = (j = i)"
| "answer_to i _ = False"

definition s_settles :: "CorrelationId \<Rightarrow> SEvent list \<Rightarrow> nat" where
  "s_settles i evs = (if i = keep_alive_id then 0 else length (filter (answer_to i) evs))"

definition s_owed :: "CorrelationId \<Rightarrow> BleSession \<Rightarrow> nat" where
  "s_owed i s = (if i = keep_alive_id then 0 else q_owed i (s_queue s))"

fun submits :: "CorrelationId \<Rightarrow> SOp \<Rightarrow> bool" where
  "submits i (SSubmit c p pr now) \<longleftrightarrow> p \<noteq> [] \<and> correlation_of c (p ! 0) = i"
| "submits i (SSubmitProtobuf c f a m pr now) \<longleftrightarrow> correlation_of_protobuf c f a = i"
| "submits i _ \<longleftrightarrow> False"

definition s_takes :: "CorrelationId \<Rightarrow> SOp \<Rightarrow> nat" where
  "s_takes i op = (if submits i op \<and> i \<noteq> keep_alive_id then 1 else 0)"

lemma s_settles_simps [simp]:
  "s_settles i [] = 0" "s_settles i (xs @ ys) = s_settles i xs + s_settles i ys"
  "s_settles i (call_on_ready s b) = 0" "s_settles i [SPush c r m] = 0" "s_settles i [SFrameError c e] = 0"
  by (simp_all add: s_settles_def call_on_ready_def)

lemma s_owed_frame [simp]:
  "s_owed i (s\<lparr>s_rx := x\<rparr>) = s_owed i s" "s_owed i (s\<lparr>s_keep_alive_started := b\<rparr>) = s_owed i s"
  "s_owed i (s\<lparr>s_last_keep_alive_ms := t\<rparr>) = s_owed i s"
  by (simp_all add: s_owed_def)

lemma s_settles_on_queue:
  assumes "has_on_response (s_callbacks s)"
  shows "s_settles i (on_queue s qev) = (if i = keep_alive_id then 0 else q_settles i qev)"
proof -
  have "length (filter (answer_to i) (on_queue_event s e)) = (if done_for i e then 1 else 0)" for e
    using assms by (cases e) (auto simp: Let_def filter_empty_conv split: option.splits)
  then have "length (filter (answer_to i) (on_queue s qev)) = q_settles i qev"
    by (induction qev) (simp_all add: on_queue_def q_settles_def)
  then show ?thesis by (simp add: s_settles_def)
qed

lemma enqueue_balance:
  assumes "has_on_response (s_callbacks s)"
  shows "s_settles j (fst (snd (enqueue s i p pr now))) + s_owed j (fst (enqueue s i p pr now)) =
    s_owed j s + (if i = j \<and> j \<noteq> keep_alive_id then 1 else 0)"
  using q_step_balance [of j "s_queue s" "Submit i p pr (Some i) now"] assms
  by (cases "i = j") (auto simp: enqueue_def split_beta s_settles_on_queue s_owed_def)

lemma session_submit_balance:
  assumes "has_on_response (s_callbacks s)"
  shows "s_settles j (fst (snd (session_submit s c p pr now))) + s_owed j (fst (session_submit s c p pr now)) =
    s_owed j s + s_takes j (SSubmit c p pr now)"
  using enqueue_balance [OF assms] by (simp add: session_submit_def s_takes_def)

lemma moved_queue_balance:
  "q_settles j (snd (moved_queue s m now)) + q_owed j (fst (moved_queue s m now)) = q_owed j (s_queue s)"
  using q_step_balance [of j "s_queue s" "SetReady (rs_ready (fold_ready (s_ready s) m)) now"]
  by (simp add: moved_queue_def)

lemma deliver_balance:
  assumes "has_on_response (s_callbacks s)"
  shows "s_settles j (snd (deliver s c m now)) + s_owed j (fst (deliver s c m now)) = s_owed j s"
proof (cases "j = keep_alive_id")
  case True
  then show ?thesis by (simp add: s_settles_def s_owed_def)
next
  case False
  obtain q qev h where r: "on_response (s_queue s) (response_id s c m) m now = (q, qev, h)"
    by (cases "on_response (s_queue s) (response_id s c m) m now")
  have "q_settles j qev + q_owed j q = q_owed j (s_queue s)"
    using q_step_balance [of j "s_queue s" "OnResponse (response_id s c m) m now"] by (simp add: r)
  moreover have "q_settles j (snd (moved_queue (s\<lparr>s_queue := q\<rparr>) m now)) +
      q_owed j (fst (moved_queue (s\<lparr>s_queue := q\<rparr>) m now)) = q_owed j q"
    using moved_queue_balance [of j "s\<lparr>s_queue := q\<rparr>" m now] by simp
  moreover have "\<not> h \<Longrightarrow> qev = []"
    using r by (auto simp: on_response_def Let_def split: option.splits prod.splits)
  ultimately show ?thesis using assms False
    by (auto simp: deliver_def r deliver_reply_effect deliver_push_effect Let_def s_settles_on_queue s_owed_def)
qed

lemma s_step_balance:
  assumes "has_on_response (s_callbacks s)"
  shows "s_settles j (snd (s_step s op)) + s_owed j (fst (s_step s op)) = s_owed j s + s_takes j op"
proof (cases op)
  case (SFeed c p now)
  have "s_settles j (snd (session_feed s c p now)) + s_owed j (fst (session_feed s c p now)) = s_owed j s"
    using assms
    by (simp add: session_feed_def Let_def split_beta deliver_balance split: FeedResult.splits)
  then show ?thesis by (simp add: SFeed s_takes_def)
next
  case (SSubmit c p pr now)
  then show ?thesis using session_submit_balance [OF assms, of j c p pr now] by (simp add: split_beta)
next
  case (SSubmitProtobuf c f a m pr now)
  then show ?thesis using enqueue_balance [OF assms, of j "correlation_of_protobuf c f a"]
    by (simp add: split_beta submit_protobuf_def s_takes_def)
next
  case (STick now)
  let ?t = "(ticked s now)\<lparr>s_last_keep_alive_ms := now\<rparr>"
  have "s_settles j (on_queue s (snd (tick (s_queue s) now))) + s_owed j (ticked s now) = s_owed j s"
    using q_step_balance [of j "s_queue s" "Tick now"] assms
    by (simp add: s_settles_on_queue s_owed_def ticked_def)
  moreover have "s_settles j (fst (snd (session_submit ?t kSettings keep_alive_payload kKeepAlive now))) +
      s_owed j (fst (session_submit ?t kSettings keep_alive_payload kKeepAlive now)) = s_owed j (ticked s now)"
    using session_submit_balance [of ?t j kSettings keep_alive_payload kKeepAlive now] assms
    by (auto simp: s_takes_def keep_alive_payload_def keep_alive_id_def ticked_def s_owed_def)
  ultimately show ?thesis
    by (simp add: STick session_tick_effect Let_def split_beta s_takes_def)
next
  case (SSetAttPayload n)
  then show ?thesis by (simp add: set_att_payload_def s_owed_def s_takes_def)
next
  case SDisconnect
  then show ?thesis using q_step_balance [of j "s_queue s" CancelAll] assms
    by (simp add: on_disconnect_effect s_owed_def s_takes_def s_settles_on_queue) (simp add: q_owed_def cancel_all_def)
qed

interpretation session_ledger: ledger_machine s_step "live_session cfg" s_live "s_owed i" "s_takes i" "s_settles i"
  for cfg i
proof unfold_locales
  show "s_owed i (live_session cfg) = 0"
    by (simp add: s_owed_def set_callbacks_def new_session_def new_queue_def q_owed_def)
  show "s_settles i (snd (s_step s op)) + s_owed i (fst (s_step s op)) = s_owed i s + s_takes i op"
    if "s_live s" for s op
    using that by (simp add: s_live_def s_step_balance)
qed simp_all

section \<open>Keep-alive\<close>

lemma keep_alive_fragment: "5 \<le> att \<Longrightarrow> fragment keep_alive_payload att = Some [[0x20, 3, 91, 1, 66]]"
  by (simp add: fragment_closed_form fragment_ref_def keep_alive_payload_def kLedSettingId_def
      kKeepAliveValue_def kMaxMessageLen_def first_hdr_def Let_def hdr_defs)

lemma channel_of_keep_alive: "channel_of_correlation keep_alive_id = kSettings"
  by (simp add: keep_alive_id_def)

lemma submit_keep_alive:
  assumes "s_inv s" "has_write (s_callbacks s)" "has_on_response (s_callbacks s)" "5 \<le> sc_att_payload (s_cfg s)"
  shows "fst (snd (session_submit s kSettings keep_alive_payload kKeepAlive now)) =
    (if duplicate (s_queue s) keep_alive_id then [SResponse keep_alive_id kRejected []]
     else [SWrite kSettings [0x20, 3, 91, 1, 66]])"
proof -
  have q: "q_inv (s_queue s)" using assms(1) by (simp add: s_inv_def)
  have "session_submit s kSettings keep_alive_payload kKeepAlive now =
      enqueue s keep_alive_id keep_alive_payload kKeepAlive now"
    by (simp add: session_submit_def keep_alive_id_def keep_alive_payload_def)
  then show ?thesis using assms(2,3) keep_alive_fragment [OF assms(4)]
    by (simp add: enqueue_def submit_duplicate submit_ungated [OF q] on_queue_def call_done_def
        channel_of_keep_alive)
qed

lemma s_step_att: "kMinAttPayload \<le> sc_att_payload (s_cfg s) \<Longrightarrow> kMinAttPayload \<le> sc_att_payload (s_cfg (fst (s_step s op)))"
proof (cases op)
  case (SFeed c p now)
  assume "kMinAttPayload \<le> sc_att_payload (s_cfg s)"
  then show ?thesis
    by (simp add: SFeed session_feed_def deliver_def deliver_reply_effect deliver_push_effect Let_def split_beta
        split: FeedResult.splits)
qed (simp_all add: session_submit_def submit_protobuf_def enqueue_def session_tick_effect ticked_def
    set_att_payload_def on_disconnect_effect Let_def split_beta)

lemma s_step_opts: "q_opts (s_queue (fst (s_step s op))) = q_opts (s_queue s)"
proof -
  have q: "q_opts (fst (submit q i p pr d now)) = q_opts q" "q_opts (fst (on_response q i data now)) = q_opts q"
    "q_opts (fst (tick q now)) = q_opts q" "q_opts (fst (set_ready q b now)) = q_opts q"
    for q :: "CorrelationId CommandQueue" and i p pr d now data b
    by (simp_all add: submit_def on_response_def tick_def set_ready_def Let_def split_beta split: option.splits)
  show ?thesis
  proof (cases op)
    case (SFeed c p now)
    then show ?thesis
      by (simp add: session_feed_def deliver_def deliver_reply_effect deliver_push_effect moved_queue_def
          q Let_def split_beta split: FeedResult.splits)
  qed (simp_all add: session_submit_def submit_protobuf_def enqueue_def session_tick_effect ticked_def
      set_att_payload_def on_disconnect_effect q Let_def split_beta)
qed

text \<open>As long as no client submits the keep-alive's id, whatever carries it is a keep-alive.\<close>

abbreviation own_keep_alive :: "CorrelationId Entry \<Rightarrow> bool" where
  "own_keep_alive e \<equiv> e_id e = keep_alive_id \<longrightarrow> e_priority e = kKeepAlive"

interpretation keep_alives: entry_property own_keep_alive
  by unfold_locales simp

lemma s_step_keep_alives:
  assumes "q_all own_keep_alive (s_queue s)" "\<not> submits keep_alive_id op"
  shows "q_all own_keep_alive (s_queue (fst (s_step s op)))"
proof (cases op)
  case (SFeed c p now)
  have "q_all own_keep_alive (s_queue (fst (deliver t c' m now)))" if "q_all own_keep_alive (s_queue t)" for t c' m
    using that keep_alives.on_response_all [OF that]
    by (simp add: deliver_def deliver_reply_effect deliver_push_effect moved_queue_def Let_def split_beta
        keep_alives.set_ready_all)
  then show ?thesis using assms(1)
    by (simp add: SFeed session_feed_def Let_def split_beta split: FeedResult.splits)
next
  case (STick now)
  have "q_all own_keep_alive (s_queue (ticked s now))"
    using keep_alives.tick_all [OF assms(1)] by (simp add: ticked_def)
  then show ?thesis
    by (auto simp: STick session_tick_effect Let_def split_beta session_submit_def enqueue_def
        intro!: keep_alives.submit_all)
next
  case (SSubmit c p pr now)
  then show ?thesis using assms
    by (auto simp: session_submit_def enqueue_def split_beta intro!: keep_alives.submit_all)
next
  case (SSubmitProtobuf c f a m pr now)
  then show ?thesis using assms
    by (auto simp: submit_protobuf_def enqueue_def split_beta intro!: keep_alives.submit_all)
next
  case (SSetAttPayload n)
  then show ?thesis using assms by (simp add: set_att_payload_def)
next
  case SDisconnect
  then show ?thesis by (simp add: on_disconnect_effect q_all_def)
qed

lemma run_keep_alives:
  "q_all own_keep_alive (s_queue s) \<Longrightarrow> list_all (\<lambda>op. \<not> submits keep_alive_id op) ops \<Longrightarrow>
   q_all own_keep_alive (s_queue (fst (run s_step s ops)))"
proof (induction ops arbitrary: s)
  case (Cons op ops)
  then show ?case using s_step_keep_alives [of s op] by (simp add: Let_def split_beta)
qed simp

text \<open>An outstanding keep-alive is in flight and, after a tick, younger than the write timeout.\<close>

lemma outstanding_keep_alive:
  assumes "s_inv s" "q_all own_keep_alive (s_queue s)" "write_timeout_ms (q_opts (s_queue s)) \<noteq> 0"
    and "duplicate (s_queue (ticked s now)) keep_alive_id"
  shows "\<exists>e\<in>set (q_in_flight (s_queue (ticked s now))).
    e_id e = keep_alive_id \<and> e_priority e = kKeepAlive \<and> \<not> write_expired (s_queue s) now e"
proof -
  let ?q = "s_queue (ticked s now)"
  have all: "q_all own_keep_alive ?q" using keep_alives.tick_all [OF assms(2)] by (simp add: ticked_def)
  have inv: "q_inv ?q" using ticked_inv [OF assms(1)] by (simp add: s_inv_def)
  obtain e where e: "e \<in> set (q_in_flight ?q @ q_pending ?q)" "e_id e = keep_alive_id"
    using assms(4) by (metis duplicate_iff imageE)
  with all have pr: "e_priority e = kKeepAlive" by (simp add: q_all_def)
  with e q_inv_all_queued [OF inv] have fl: "e \<in> set (q_in_flight ?q)" by (auto simp: list_all_iff)
  have q0: "q_inv (s_queue s)" using assms(1) by (simp add: s_inv_def)
  have "tick (s_queue s) now = (?q, snd (tick (s_queue s) now))" by (simp add: ticked_def)
  from tick_deadlines(1) [OF q0 this fl assms(3)] have "\<not> write_expired ?q now e" .
  moreover have "q_opts ?q = q_opts (s_queue s)"
    by (simp add: ticked_def tick_effect [OF q0] split_beta tick_dropped_def)
  ultimately show ?thesis using e pr fl by (auto simp: write_expired_def)
qed

section \<open>Replies\<close>

lemma is_in_flight_iff: "is_in_flight q i \<longleftrightarrow> i \<in> e_id ` set (q_in_flight q)"
  by (auto simp: is_in_flight_def list_ex_iff)

lemma deliver_events:
  assumes "s_live s"
  shows "\<exists>rest. snd (deliver s c m now) =
    (if is_in_flight (s_queue s) (response_id s c m) then SResponse (response_id s c m) kResponded m # rest
     else rest @ [SPush c (fst (parse_query m)) m])"
proof (cases "is_in_flight (s_queue s) (response_id s c m)")
  case True
  let ?i = "response_id s c m"
  from True obtain e where "e \<in> set (q_in_flight (s_queue s))" "e_id e = ?i"
    by (auto simp: is_in_flight_def list_ex_iff)
  then obtain b a where q: "q_in_flight (s_queue s) = b @ e # a" by (auto dest: split_list)
  have "q_inv (s_queue s)" using assms by (simp add: s_live_def s_inv_def)
  note r = on_response_matched [OF this q \<open>e_id e = ?i\<close>, of m now]
  have "e_done e = Some ?i" using assms q \<open>e_id e = ?i\<close>
    by (simp add: s_live_def s_inv_def q_tokens_def q_all_def)
  then show ?thesis using True assms
    by (simp add: deliver_def r split_beta Let_def call_done_def on_queue_def s_live_def)
next
  case False
  then show ?thesis using assms
    by (simp add: deliver_def on_response_unmatched deliver_push_effect s_live_def)
qed

lemma response_id_protobuf:
  "response_id s c (f # protobuf_response_action a # m) =
     (if is_in_flight (s_queue s) (correlation_of_protobuf c f a) then correlation_of_protobuf c f a
      else correlation_of c f)"
proof -
  have "protobuf_response_action (protobuf_response_action a) = protobuf_response_action a"
    by (simp add: protobuf_response_action_def or.assoc)
  then have "correlation_of_protobuf c f (protobuf_response_action a) = correlation_of_protobuf c f a"
    by (simp add: correlation_of_protobuf_inject)
  moreover have "protobuf_correlation_of_message c (f # protobuf_response_action a # m) =
      correlation_of_protobuf c f (protobuf_response_action a)"
    using \<open>protobuf_response_action (protobuf_response_action a) = protobuf_response_action a\<close>
    by (simp add: wide_message_id)
  ultimately show ?thesis by (simp add: response_id_def correlation_of_message_def Let_def)
qed

section \<open>Streams of packets\<close>

fun channel_packets :: "Channel \<Rightarrow> SOp list \<Rightarrow> bytes list" where
  "channel_packets c [] = []"
| "channel_packets c (SFeed c' packet now # ops) =
     (if c' = c then packet # channel_packets c ops else channel_packets c ops)"
| "channel_packets c (op # ops) = channel_packets c ops"

lemma channel_run_packets:
  assumes "unat c < kChannelCount" "list_all (\<lambda>op. op \<noteq> SDisconnect) ops"
  shows "run (channel_step c) r ops = run rx_receive r (channel_packets c ops)"
  using assms(2)
proof (induction ops arbitrary: r)
  case (Cons op ops)
  then show ?case using assms(1) by (cases op) (auto simp: Let_def split: prod.splits)
qed simp

lemma run_s_live: "s_live (fst (run s_step (live_session cfg) ops))"
  by (rule session_channel.inv_run)

lemma run_callbacks: "s_callbacks (fst (run s_step s ops)) = s_callbacks s"
  by (rule run_invariant [where I = "\<lambda>t. s_callbacks t = s_callbacks s"]) simp_all

lemma run_opts: "q_opts (s_queue (fst (run s_step s ops))) = q_opts (s_queue s)"
  by (rule run_invariant [where I = "\<lambda>t. q_opts (s_queue t) = q_opts (s_queue s)"]) (simp_all add: s_step_opts)

lemma live_callbacks [simp]:
  "has_write (s_callbacks (live_session cfg))" "has_on_ready (s_callbacks (live_session cfg))"
  "has_on_response (s_callbacks (live_session cfg))" "has_on_push (s_callbacks (live_session cfg))"
  by (simp_all add: set_callbacks_def new_session_def)

lemma live_opts [simp]: "q_opts (s_queue (live_session cfg)) = sc_queue cfg"
  "s_cfg (live_session cfg) = cfg"
  by (simp_all add: set_callbacks_def new_session_def new_queue_def)

section \<open>Properties\<close>

text \<open>
  Correlation ids identify what they are made from: the channel is recovered from an id of
  either width, two one-byte ids or two protobuf ids agree only for the same channel and bytes
  (the action id up to its reply bit), and an id of one width is never one of the other.
\<close>

lemma correlation_ids_unambiguous:
  "channel_of_correlation (correlation_of c b) = c \<and>
   channel_of_correlation (correlation_of_protobuf c f a) = c \<and>
   (correlation_of c b = correlation_of c' b' \<longleftrightarrow> c = c' \<and> b = b') \<and>
   (correlation_of_protobuf c f a = correlation_of_protobuf c' f' a' \<longleftrightarrow>
      c = c' \<and> f = f' \<and> protobuf_response_action a = protobuf_response_action a') \<and>
   correlation_of c b \<noteq> correlation_of_protobuf c' f' a'"
  by (simp add: correlation_of_inject correlation_of_protobuf_inject correlation_disjoint)

text \<open>
  C6. Channels do not interfere: whatever is submitted, ticked, completed or received on other
  channels in between, the messages handed to the client as arriving on a channel are exactly
  the messages that channel's packets complete, each once and in order, whether as a response
  to a command of that channel or as a push.
\<close>

theorem channel_delivers_exactly_its_messages:
  "delivered c (snd (run s_step (live_session cfg) ops)) = snd (run (channel_step c) rx_init ops)"
  using session_channel.view_run [of c cfg ops] by (simp only: channel_view_live snd_conv)

text \<open>
  End to end: when the packets received on a channel are, after any junk, the fragments of
  some messages, interleaved with packets of other channels, submissions and ticks, the client
  is handed exactly those messages, in order, after what the junk itself completed.
\<close>

lemma interleaved_messages_delivered:
  assumes "unat c < kChannelCount" "list_all (\<lambda>op. op \<noteq> SDisconnect) ops"
    and "list_all (ble_sendable att) ms" "ms \<noteq> []"
    and "channel_packets c ops = junk @ concat (map (\<lambda>m. the (fragment m att)) ms)"
  shows "delivered c (snd (run s_step (live_session cfg) ops)) = snd (run rx_receive rx_init junk) @ ms"
proof -
  have "snd (run rx_receive rx_init (channel_packets c ops)) = snd (run rx_receive rx_init junk) @ ms"
    using ble_framing.stream_delivered [OF assms(3,4)] by (simp add: assms(5) fragment_closed_form)
  then show ?thesis
    using session_channel.view_run [of c cfg ops] channel_run_packets [OF assms(1,2), of rx_init]
    by (simp add: prod_eq_iff)
qed

text \<open>
  C12. The queue's gate is the camera's readiness in every reachable state, and every operation
  announces a change of it exactly once, and only a change.
\<close>

theorem gate_follows_readiness:
  "let s = fst (run s_step (live_session cfg) ops); (s', evs) = s_step s op in
     q_ready (s_queue s) = rs_ready (s_ready s) \<and>
     ready_log evs = (if rs_ready (s_ready s') = rs_ready (s_ready s) then [] else [rs_ready (s_ready s')])"
proof -
  define s where "s = fst (run s_step (live_session cfg) ops)"
  have "s_live s" unfolding s_def by (rule run_s_live)
  moreover have "has_on_ready (s_callbacks s)" by (simp add: s_def run_callbacks)
  ultimately have "q_ready (s_queue s) = rs_ready (s_ready s)"
    "ready_log (snd (s_step s op)) = (if rs_ready (s_ready (fst (s_step s op))) = rs_ready (s_ready s) then []
       else [rs_ready (s_ready (fst (s_step s op)))])"
    using s_step_ready_log [of s op] by (simp_all add: s_live_def s_inv_def)
  then show ?thesis by (simp add: Let_def s_def [symmetric] split_beta)
qed

text \<open>
  C11. Every submission is answered exactly once: for every id but the keep-alive's, along any
  operations, the responses reported under it and the commands outstanding under it add up to
  the submissions made under it, and a disconnect leaves none unanswered.
\<close>

theorem every_submission_answered_once:
  "s_settles i (snd (run s_step (live_session cfg) ops)) +
     s_owed i (fst (run s_step (live_session cfg) ops)) = sum_list (map (s_takes i) ops) \<and>
   s_settles i (snd (run s_step (live_session cfg) (ops @ [SDisconnect]))) = sum_list (map (s_takes i) ops)"
proof
  show "s_settles i (snd (run s_step (live_session cfg) ops)) +
     s_owed i (fst (run s_step (live_session cfg) ops)) = sum_list (map (s_takes i) ops)"
    by (rule session_ledger.run_balance)
  have "s_owed i (fst (run s_step (live_session cfg) (ops @ [SDisconnect]))) = 0"
    by (simp add: on_disconnect_effect s_owed_def q_owed_def)
  then show "s_settles i (snd (run s_step (live_session cfg) (ops @ [SDisconnect]))) = sum_list (map (s_takes i) ops)"
    using session_ledger.run_balance [of i cfg "ops @ [SDisconnect]"] by (simp add: s_takes_def)
qed

text \<open>
  C7. Keep-alive is not starved: in every session with packets of at least the smallest ATT payload
  and a write timeout that is not zero, and whose client never submits the keep-alive's own id
  (a write of setting 91), whatever the camera's readiness and whatever is queued, a tick at
  which a keep-alive is due either writes its packet on the settings channel in that tick, or a
  keep-alive is in flight that was written less than the write timeout ago. A client that does
  submit that id can block it: \<open>queued_led_write_blocks_keep_alive\<close> below.
\<close>

theorem keep_alive_never_starved:
  assumes "kMinAttPayload \<le> sc_att_payload cfg" "write_timeout_ms (sc_queue cfg) \<noteq> 0"
    and "list_all (\<lambda>op. \<not> submits keep_alive_id op) ops"
    and "s = fst (run s_step (live_session cfg) ops)" "keep_alive_due s now"
  shows "SWrite kSettings [0x20, 3, 91, 1, 66] \<in> set (snd (session_tick s now)) \<or>
    (\<exists>e\<in>set (q_in_flight (s_queue (fst (session_tick s now)))).
       e_id e = keep_alive_id \<and> e_priority e = kKeepAlive \<and>
       now - e_sent_at_ms e < ucast (write_timeout_ms (sc_queue cfg)))"
proof -
  have live: "s_live s" unfolding assms(4) by (rule run_s_live)
  have inv: "s_inv s" using live by (simp add: s_live_def)
  have cb: "has_write (s_callbacks s)" "has_on_response (s_callbacks s)" by (simp_all add: assms(4) run_callbacks)
  have opts: "q_opts (s_queue s) = sc_queue cfg" by (simp add: assms(4) run_opts)
  have att: "kMinAttPayload \<le> sc_att_payload (s_cfg s)" unfolding assms(4)
    by (rule run_invariant [where I = "\<lambda>t. kMinAttPayload \<le> sc_att_payload (s_cfg t)"])
       (simp_all add: s_step_att assms(1))
  have all: "q_all own_keep_alive (s_queue s)" unfolding assms(4)
    by (rule run_keep_alives) (use assms(3) in \<open>simp_all add: q_all_def set_callbacks_def new_session_def new_queue_def\<close>)
  let ?t = "(ticked s now)\<lparr>s_last_keep_alive_ms := now\<rparr>"
  have t: "s_inv ?t" using ticked_inv [OF inv] by (simp add: s_inv_def)
  have tick: "snd (session_tick s now) = on_queue s (snd (tick (s_queue s) now)) @
        fst (snd (session_submit ?t kSettings keep_alive_payload kKeepAlive now))"
    "fst (session_tick s now) = fst (session_submit ?t kSettings keep_alive_payload kKeepAlive now)"
    using assms(5) by (simp_all add: session_tick_effect Let_def split_beta)
  show ?thesis
  proof (cases "duplicate (s_queue (ticked s now)) keep_alive_id")
    case False
    then show ?thesis using submit_keep_alive [OF t, of now] cb att
      by (simp add: tick ticked_def kMinAttPayload_def)
  next
    case True
    from outstanding_keep_alive [OF inv all _ True] assms(2) opts obtain e where
      e: "e \<in> set (q_in_flight (s_queue (ticked s now)))" "e_id e = keep_alive_id" "e_priority e = kKeepAlive"
        "\<not> write_expired (s_queue s) now e" by auto
    have "s_queue (fst (session_tick s now)) = s_queue (ticked s now)"
      using True by (simp add: tick session_submit_def keep_alive_payload_def keep_alive_id_def enqueue_def
          submit_duplicate)
    then show ?thesis using e opts by (auto simp: write_expired_def not_le)
  qed
qed

theorem keep_alive_never_starved_witness:
  "keep_alive_due (fst (run s_step (live_session default_session_config) [STick 7])) 3007 \<and>
   (SWrite kSettings [0x20, 3, 91, 1, 66] \<in>
      set (snd (session_tick (fst (run s_step (live_session default_session_config) [STick 7])) 3007)) \<or>
    (\<exists>e\<in>set (q_in_flight (s_queue (fst (session_tick (fst (run s_step (live_session default_session_config) [STick 7])) 3007)))).
       e_id e = keep_alive_id \<and> e_priority e = kKeepAlive \<and>
       3007 - e_sent_at_ms e < ucast (write_timeout_ms (sc_queue default_session_config))))"
proof -
  let ?s = "fst (run s_step (live_session default_session_config) [STick 7])"
  have "tick (s_queue (live_session default_session_config)) 7 = (s_queue (live_session default_session_config), [])"
    using q_inv_new [of default_queue_options, where ?'a = CorrelationId]
    by (simp add: tick_effect set_callbacks_def new_session_def default_session_config_def)
       (simp add: new_queue_def tick_dropped_def release_def)
  then have "?s = (live_session default_session_config)\<lparr>s_keep_alive_started := True, s_last_keep_alive_ms := 7\<rparr>"
    by (simp add: session_tick_def Let_def set_callbacks_def new_session_def)
  then have due: "keep_alive_due ?s 3007"
    by (simp add: keep_alive_due_def default_session_config_def)
  show ?thesis
    using keep_alive_never_starved [OF _ _ _ refl due] due
    by (simp add: default_session_config_def default_queue_options_def)
qed

text \<open>
  A protobuf reply resolves its own request: while the request of a feature and action is
  in flight, a message on its channel that leads with the feature and the action's reply form
  is reported, first of all, as the response to exactly that request.
\<close>

lemma protobuf_reply_resolves_request:
  assumes "s = fst (run s_step (live_session cfg) ops)"
    and "is_in_flight (s_queue s) (correlation_of_protobuf c f a)"
  shows "\<exists>rest. snd (deliver s c (f # protobuf_response_action a # m) now) =
    SResponse (correlation_of_protobuf c f a) kResponded (f # protobuf_response_action a # m) # rest"
  using deliver_events [of s c "f # protobuf_response_action a # m" now] run_s_live [of cfg ops] assms
  by (simp add: response_id_protobuf)

lemma submit_protobuf_live:
  "fst (run s_step (live_session cfg) [SSubmitProtobuf c f a m kFastpass now]) =
     (live_session cfg)\<lparr>s_queue := (new_queue (sc_queue cfg))\<lparr>q_in_flight :=
       [(new_entry (correlation_of_protobuf c f a) (f # a # m) kFastpass
          (Some (correlation_of_protobuf c f a)) now)\<lparr>e_sent_at_ms := now\<rparr>]\<rparr>\<rparr>"
  using submit_ungated [OF q_inv_new, of "sc_queue cfg" "correlation_of_protobuf c f a" kFastpass "f # a # m"
      "Some (correlation_of_protobuf c f a)" now]
  by (simp add: submit_protobuf_def enqueue_def set_callbacks_def new_session_def split_beta duplicate_def
      is_in_flight_def) (simp add: new_queue_def)

text \<open>
  C36. Nothing of a connection survives it: after a disconnect the session is a newly created
  one with the same configuration (empty queue, closed gate, reset reassemblers, keep-alive
  not started), and every command that was outstanding has been reported as canceled, the
  ones in flight first, followed by the closing of the gate if it was open.
\<close>

theorem disconnect_forgets_everything:
  "let s = fst (run s_step (live_session cfg) ops); (s', evs) = on_disconnect s in
     s' = (live_session cfg)\<lparr>s_cfg := s_cfg s, s_last_keep_alive_ms := s_last_keep_alive_ms s\<rparr> \<and>
     evs = map (\<lambda>e. SResponse (e_id e) kCanceled []) (q_in_flight (s_queue s) @ q_pending (s_queue s)) @
           (if rs_ready (s_ready s) then [SReady False] else [])"
proof -
  define s where "s = fst (run s_step (live_session cfg) ops)"
  have inv: "s_inv s" using run_s_live [of cfg ops] by (simp add: s_def s_live_def)
  have cb: "s_callbacks s = s_callbacks (live_session cfg)" by (simp add: s_def run_callbacks)
  have opts: "q_opts (s_queue s) = sc_queue cfg" by (simp add: s_def run_opts)
  have len: "length (s_rx s) = kChannelCount" using inv by (simp add: s_inv_def)
  have rx: "map rx_reset (s_rx s) = replicate kChannelCount rx_init"
    by (intro nth_equalityI) (simp_all add: len)
  have st: "fst (on_disconnect s) = (live_session cfg)\<lparr>s_cfg := s_cfg s, s_last_keep_alive_ms := s_last_keep_alive_ms s\<rparr>"
    using cb opts rx
    by (cases s; cases "s_queue s") (simp add: on_disconnect_effect set_callbacks_def new_session_def new_queue_def)
  have "on_queue s (snd (cancel_all (s_queue s))) =
      map (\<lambda>e. SResponse (e_id e) kCanceled []) (q_in_flight (s_queue s) @ q_pending (s_queue s))"
    using inv cb by (intro on_disconnect_canceled) simp_all
  then have "snd (on_disconnect s) = map (\<lambda>e. SResponse (e_id e) kCanceled []) (q_in_flight (s_queue s) @ q_pending (s_queue s)) @
           (if rs_ready (s_ready s) then [SReady False] else [])"
    using cb by (simp add: on_disconnect_effect call_on_ready_def)
  with st show ?thesis by (simp add: Let_def s_def [symmetric] split_beta)
qed

section \<open>Behaviours a client should know\<close>

text \<open>
  A message too long for the framing is accepted and waits for its timeout without anything
  being written; the ready gate is moved by a status-shaped message of any channel; a gated
  client write of the keep-alive's setting keeps keep-alives from being written; and a
  one-byte and a protobuf command with the same leading byte can be outstanding together.
\<close>

lemma oversized_submission_never_written:
  assumes "s_inv s" "has_write (s_callbacks s)" "kMaxMessageLen < length payload"
    "\<not> duplicate (s_queue s) (correlation_of c (payload ! 0))" "pr \<noteq> kQueued"
  shows "\<exists>s'. session_submit s c payload pr now = (s', [], True) \<and>
    is_in_flight (s_queue s') (correlation_of c (payload ! 0))"
proof -
  have "payload \<noteq> []" using assms(3) by auto
  moreover have "q_inv (s_queue s)" using assms(1) by (simp add: s_inv_def)
  ultimately show ?thesis using assms
    by (simp add: session_submit_def enqueue_def submit_ungated on_queue_def fragment_closed_form fragment_ref_def
        Let_def is_in_flight_def)
qed

lemma settings_message_opens_gate:
  "rs_ready (s_ready (fst (session_feed (live_session cfg) kSettings [8, 0x13, 0, 8, 1, 0, 10, 1, 0] now)))"
  by (simp add: session_feed_def channel_defs kChannelCount_def feed_def hdr_defs feed_header_def
      packet_header_of_def feed_payload_def rx_take_def set_callbacks_def new_session_def rx_init_def
      fold_ready_def parse_query_def parse_entries.simps rs_apply_def is_status_def qr_find_def
      fold_entry_def rs_ready_def as_bool_def as_uint_def kGetStatusVal_def kRegStatusValUpdate_def kUnregStatusValUpdate_def kStatusValPush_def kStatusBusy_def kStatusEncoding_def Let_def)

lemma queued_led_write_blocks_keep_alive:
  "snd (run s_step (live_session default_session_config)
     [STick 0, SSubmit kSettings [91, 1, 2] kQueued 0, STick 3000, STick 12000]) =
   [SResponse keep_alive_id kRejected [], SResponse keep_alive_id kRejected []]"
  by code_simp
lemma both_widths_outstanding:
  "map e_id (q_in_flight (s_queue (fst (run s_step (live_session cfg)
     ([SSubmitProtobuf c f a m kFastpass t] @ [SSubmit c (f # p) kFastpass t']))))) =
   [correlation_of_protobuf c f a, correlation_of c f]"
proof -
  let ?s = "fst (run s_step (live_session cfg) [SSubmitProtobuf c f a m kFastpass t])"
  have q: "map e_id (q_in_flight (s_queue ?s)) = [correlation_of_protobuf c f a]" "q_pending (s_queue ?s) = []"
    unfolding submit_protobuf_live by (simp_all add: new_queue_def)
  have "q_inv (s_queue ?s)" using run_s_live by (simp only: s_live_def s_inv_def)
  moreover have "e_id ` set (q_in_flight (s_queue ?s)) = {correlation_of_protobuf c f a}"
    using arg_cong [OF q(1), of set] by simp
  then have "\<not> duplicate (s_queue ?s) (correlation_of c f)"
    using q(2) correlation_disjoint by (simp add: duplicate_iff)
  ultimately have "submit (s_queue ?s) (correlation_of c f) (f # p) kFastpass (Some (correlation_of c f)) t' =
      ((s_queue ?s)\<lparr>q_in_flight := q_in_flight (s_queue ?s) @
         [sent_at t' (new_entry (correlation_of c f) (f # p) kFastpass (Some (correlation_of c f)) t')]\<rparr>,
       [QWrite (correlation_of c f) (f # p)], True)"
    by (intro submit_ungated) simp_all
  then show ?thesis using q(1)
    by (simp only: fst_run_append)
       (simp add: session_submit_def enqueue_def Let_def split_beta del: s_step.simps(3))
qed

end
