(* ===== verification/Ble_Bridge.thy ===== *)
theory Ble_Bridge
  imports Ble_Session
begin

text \<open>
  The C interface of the session, \<open>native/include/ble_bridge.h\<close> and
  \<open>native/src/ble_bridge.cpp\<close>, with the Dart decoder at its other end,
  \<open>lib/src/ffi/ble_codec.dart\<close>. A handle is null (\<open>None\<close>) or owns a context. A pointer with a
  length is null or a buffer of at least that many bytes, which is what the callers pass.
  Posting to the Dart port is output: the port and the bytes of one event.

  The lemmas show that every event posted is decoded to the event the session raised, and
  that the guards of the interface let through exactly the session operations they should.
\<close>

type_synonym i32 = "32 word"
type_synonym i64 = "64 word"

section \<open>Event encoding\<close>

definition kGoProBleWrite :: u8 where "kGoProBleWrite = 0x10"
definition kGoProBleResponse :: u8 where "kGoProBleResponse = 0x11"
definition kGoProBleReady :: u8 where "kGoProBleReady = 0x12"
definition kGoProBlePush :: u8 where "kGoProBlePush = 0x13"
definition kGoProBleFrameError :: u8 where "kGoProBleFrameError = 0x14"

lemmas ble_event_defs = kGoProBleWrite_def kGoProBleResponse_def kGoProBleReady_def kGoProBlePush_def
  kGoProBleFrameError_def

definition append_u64 :: "bytes \<Rightarrow> u64 \<Rightarrow> bytes" where
  "append_u64 buf v = buf @ map (\<lambda>i. ucast (drop_bit (i * 8) v AND 0xFF)) [0..<8]"

fun outcome_value :: "Outcome \<Rightarrow> u8" where
  "outcome_value kResponded = 0" | "outcome_value kTimedOut = 1"
| "outcome_value kCanceled = 2" | "outcome_value kRejected = 3"

fun feed_result_value :: "FeedResult \<Rightarrow> u8" where
  "feed_result_value kNeedMore = 0" | "feed_result_value kComplete = 1"
| "feed_result_value kEmptyPacket = 2" | "feed_result_value kTruncatedHdr = 3"
| "feed_result_value kReservedHdr = 4" | "feed_result_value kStrayCont = 5"
| "feed_result_value kOverflow = 6" | "feed_result_value kZeroLength = 7"

text \<open>The bytes each of the five callbacks posts.\<close>

fun encode_event :: "SEvent \<Rightarrow> bytes" where
  "encode_event (SResponse i outcome payload) =
     append_u64 [kGoProBleResponse] i @ [outcome_value outcome] @ payload"
| "encode_event (SReady rdy) = [kGoProBleReady, if rdy then 1 else 0]"
| "encode_event (SPush channel parsed message) = [kGoProBlePush] @ [channel] @ message"
| "encode_event (SFrameError channel result) = [kGoProBleFrameError, channel, feed_result_value result]"
| "encode_event (SWrite channel packet) = [kGoProBleWrite] @ [channel] @ packet"

section \<open>The interface\<close>

record BleContext =
  events_port :: i64
  bc_session :: BleSession

type_synonym DartPost = "i64 \<times> bytes"

definition post_events :: "i64 \<Rightarrow> SEvent list \<Rightarrow> DartPost list" where
  "post_events port evs = map (\<lambda>e. (port, encode_event e)) evs"

definition gopro_ble_create :: "i64 \<Rightarrow> u32 \<Rightarrow> u32 \<Rightarrow> u32 \<Rightarrow> BleContext option" where
  "gopro_ble_create port keep_alive write_timeout queue_timeout =
     (let cfg = default_session_config;
          cfg = (if keep_alive \<noteq> 0 then cfg\<lparr>keep_alive_interval_ms := keep_alive\<rparr> else cfg);
          cfg = (if write_timeout \<noteq> 0
                 then cfg\<lparr>sc_queue := (sc_queue cfg)\<lparr>write_timeout_ms := write_timeout\<rparr>\<rparr> else cfg);
          cfg = (if queue_timeout \<noteq> 0
                 then cfg\<lparr>sc_queue := (sc_queue cfg)\<lparr>queue_timeout_ms := queue_timeout\<rparr>\<rparr> else cfg)
      in Some \<lparr>events_port = port, bc_session = set_callbacks (new_session True cfg) True True True True\<rparr>)"

definition gopro_ble_destroy :: "BleContext option \<Rightarrow> BleContext option \<times> DartPost list" where
  "gopro_ble_destroy handle =
     (case handle of
        None \<Rightarrow> (None, [])
      | Some ctx \<Rightarrow>
          (case on_disconnect (bc_session ctx) of (_, evs) \<Rightarrow> (None, post_events (events_port ctx) evs)))"

text \<open>The bytes \<open>std::span(data, len)\<close> covers; a null pointer only with length zero.\<close>

definition span :: "bytes option \<Rightarrow> i32 \<Rightarrow> bytes" where
  "span data len = (case data of None \<Rightarrow> [] | Some buf \<Rightarrow> take (nat (sint len)) buf)"

definition gopro_ble_feed ::
  "BleContext option \<Rightarrow> u8 \<Rightarrow> bytes option \<Rightarrow> i32 \<Rightarrow> u64 \<Rightarrow> BleContext option \<times> DartPost list" where
  "gopro_ble_feed handle channel data len now_ms =
     (case handle of
        None \<Rightarrow> (None, [])
      | Some ctx \<Rightarrow>
          (if sint len < 0 \<or> (data = None \<and> sint len > 0) then (handle, [])
           else if unat channel \<ge> kChannelCount then (handle, [])
           else
             (case session_feed (bc_session ctx) channel (span data len) now_ms of
                (s, evs) \<Rightarrow> (Some (ctx\<lparr>bc_session := s\<rparr>), post_events (events_port ctx) evs))))"

fun priority_value :: "Priority \<Rightarrow> u8" where
  "priority_value kQueued = 0" | "priority_value kFastpass = 1" | "priority_value kKeepAlive = 2"

definition priority_of :: "u8 \<Rightarrow> Priority" where
  "priority_of b = (if b = 0 then kQueued else if b = 1 then kFastpass else kKeepAlive)"

definition gopro_ble_submit ::
  "BleContext option \<Rightarrow> u8 \<Rightarrow> bytes option \<Rightarrow> i32 \<Rightarrow> u8 \<Rightarrow> u64 \<Rightarrow>
   BleContext option \<times> DartPost list \<times> i32" where
  "gopro_ble_submit handle channel payload len priority now_ms =
     (case handle of
        None \<Rightarrow> (None, [], 0)
      | Some ctx \<Rightarrow>
          (if payload = None \<or> sint len \<le> 0 then (handle, [], 0)
           else if unat channel \<ge> kChannelCount \<or> priority > priority_value kKeepAlive then (handle, [], 0)
           else
             (case session_submit (bc_session ctx) channel (span payload len) (priority_of priority) now_ms of
                (s, evs, accepted) \<Rightarrow>
                  (Some (ctx\<lparr>bc_session := s\<rparr>), post_events (events_port ctx) evs,
                   if accepted then 1 else 0))))"

definition gopro_ble_submit_protobuf ::
  "BleContext option \<Rightarrow> u8 \<Rightarrow> u8 \<Rightarrow> u8 \<Rightarrow> bytes option \<Rightarrow> i32 \<Rightarrow> u8 \<Rightarrow> u64 \<Rightarrow>
   BleContext option \<times> DartPost list \<times> i32" where
  "gopro_ble_submit_protobuf handle channel feature_id action_id message len priority now_ms =
     (case handle of
        None \<Rightarrow> (None, [], 0)
      | Some ctx \<Rightarrow>
          (if sint len < 0 \<or> (message = None \<and> sint len > 0) then (handle, [], 0)
           else if unat channel \<ge> kChannelCount \<or> priority > priority_value kKeepAlive then (handle, [], 0)
           else
             (case submit_protobuf (bc_session ctx) channel feature_id action_id (span message len)
                     (priority_of priority) now_ms of
                (s, evs, accepted) \<Rightarrow>
                  (Some (ctx\<lparr>bc_session := s\<rparr>), post_events (events_port ctx) evs,
                   if accepted then 1 else 0))))"

definition gopro_ble_protobuf_correlation :: "u8 \<Rightarrow> u8 \<Rightarrow> u8 \<Rightarrow> u64" where
  "gopro_ble_protobuf_correlation channel feature_id action_id =
     (if unat channel \<ge> kChannelCount then 0 else correlation_of_protobuf channel feature_id action_id)"

definition gopro_ble_tick :: "BleContext option \<Rightarrow> u64 \<Rightarrow> BleContext option \<times> DartPost list" where
  "gopro_ble_tick handle now_ms =
     (case handle of
        None \<Rightarrow> (None, [])
      | Some ctx \<Rightarrow>
          (case session_tick (bc_session ctx) now_ms of
             (s, evs) \<Rightarrow> (Some (ctx\<lparr>bc_session := s\<rparr>), post_events (events_port ctx) evs)))"

definition gopro_ble_set_att_payload :: "BleContext option \<Rightarrow> u32 \<Rightarrow> BleContext option" where
  "gopro_ble_set_att_payload handle n =
     (case handle of
        None \<Rightarrow> None
      | Some ctx \<Rightarrow> Some (ctx\<lparr>bc_session := set_att_payload (bc_session ctx) (unat n)\<rparr>))"

definition gopro_ble_disconnect :: "BleContext option \<Rightarrow> BleContext option \<times> DartPost list" where
  "gopro_ble_disconnect handle =
     (case handle of
        None \<Rightarrow> (None, [])
      | Some ctx \<Rightarrow>
          (case on_disconnect (bc_session ctx) of
             (s, evs) \<Rightarrow> (Some (ctx\<lparr>bc_session := s\<rparr>), post_events (events_port ctx) evs)))"

definition gopro_ble_ready :: "BleContext option \<Rightarrow> i32" where
  "gopro_ble_ready handle =
     (case handle of None \<Rightarrow> 0 | Some ctx \<Rightarrow> if rs_ready (s_ready (bc_session ctx)) then 1 else 0)"

text \<open>The calls on a live handle as one step function.\<close>

datatype BOp =
    BFeed u8 "bytes option" i32 u64
  | BSubmit u8 "bytes option" i32 u8 u64
  | BSubmitProtobuf u8 u8 u8 "bytes option" i32 u8 u64
  | BTick u64
  | BSetAttPayload u32
  | BDisconnect

fun b_step :: "BleContext option \<Rightarrow> BOp \<Rightarrow> BleContext option \<times> DartPost list" where
  "b_step h (BFeed c d n now) = gopro_ble_feed h c d n now"
| "b_step h (BSubmit c d n pr now) = (case gopro_ble_submit h c d n pr now of (h', ps, _) \<Rightarrow> (h', ps))"
| "b_step h (BSubmitProtobuf c f a d n pr now) =
     (case gopro_ble_submit_protobuf h c f a d n pr now of (h', ps, _) \<Rightarrow> (h', ps))"
| "b_step h (BTick now) = gopro_ble_tick h now"
| "b_step h (BSetAttPayload n) = (gopro_ble_set_att_payload h n, [])"
| "b_step h BDisconnect = gopro_ble_disconnect h"

section \<open>The Dart decoder\<close>

datatype BleChannel = BleCommand | BleSettings | BleQuery | BleNetwork

fun ble_channel_value :: "BleChannel \<Rightarrow> u8" where
  "ble_channel_value BleCommand = 0" | "ble_channel_value BleSettings = 1"
| "ble_channel_value BleQuery = 2" | "ble_channel_value BleNetwork = 3"

definition BleChannel_values :: "BleChannel list" where
  "BleChannel_values = [BleCommand, BleSettings, BleQuery, BleNetwork]"

definition channel_from_byte :: "u8 \<Rightarrow> BleChannel option" where
  "channel_from_byte b = List.find (\<lambda>c. ble_channel_value c = b) BleChannel_values"

text \<open>\<open>BleOutcome\<close> and \<open>BleFrameError\<close> list the native enumerators in order.\<close>

definition BleOutcome_values :: "Outcome list" where
  "BleOutcome_values = [kResponded, kTimedOut, kCanceled, kRejected]"

definition BleFrameError_values :: "FeedResult list" where
  "BleFrameError_values = [kNeedMore, kComplete, kEmptyPacket, kTruncatedHdr, kReservedHdr, kStrayCont,
     kOverflow, kZeroLength]"

datatype BleEvent =
    BleWriteRequest BleChannel bytes
  | BleResponse u64 Outcome bytes
  | BleReadyChanged bool
  | BlePush BleChannel bytes
  | BleFrameErrorEvent BleChannel FeedResult

text \<open>\<open>ByteData.getUint64(offset, Endian.little)\<close>.\<close>

definition get_u64_le :: "bytes \<Rightarrow> nat \<Rightarrow> u64" where
  "get_u64_le data off = foldr (\<lambda>b acc. push_bit 8 acc OR ucast b) (take 8 (drop off data)) 0"

definition ble_decode :: "bytes \<Rightarrow> BleEvent option" where
  "ble_decode data =
     (if data = [] then None
      else if data ! 0 = 0x10 then
        (if length data < 2 then None
         else case channel_from_byte (data ! 1) of
                None \<Rightarrow> None | Some channel \<Rightarrow> Some (BleWriteRequest channel (drop 2 data)))
      else if data ! 0 = 0x11 then
        (if length data < 10 then None
         else if unat (data ! 9) \<ge> length BleOutcome_values then None
         else Some (BleResponse (get_u64_le data 1) (BleOutcome_values ! unat (data ! 9)) (drop 10 data)))
      else if data ! 0 = 0x12 then
        (if length data < 2 then None else Some (BleReadyChanged (data ! 1 \<noteq> 0)))
      else if data ! 0 = 0x13 then
        (if length data < 2 then None
         else case channel_from_byte (data ! 1) of
                None \<Rightarrow> None | Some channel \<Rightarrow> Some (BlePush channel (drop 2 data)))
      else if data ! 0 = 0x14 then
        (if length data < 3 then None
         else case channel_from_byte (data ! 1) of
                None \<Rightarrow> None
              | Some channel \<Rightarrow>
                  (if unat (data ! 2) \<ge> length BleFrameError_values then None
                   else Some (BleFrameErrorEvent channel (BleFrameError_values ! unat (data ! 2)))))
      else None)"

section \<open>Decoding inverts encoding\<close>

text \<open>An event as Dart should see it; the parsed form of a push stays on the native side.\<close>

definition dart_channel :: "Channel \<Rightarrow> BleChannel" where
  "dart_channel c = BleChannel_values ! unat c"

fun dart_event :: "SEvent \<Rightarrow> BleEvent" where
  "dart_event (SWrite c packet) = BleWriteRequest (dart_channel c) packet"
| "dart_event (SResponse i outcome payload) = BleResponse i outcome payload"
| "dart_event (SReady b) = BleReadyChanged b"
| "dart_event (SPush c parsed message) = BlePush (dart_channel c) message"
| "dart_event (SFrameError c e) = BleFrameErrorEvent (dart_channel c) e"

fun event_channel_ok :: "SEvent \<Rightarrow> bool" where
  "event_channel_ok (SWrite c packet) \<longleftrightarrow> unat c < kChannelCount"
| "event_channel_ok (SPush c parsed message) \<longleftrightarrow> unat c < kChannelCount"
| "event_channel_ok (SFrameError c e) \<longleftrightarrow> unat c < kChannelCount"
| "event_channel_ok _ \<longleftrightarrow> True"

lemma channel_from_byte:
  "channel_from_byte c = (if unat c < kChannelCount then Some (dart_channel c) else None)"
proof -
  have "c \<in> {0, 1, 2, 3}" if "unat c < 4"
  proof -
    from that have "unat c = 0 \<or> unat c = 1 \<or> unat c = 2 \<or> unat c = 3" by auto
    then show ?thesis by (simp add: word_unat_eq_iff)
  qed
  then show ?thesis
    by (cases "unat c < 4")
       (auto simp: channel_from_byte_def BleChannel_values_def dart_channel_def kChannelCount_def)
qed

lemma append_u64_le: "append_u64 buf v = buf @ le_bytes 8 v"
proof -
  have "ucast (w AND 0xFF) = (ucast w :: u8)" for w :: u64
  proof -
    have "(0xFF :: u64) = mask 8" by (simp add: mask_eq_exp_minus_1)
    then have "w AND 0xFF = take_bit 8 w" by (simp only: take_bit_eq_mask)
    then show ?thesis by (intro bit_word_eqI) (simp add: bit_simps)
  qed
  moreover have "map (\<lambda>i. ucast (drop_bit (i * 8) v)) [0..<n] = le_bytes n v" for n
  proof (induction n arbitrary: v)
    case (Suc n)
    have "map (\<lambda>i. ucast (drop_bit (i * 8) v)) [0..<Suc n] =
        (ucast v :: u8) # map (\<lambda>i. ucast (drop_bit (i * 8) (drop_bit 8 v))) [0..<n]"
      by (simp add: upt_conv_Cons map_Suc_upt [symmetric] del: upt_Suc) (simp add: comp_def add.commute)
    with Suc.IH [of "drop_bit 8 v"] show ?case by (simp only: le_bytes.simps)
  qed simp
  ultimately show ?thesis by (simp only: append_u64_def)
qed

lemma decode_response:
  "ble_decode (encode_event (SResponse i outcome payload)) = Some (BleResponse i outcome payload)"
proof -
  let ?d = "[kGoProBleResponse] @ le_bytes 8 i @ [outcome_value outcome] @ payload"
  have e: "encode_event (SResponse i outcome payload) = ?d" by (simp add: append_u64_le)
  have "?d ! 9 = outcome_value outcome" by (simp add: nth_append)
  moreover have "drop 10 ?d = payload" by simp
  moreover have "get_u64_le ?d 1 = i"
    by (simp add: get_u64_le_def le_word_def [symmetric] le_word_le_bytes_full)
  moreover have "BleOutcome_values ! unat (outcome_value outcome) = outcome"
    "unat (outcome_value outcome) < length BleOutcome_values"
    by (cases outcome; simp add: BleOutcome_values_def)+
  ultimately show ?thesis unfolding e
    by (simp only: ble_decode_def) (simp add: kGoProBleResponse_def)
qed

lemma decode_encode:
  "ble_decode (encode_event e) = (if event_channel_ok e then Some (dart_event e) else None)"
proof (cases e)
  case (SResponse i outcome payload)
  then show ?thesis using decode_response by (simp del: encode_event.simps)
next
  case (SFrameError c r)
  then show ?thesis
    by (cases r) (simp_all add: ble_decode_def ble_event_defs channel_from_byte BleFrameError_values_def)
qed (simp_all add: ble_decode_def ble_event_defs channel_from_byte)

section \<open>What the guards let through\<close>

fun sop_of :: "BOp \<Rightarrow> SOp option" where
  "sop_of (BFeed c d n now) =
     (if sint n < 0 \<or> (d = None \<and> sint n > 0) \<or> unat c \<ge> kChannelCount then None
      else Some (SFeed c (span d n) now))"
| "sop_of (BSubmit c d n pr now) =
     (if d = None \<or> sint n \<le> 0 \<or> unat c \<ge> kChannelCount \<or> pr > 2 then None
      else Some (SSubmit c (span d n) (priority_of pr) now))"
| "sop_of (BSubmitProtobuf c f a d n pr now) =
     (if sint n < 0 \<or> (d = None \<and> sint n > 0) \<or> unat c \<ge> kChannelCount \<or> pr > 2 then None
      else Some (SSubmitProtobuf c f a (span d n) (priority_of pr) now))"
| "sop_of (BTick now) = Some (STick now)"
| "sop_of (BSetAttPayload n) = Some (SSetAttPayload (unat n))"
| "sop_of BDisconnect = Some SDisconnect"

lemma b_step_some:
  "b_step (Some ctx) op =
     (case sop_of op of
        None \<Rightarrow> (Some ctx, [])
      | Some sop \<Rightarrow>
          (case s_step (bc_session ctx) sop of
             (s, evs) \<Rightarrow> (Some (ctx\<lparr>bc_session := s\<rparr>), post_events (events_port ctx) evs)))"
  by (cases op)
     (simp_all add: gopro_ble_feed_def gopro_ble_submit_def gopro_ble_submit_protobuf_def gopro_ble_tick_def
        gopro_ble_set_att_payload_def gopro_ble_disconnect_def post_events_def split_beta)

lemma b_run_some:
  "run b_step (Some ctx) ops =
     (case run s_step (bc_session ctx) (List.map_filter sop_of ops) of
        (s, evs) \<Rightarrow> (Some (ctx\<lparr>bc_session := s\<rparr>), post_events (events_port ctx) evs))"
proof (induction ops arbitrary: ctx)
  case (Cons op ops)
  then show ?case
    by (cases "sop_of op")
       (simp_all add: b_step_some map_filter_simps Let_def split_beta post_events_def)
qed (simp add: map_filter_simps post_events_def)

section \<open>Every posted channel is a real one\<close>

fun sop_channel_ok :: "SOp \<Rightarrow> bool" where
  "sop_channel_ok (SFeed c p now) \<longleftrightarrow> unat c < kChannelCount"
| "sop_channel_ok (SSubmit c p pr now) \<longleftrightarrow> unat c < kChannelCount"
| "sop_channel_ok (SSubmitProtobuf c f a m pr now) \<longleftrightarrow> unat c < kChannelCount"
| "sop_channel_ok _ \<longleftrightarrow> True"

lemma sop_of_channel_ok: "sop_of op = Some sop \<Longrightarrow> sop_channel_ok sop"
  by (cases op) (auto split: if_splits)

abbreviation entry_channel_ok :: "CorrelationId Entry \<Rightarrow> bool" where
  "entry_channel_ok e \<equiv> unat (channel_of_correlation (e_id e)) < kChannelCount"

interpretation channels: entry_property entry_channel_ok
  by unfold_locales simp

definition writes_ok :: "CorrelationId QEvent list \<Rightarrow> bool" where
  "writes_ok qev \<longleftrightarrow> (\<forall>i p. QWrite i p \<in> set qev \<longrightarrow> unat (channel_of_correlation i) < kChannelCount)"

lemma writes_ok_simps [simp]:
  "writes_ok []" "writes_ok (xs @ ys) \<longleftrightarrow> writes_ok xs \<and> writes_ok ys"
  "writes_ok (call_done d outcome data)"
  "writes_ok (concat (map (\<lambda>e. call_done (e_done e) outcome []) es))"
  by (auto simp: writes_ok_def call_done_def split: option.splits)

lemma writes_ok_pump:
  assumes "q_all entry_channel_ok q"
  shows "writes_ok (snd (pump q now))"
proof -
  obtain sent where s: "snd (pump q now) = map qwrite sent"
     "mset (q_pending q) = mset sent + mset (q_pending (fst (pump q now)))"
    using pump_effect [of q now] by blast
  from arg_cong [OF s(2), of set_mset] have "set sent \<subseteq> set (q_pending q)" by auto
  with assms show ?thesis by (auto simp: writes_ok_def s(1) q_all_def)
qed

lemma writes_ok_ops:
  assumes "q_all entry_channel_ok q"
  shows "unat (channel_of_correlation i) < kChannelCount \<Longrightarrow> writes_ok (fst (snd (submit q i p pr d now)))"
    and "writes_ok (snd (set_ready q b now))"
    and "writes_ok (fst (snd (on_response q j data now)))"
    and "writes_ok (snd (tick q now))"
    and "writes_ok (snd (cancel_all q))"
proof -
  show "writes_ok (fst (snd (submit q i p pr d now)))" if "unat (channel_of_correlation i) < kChannelCount"
  proof (cases "duplicate q i")
    case False
    have "q_all entry_channel_ok (q\<lparr>q_pending := new_entry i p pr d now # q_pending q\<rparr>)"
      "q_all entry_channel_ok (q\<lparr>q_pending := q_pending q @ [new_entry i p pr d now]\<rparr>)"
      using assms that by (auto simp: q_all_def)
    then show ?thesis using False by (auto simp: submit_accepted split_beta writes_ok_pump)
  qed (simp add: submit_duplicate)
  have "q_all entry_channel_ok (q\<lparr>q_ready := b\<rparr>)" using assms by (simp add: q_all_def)
  then show "writes_ok (snd (set_ready q b now))" by (auto simp: set_ready_def Let_def writes_ok_pump)
  show "writes_ok (fst (snd (on_response q j data now)))"
  proof (cases "List.extract (\<lambda>e. e_id e = j) (q_in_flight q)")
    case (Some t)
    obtain b e a where t: "t = (b, e, a)" by (cases t)
    from extract_SomeD(1) [OF Some [unfolded t]] assms have "q_all entry_channel_ok (q\<lparr>q_in_flight := b @ a\<rparr>)"
      by (auto simp: q_all_def)
    with Some t show ?thesis by (simp add: on_response_def split_beta writes_ok_pump)
  qed (simp add: on_response_def)
  have "q_all entry_channel_ok (tick_dropped q now)" using assms by (auto simp: q_all_def tick_dropped_def)
  from writes_ok_pump [OF this, of now] show "writes_ok (snd (tick q now))"
    by (simp add: tick_def Let_def split_beta tick_dropped_def del: map_append)
  show "writes_ok (snd (cancel_all q))" by (simp add: cancel_all_def del: map_append)
qed

definition events_ok :: "SEvent list \<Rightarrow> bool" where
  "events_ok evs \<longleftrightarrow> list_all event_channel_ok evs"

lemma events_ok_simps [simp]:
  "events_ok []" "events_ok (xs @ ys) \<longleftrightarrow> events_ok xs \<and> events_ok ys"
  "events_ok (e # xs) \<longleftrightarrow> event_channel_ok e \<and> events_ok xs" "events_ok (call_on_ready s b)"
  by (auto simp: events_ok_def call_on_ready_def)

lemma events_ok_on_queue: "writes_ok qev \<Longrightarrow> events_ok (on_queue s qev)"
proof (induction qev)
  case (Cons e qev)
  then have "events_ok (on_queue_event s e)"
    by (cases e) (auto simp: writes_ok_def events_ok_def list_all_iff Let_def split: option.splits if_splits)
  moreover have "events_ok (on_queue s qev)" using Cons by (auto simp: writes_ok_def)
  ultimately show ?case by (simp add: on_queue_def)
qed simp

lemma deliver_events_ok:
  assumes "q_all entry_channel_ok (s_queue s)" "unat c < kChannelCount"
  shows "events_ok (snd (deliver s c m now)) \<and> q_all entry_channel_ok (s_queue (fst (deliver s c m now)))"
proof -
  obtain q qev h where r: "on_response (s_queue s) (response_id s c m) m now = (q, qev, h)"
    by (cases "on_response (s_queue s) (response_id s c m) m now")
  have q: "q_all entry_channel_ok q" "writes_ok qev"
    using channels.on_response_all [OF assms(1), of "response_id s c m" m now]
      writes_ok_ops(3) [OF assms(1), of "response_id s c m" m now] by (simp_all add: r)
  have "writes_ok (snd (moved_queue (s\<lparr>s_queue := q\<rparr>) m now))"
    "q_all entry_channel_ok (fst (moved_queue (s\<lparr>s_queue := q\<rparr>) m now))"
    using writes_ok_ops(2) [OF q(1)] channels.set_ready_all [OF q(1)] q(1)
    by (simp_all add: moved_queue_def)
  then show ?thesis using q(2) assms(2)
    by (auto simp: deliver_def r deliver_reply_effect deliver_push_effect Let_def events_ok_on_queue)
qed

lemma enqueue_events_ok:
  assumes "q_all entry_channel_ok (s_queue s)" "unat (channel_of_correlation i) < kChannelCount"
  shows "events_ok (fst (snd (enqueue s i p pr now))) \<and> q_all entry_channel_ok (s_queue (fst (enqueue s i p pr now)))"
  using writes_ok_ops(1) [OF assms, of p pr "Some i" now] channels.submit_all [OF assms(1), of i p pr "Some i" now] assms(2)
  by (simp add: enqueue_def split_beta events_ok_on_queue)

lemma session_tick_events_ok:
  assumes "q_all entry_channel_ok (s_queue s)"
  shows "events_ok (snd (session_tick s now)) \<and> q_all entry_channel_ok (s_queue (fst (session_tick s now)))"
proof -
  have t: "q_all entry_channel_ok (s_queue (ticked s now))"
    using channels.tick_all [OF assms] by (simp add: ticked_def)
  let ?t = "(ticked s now)\<lparr>s_last_keep_alive_ms := now\<rparr>"
  have "session_submit ?t kSettings keep_alive_payload kKeepAlive now =
      enqueue ?t keep_alive_id keep_alive_payload kKeepAlive now"
    by (simp add: session_submit_def keep_alive_id_def keep_alive_payload_def)
  moreover have "unat (channel_of_correlation keep_alive_id) < kChannelCount"
    by (simp add: keep_alive_id_def channel_defs kChannelCount_def)
  ultimately show ?thesis
    using t enqueue_events_ok [of ?t keep_alive_id keep_alive_payload kKeepAlive now]
      events_ok_on_queue [OF writes_ok_ops(4) [OF assms]]
    by (simp add: session_tick_effect Let_def split_beta)
qed

lemma session_feed_events_ok:
  assumes "q_all entry_channel_ok (s_queue s)" "unat c < kChannelCount"
  shows "events_ok (snd (session_feed s c p now)) \<and> q_all entry_channel_ok (s_queue (fst (session_feed s c p now)))"
  using deliver_events_ok [of "s\<lparr>s_rx := _\<rparr>" c] assms
  by (simp add: session_feed_def Let_def split_beta split: FeedResult.splits)

lemma s_step_events_ok:
  assumes "q_all entry_channel_ok (s_queue s)" "sop_channel_ok op"
  shows "events_ok (snd (s_step s op)) \<and> q_all entry_channel_ok (s_queue (fst (s_step s op)))"
proof (cases op)
  case (SFeed c p now)
  then show ?thesis using session_feed_events_ok assms by simp
next
  case (SSubmit c p pr now)
  then show ?thesis using enqueue_events_ok [OF assms(1), of "correlation_of c (p ! 0)" p pr now] assms
    by (simp add: session_submit_def split_beta)
next
  case (SSubmitProtobuf c f a m pr now)
  then show ?thesis
    using enqueue_events_ok [OF assms(1), of "correlation_of_protobuf c f a" "[f] @ [a] @ m" pr now] assms
    by (simp add: submit_protobuf_def split_beta)
next
  case (STick now)
  then show ?thesis using session_tick_events_ok assms by simp
next
  case (SSetAttPayload n)
  then show ?thesis using assms by (simp add: set_att_payload_def)
next
  case SDisconnect
  have "q_all entry_channel_ok (s_queue (fst (on_disconnect s)))"
    by (simp add: on_disconnect_effect q_all_def)
  then show ?thesis using writes_ok_ops(5) [OF assms(1)]
    by (simp add: SDisconnect events_ok_on_queue) (simp add: on_disconnect_effect events_ok_on_queue)
qed

lemma run_events_ok:
  "q_all entry_channel_ok (s_queue s) \<Longrightarrow> list_all sop_channel_ok ops \<Longrightarrow> events_ok (snd (run s_step s ops))"
proof (induction ops arbitrary: s)
  case (Cons op ops)
  then show ?case using s_step_events_ok [of s op] by (simp add: Let_def split_beta)
qed simp

text \<open>The configuration a handle is created with: zero keeps the default.\<close>

definition ble_created_config :: "u32 \<Rightarrow> u32 \<Rightarrow> u32 \<Rightarrow> SessionConfig" where
  "ble_created_config keep_alive write_timeout queue_timeout =
     \<lparr>keep_alive_interval_ms = (if keep_alive = 0 then 3000 else keep_alive), sc_att_payload = 20,
      sc_queue = \<lparr>write_timeout_ms = (if write_timeout = 0 then 5000 else write_timeout),
                  queue_timeout_ms = (if queue_timeout = 0 then 30000 else queue_timeout)\<rparr>\<rparr>"

lemma gopro_ble_create_config:
  "gopro_ble_create port ka wt qt =
     Some \<lparr>events_port = port, bc_session = live_session (ble_created_config ka wt qt)\<rparr>"
  by (simp add: gopro_ble_create_def ble_created_config_def default_session_config_def
      default_queue_options_def kMinAttPayload_def Let_def)

lemma posts_decode:
  assumes "events_ok evs"
  shows "map (ble_decode \<circ> snd) (post_events port evs) = map (Some \<circ> dart_event) evs"
  using assms by (induction evs) (simp_all add: post_events_def decode_encode)

lemma map_filter_ok: "list_all sop_channel_ok (List.map_filter sop_of ops)"
  by (auto simp: list_all_iff map_filter_def dest: sop_of_channel_ok)

section \<open>Properties\<close>

text \<open>
  The two ends of the event format agree: decoding the bytes of any event yields that event
  (kind, channel, correlation id, outcome, reason and payload) if its channel is one of the
  four, and nothing otherwise.
\<close>

lemma event_roundtrip:
  "ble_decode (encode_event e) = (if event_channel_ok e then Some (dart_event e) else None)"
  by (rule decode_encode)

text \<open>
  C15. The C interface is transparent: along any calls on a created handle, whatever their
  arguments, everything posted goes to the handle's port and Dart decodes it, event by event
  and without one undecodable, to the events of the session for the calls whose arguments are
  in range; the other calls do nothing.
\<close>

theorem ble_interface_transparent:
  "let posts = snd (run b_step (gopro_ble_create port ka wt qt) ops);
       evs = snd (run s_step (live_session (ble_created_config ka wt qt)) (List.map_filter sop_of ops)) in
   map fst posts = replicate (length evs) port \<and>
   map (ble_decode \<circ> snd) posts = map (Some \<circ> dart_event) evs"
proof -
  let ?evs = "snd (run s_step (live_session (ble_created_config ka wt qt)) (List.map_filter sop_of ops))"
  have "q_all entry_channel_ok (s_queue (live_session (ble_created_config ka wt qt)))"
    by (simp add: q_all_def set_callbacks_def new_session_def new_queue_def)
  then have ok: "events_ok ?evs" by (rule run_events_ok) (rule map_filter_ok)
  have posts: "snd (run b_step (gopro_ble_create port ka wt qt) ops) = post_events port ?evs"
    by (simp add: gopro_ble_create_config b_run_some split_beta)
  have "map fst (post_events port ?evs) = replicate (length ?evs) port"
    by (simp add: post_events_def comp_def map_replicate_const)
  with posts_decode [OF ok, of port] show ?thesis by (simp only: posts Let_def simp_thms)
qed

text \<open>
  Teardown answers everybody: destroying a handle after any calls posts, for every command
  still outstanding, in order, a response that Dart decodes as canceled under that command's
  id, and the handle is gone.
\<close>

lemma destroy_answers_everybody:
  "let h = fst (run b_step (gopro_ble_create port ka wt qt) ops); (h', posts) = gopro_ble_destroy h;
       q = s_queue (bc_session (the h)) in
   h' = None \<and>
   map (ble_decode \<circ> snd) posts =
     map (\<lambda>e. Some (BleResponse (e_id e) kCanceled [])) (q_in_flight q @ q_pending q) @
     (if gopro_ble_ready h = 1 then [Some (BleReadyChanged False)] else [])"
proof -
  define s where "s = fst (run s_step (live_session (ble_created_config ka wt qt)) (List.map_filter sop_of ops))"
  have h: "fst (run b_step (gopro_ble_create port ka wt qt) ops) = Some \<lparr>events_port = port, bc_session = s\<rparr>"
    by (simp add: gopro_ble_create_config b_run_some split_beta s_def)
  have inv: "s_inv s" using run_s_live by (simp add: s_def s_live_def)
  have cb: "has_on_response (s_callbacks s)" "has_on_ready (s_callbacks s)" by (simp_all add: s_def run_callbacks)
  have "snd (on_disconnect s) = map (\<lambda>e. SResponse (e_id e) kCanceled []) (q_in_flight (s_queue s) @ q_pending (s_queue s)) @
      (if rs_ready (s_ready s) then [SReady False] else [])"
    using on_disconnect_canceled [OF inv cb(1)] cb(2) by (simp add: on_disconnect_effect call_on_ready_def)
  then show ?thesis
    by (simp add: h gopro_ble_destroy_def gopro_ble_ready_def split_beta post_events_def decode_encode comp_def
        del: encode_event.simps)
qed

end
