(* ===== verification/Ble_Link.thy ===== *)
theory Ble_Link
  imports Gp_Prelude
begin

text \<open>
  The LE link state machine: \<open>native/include/ble_link.h\<close> and \<open>native/src/ble_link.cpp\<close>. The
  machine is pure in the source (observations and the time are arguments), so each operation
  is a function on its state. Milliseconds are \<open>uint32_t\<close> and \<open>uint64_t\<close> words: the time in
  a stage, the retry time and the attempt counter wrap exactly where the source's do.

  The lemmas show that the stage is a function of the evidence alone, that the bonded flag
  never gates anything, when and with which explanation a stall is reported, that the backoff
  loop computes a capped power of two without overflow, and that the machine's five fields
  implement a history of the current stage: when it was entered and which attempts failed.
\<close>

section \<open>Data\<close>

datatype LinkState =
    kAbsent | kAdvertising | kConnected | kServicesResolved | kEncrypted | kReady

fun link_state_to_string :: "LinkState \<Rightarrow> string" where
  "link_state_to_string kAbsent = ''absent''"
| "link_state_to_string kAdvertising = ''advertising''"
| "link_state_to_string kConnected = ''connected''"
| "link_state_to_string kServicesResolved = ''services-resolved''"
| "link_state_to_string kEncrypted = ''encrypted''"
| "link_state_to_string kReady = ''ready''"

datatype LinkAction =
    kNone | kScan | kDisconnectClassic | kConnect | kWaitForServices | kPair | kSubscribe

fun link_action_to_string :: "LinkAction \<Rightarrow> string" where
  "link_action_to_string kNone = ''none''"
| "link_action_to_string kScan = ''scan''"
| "link_action_to_string kDisconnectClassic = ''disconnect-classic''"
| "link_action_to_string kConnect = ''connect''"
| "link_action_to_string kWaitForServices = ''wait-for-services''"
| "link_action_to_string kPair = ''pair''"
| "link_action_to_string kSubscribe = ''subscribe''"

datatype StallReason =
    kNone | kNoAdvertisement | kClassicBlocking | kConnectFailed | kServicesNeverAppeared
  | kWrongDevice | kNotEncrypted | kSubscribeFailed

fun stall_reason_to_string :: "StallReason \<Rightarrow> string" where
  "stall_reason_to_string StallReason.kNone = ''none''"
| "stall_reason_to_string kNoAdvertisement = ''no-advertisement''"
| "stall_reason_to_string kClassicBlocking = ''classic-blocking''"
| "stall_reason_to_string kConnectFailed = ''connect-failed''"
| "stall_reason_to_string kServicesNeverAppeared = ''services-never-appeared''"
| "stall_reason_to_string kWrongDevice = ''wrong-device''"
| "stall_reason_to_string kNotEncrypted = ''not-encrypted''"
| "stall_reason_to_string kSubscribeFailed = ''subscribe-failed''"

record LinkObservation =
  le_candidate_present :: bool
  classic_link_up :: bool
  obs_connected :: bool
  bonded_flag :: bool
  attribute_count :: nat
  control_chars_found :: bool
  notify_succeeded :: bool
  subscribed_count :: nat
  required_subscriptions :: nat

definition default_observation :: LinkObservation where
  "default_observation = \<lparr>le_candidate_present = False, classic_link_up = False,
     obs_connected = False, bonded_flag = False, attribute_count = 0, control_chars_found = False,
     notify_succeeded = False, subscribed_count = 0, required_subscriptions = 1\<rparr>"

record LinkAdvice =
  adv_state :: LinkState
  adv_action :: LinkAction
  adv_stall :: StallReason
  adv_detail :: string
  adv_retry_at_ms :: u64

record LinkConfig =
  connect_timeout_ms :: u32
  services_timeout_ms :: u32
  encrypt_timeout_ms :: u32
  subscribe_timeout_ms :: u32
  backoff_initial_ms :: u32
  backoff_max_ms :: u32

definition default_link_config :: LinkConfig where
  "default_link_config = \<lparr>connect_timeout_ms = 10000, services_timeout_ms = 15000,
     encrypt_timeout_ms = 60000, subscribe_timeout_ms = 10000,
     backoff_initial_ms = 1000, backoff_max_ms = 30000\<rparr>"

record LinkMachine =
  lm_cfg :: LinkConfig
  lm_state :: LinkState
  lm_state_since_ms :: u64
  lm_last_failure_ms :: u64
  lm_attempts :: u32
  lm_seen_bonded_without_encryption :: bool

section \<open>Operations\<close>

definition new_link :: "LinkConfig \<Rightarrow> LinkMachine" where
  "new_link cfg = \<lparr>lm_cfg = cfg, lm_state = kAbsent, lm_state_since_ms = 0,
     lm_last_failure_ms = 0, lm_attempts = 0, lm_seen_bonded_without_encryption = False\<rparr>"

definition link_reset :: "LinkMachine \<Rightarrow> LinkMachine" where
  "link_reset m = m\<lparr>lm_state := kAbsent, lm_state_since_ms := 0, lm_last_failure_ms := 0,
     lm_attempts := 0, lm_seen_bonded_without_encryption := False\<rparr>"

text \<open>The loop of \<open>backoff_ms\<close>: its counter \<open>i\<close> and the doubled value \<open>ms\<close>.\<close>

function backoff_loop :: "u32 \<Rightarrow> u32 \<Rightarrow> u64 \<Rightarrow> u32 \<Rightarrow> u64" where
  "backoff_loop attempts i ms cap =
     (if i < attempts \<and> ms < ucast cap then backoff_loop attempts (i + 1) (ms * 2) cap else ms)"
  by pat_completeness auto
termination
proof (relation "measure (\<lambda>(attempts, i, ms, cap). unat attempts - unat i)")
  fix attempts i :: u32 and ms :: u64 and cap :: u32
  assume "i < attempts \<and> ms < ucast cap"
  then have "unat i < unat attempts" "unat (i + 1) = Suc (unat i)"
    by (auto simp: word_less_nat_alt [symmetric] unat_inc_below)
  then show "((attempts, i + 1, ms * 2, cap), attempts, i, ms, cap)
      \<in> measure (\<lambda>(attempts, i, ms, cap). unat attempts - unat i)"
    by simp
qed simp

declare backoff_loop.simps [simp del]

definition backoff_ms :: "LinkMachine \<Rightarrow> u32" where
  "backoff_ms m =
     (if lm_attempts m = 0 then 0
      else ucast (min (backoff_loop (lm_attempts m) 1 (ucast (backoff_initial_ms (lm_cfg m)))
                        (backoff_max_ms (lm_cfg m)))
                      (ucast (backoff_max_ms (lm_cfg m)))))"

definition note_attempt_failed :: "LinkMachine \<Rightarrow> u64 \<Rightarrow> LinkMachine" where
  "note_attempt_failed m now_ms =
     m\<lparr>lm_attempts := lm_attempts m + 1, lm_last_failure_ms := now_ms\<rparr>"

definition classify :: "LinkObservation \<Rightarrow> LinkState" where
  "classify obs =
     (if \<not> obs_connected obs then
        (if le_candidate_present obs then kAdvertising else kAbsent)
      else if attribute_count obs = 0 \<or> \<not> control_chars_found obs then kConnected
      else if \<not> notify_succeeded obs then kServicesResolved
      else if subscribed_count obs < required_subscriptions obs then kEncrypted
      else kReady)"

text \<open>The explanations \<open>update\<close> attaches to a stall.\<close>

definition detail_classic :: string where
  "detail_classic =
     ''A BR-EDR link to this camera is up. Classic suppresses LE '' @
     ''advertising, so the LE transport cannot be found until it is '' @
     ''disconnected. Removing the Classic bond stops it reconnecting.''"

definition detail_asleep :: string where
  "detail_asleep =
     ''Nothing advertising the Control & Query service. The camera is '' @
     ''asleep, powered off, or has wireless disabled.''"

definition detail_connect :: string where
  "detail_connect =
     ''The LE link is not establishing. Aborts during service discovery '' @
     ''(le-connection-abort-by-local) are typical when the camera is '' @
     ''dropping the link.''"

definition detail_wrong_device :: string where
  "detail_wrong_device =
     ''Attributes are exposed but the Control & Query characteristics '' @
     ''are absent. This is probably the BR-EDR object rather than the '' @
     ''LE one -- check the address type.''"

definition detail_services :: string where
  "detail_services =
     ''Connected but no GATT attributes appeared. Note that BlueZ may '' @
     ''report ServicesResolved=true regardless; the attribute count is '' @
     ''the reliable signal. A disconnect and reconnect usually clears '' @
     ''it.''"

definition detail_bonded :: string where
  "detail_bonded =
     ''Discovery works but StartNotify is refused. The Bonded flag '' @
     ''is set, which is misleading -- a BR-EDR bond does not '' @
     ''encrypt the LE link. An LE bond is required: put the camera '' @
     ''in pairing mode and pair the random-address device.''"

definition detail_unpaired :: string where
  "detail_unpaired =
     ''Discovery works but StartNotify is refused (\"Not '' @
     ''paired\"). '' @
     ''The Control & Query characteristics need an encrypted link. '' @
     ''Put the camera in pairing mode and pair over LE.''"

definition detail_subscribe :: string where
  "detail_subscribe =
     ''The link is encrypted but not every required characteristic is '' @
     ''subscribed.''"

lemmas detail_defs =
  detail_classic_def detail_asleep_def detail_connect_def detail_wrong_device_def
  detail_services_def detail_bonded_def detail_unpaired_def detail_subscribe_def

text \<open>The first half of \<open>update\<close>: what it records before it gives advice.\<close>

definition link_observe :: "LinkMachine \<Rightarrow> LinkObservation \<Rightarrow> u64 \<Rightarrow> LinkMachine" where
  "link_observe m obs now_ms =
     (let next = classify obs;
          m1 = (if next \<noteq> lm_state m then
                  m\<lparr>lm_state := next, lm_state_since_ms := now_ms, lm_attempts := 0,
                    lm_last_failure_ms := 0\<rparr>
                else m)
      in if bonded_flag obs \<and> \<not> notify_succeeded obs \<and> lm_state m1 = kServicesResolved
         then m1\<lparr>lm_seen_bonded_without_encryption := True\<rparr> else m1)"

text \<open>The second half, on the updated machine.\<close>

definition link_advise :: "LinkMachine \<Rightarrow> LinkObservation \<Rightarrow> u64 \<Rightarrow> LinkAdvice" where
  "link_advise m obs now_ms =
     (let in_state_ms = now_ms - lm_state_since_ms m;
          wait = backoff_ms m;
          adv = \<lparr>adv_state = lm_state m, adv_action = kScan, adv_stall = StallReason.kNone,
                 adv_detail = '''',
                 adv_retry_at_ms = (if lm_attempts m > 0 then lm_last_failure_ms m + ucast wait else 0)\<rparr>
      in case lm_state m of
           kAbsent \<Rightarrow>
             (if classic_link_up obs then
                adv\<lparr>adv_action := kDisconnectClassic, adv_stall := kClassicBlocking,
                    adv_detail := detail_classic\<rparr>
              else
                (let adv = adv\<lparr>adv_action := kScan\<rparr> in
                 if in_state_ms \<ge> ucast (connect_timeout_ms (lm_cfg m)) then
                   adv\<lparr>adv_stall := kNoAdvertisement, adv_detail := detail_asleep\<rparr>
                 else adv))
         | kAdvertising \<Rightarrow>
             (let adv = adv\<lparr>adv_action := kConnect\<rparr> in
              if lm_attempts m > 0 \<and> in_state_ms \<ge> ucast (connect_timeout_ms (lm_cfg m)) then
                adv\<lparr>adv_stall := kConnectFailed, adv_detail := detail_connect\<rparr>
              else adv)
         | kConnected \<Rightarrow>
             (let adv = adv\<lparr>adv_action := kWaitForServices\<rparr> in
              if in_state_ms \<ge> ucast (services_timeout_ms (lm_cfg m)) then
                (if attribute_count obs > 0 \<and> \<not> control_chars_found obs then
                   adv\<lparr>adv_stall := kWrongDevice, adv_detail := detail_wrong_device\<rparr>
                 else adv\<lparr>adv_stall := kServicesNeverAppeared, adv_detail := detail_services\<rparr>)
              else adv)
         | kServicesResolved \<Rightarrow>
             (let adv = adv\<lparr>adv_action := kPair\<rparr> in
              if in_state_ms \<ge> ucast (encrypt_timeout_ms (lm_cfg m)) then
                adv\<lparr>adv_stall := kNotEncrypted,
                    adv_detail := (if lm_seen_bonded_without_encryption m then detail_bonded
                                   else detail_unpaired)\<rparr>
              else adv)
         | kEncrypted \<Rightarrow>
             (let adv = adv\<lparr>adv_action := kSubscribe\<rparr> in
              if in_state_ms \<ge> ucast (subscribe_timeout_ms (lm_cfg m)) then
                adv\<lparr>adv_stall := kSubscribeFailed, adv_detail := detail_subscribe\<rparr>
              else adv)
         | kReady \<Rightarrow> adv\<lparr>adv_action := LinkAction.kNone, adv_retry_at_ms := 0\<rparr>)"

definition link_update :: "LinkMachine \<Rightarrow> LinkObservation \<Rightarrow> u64 \<Rightarrow> LinkMachine \<times> LinkAdvice" where
  "link_update m obs now_ms =
     (let m1 = link_observe m obs now_ms in (m1, link_advise m1 obs now_ms))"

text \<open>The public operations as one step function; its output is the advice given.\<close>

datatype LinkOp = LinkUpdate LinkObservation u64 | LinkFailed u64 | LinkReset

fun link_step :: "LinkMachine \<Rightarrow> LinkOp \<Rightarrow> LinkMachine \<times> LinkAdvice list" where
  "link_step m (LinkUpdate obs now) = (let (m', adv) = link_update m obs now in (m', [adv]))"
| "link_step m (LinkFailed now) = (note_attempt_failed m now, [])"
| "link_step m LinkReset = (link_reset m, [])"

section \<open>Backoff\<close>

lemma backoff_loop_value:
  assumes "i \<le> attempts" "unat ms < 2 ^ 33"
  shows "min (unat (backoff_loop attempts i ms cap)) (unat cap) =
    min (unat ms * 2 ^ (unat attempts - unat i)) (unat cap)"
  using assms
proof (induction attempts i ms cap rule: backoff_loop.induct)
  case (1 attempts i ms cap)
  show ?case
  proof (cases "i < attempts \<and> ms < ucast cap")
    case True
    then have lt: "i < attempts" and "ms < ucast cap" by auto
    then have ms: "unat ms < unat cap" by (simp add: word_less_nat_alt unat_ucast_up)
    moreover have "unat cap < 2 ^ 32" using unsigned_less [of cap, where ?'a = nat] by simp
    ultimately have dbl: "unat (ms * 2) = unat ms * 2" by (simp add: unat_word_ariths)
    have inc: "unat (i + 1) = Suc (unat i)" using lt by (rule unat_inc_below)
    have "unat i < unat attempts" using lt by (simp add: word_less_nat_alt)
    then have "unat attempts - unat i = Suc (unat attempts - unat (i + 1))" by (simp add: inc)
    moreover have "i + 1 \<le> attempts" using \<open>unat i < unat attempts\<close> by (simp add: word_le_nat_alt inc)
    moreover have "unat (ms * 2) < 2 ^ 33" using ms \<open>unat cap < 2 ^ 32\<close> by (simp add: dbl)
    ultimately show ?thesis
      using 1(1) [OF True] True by (subst backoff_loop.simps) (simp add: dbl mult.assoc)
  next
    case False
    show ?thesis
    proof (cases "i < attempts")
      case True
      with False have "unat cap \<le> unat ms" by (simp add: word_le_nat_alt unat_ucast_up not_less)
      moreover have "unat ms \<le> unat ms * 2 ^ (unat attempts - unat i)" by simp
      ultimately have "unat cap \<le> unat ms" "unat cap \<le> unat ms * 2 ^ (unat attempts - unat i)"
        by linarith+
      moreover have "backoff_loop attempts i ms cap = ms" using False by (subst backoff_loop.simps) auto
      ultimately show ?thesis by (simp only: min_absorb2)
    next
      case False
      with 1(2) have "i = attempts" by simp
      then show ?thesis by (subst backoff_loop.simps) simp
    qed
  qed
qed

lemma unat_backoff_ms:
  "unat (backoff_ms m) =
     (if lm_attempts m = 0 then 0
      else min (unat (backoff_initial_ms (lm_cfg m)) * 2 ^ (unat (lm_attempts m) - 1))
               (unat (backoff_max_ms (lm_cfg m))))"
proof (cases "lm_attempts m = 0")
  case False
  let ?ms = "ucast (backoff_initial_ms (lm_cfg m)) :: u64" and ?cap = "backoff_max_ms (lm_cfg m)"
  let ?l = "backoff_loop (lm_attempts m) 1 ?ms ?cap"
  have "1 \<le> lm_attempts m" using False by (simp add: word_le_nat_alt Suc_le_eq unat_gt_0)
  moreover have "unat ?ms < 2 ^ 33"
    using unsigned_less [of "backoff_initial_ms (lm_cfg m)", where ?'a = nat] by (simp add: unat_ucast_up)
  ultimately have "min (unat ?l) (unat ?cap) =
      min (unat ?ms * 2 ^ (unat (lm_attempts m) - unat (1 :: u32))) (unat ?cap)"
    by (rule backoff_loop_value)
  moreover have "unat (ucast (min ?l (ucast ?cap)) :: u32) = min (unat ?l) (unat ?cap)"
  proof -
    have "unat (min ?l (ucast ?cap)) = min (unat ?l) (unat ?cap)"
      by (auto simp: min_def word_le_nat_alt unat_ucast_up)
    moreover have "min (unat ?l) (unat ?cap) < 2 ^ 32"
      using unsigned_less [of ?cap, where ?'a = nat] by simp
    ultimately show ?thesis by (simp add: unsigned_ucast_eq take_bit_nat_eq_self)
  qed
  ultimately show ?thesis using False by (simp add: backoff_ms_def unat_ucast_up)
qed (simp add: backoff_ms_def)

section \<open>What an update does\<close>

lemma link_observe_simps [simp]:
  "lm_state (link_observe m obs now) = classify obs"
  "lm_cfg (link_observe m obs now) = lm_cfg m"
  "lm_state_since_ms (link_observe m obs now) =
     (if classify obs = lm_state m then lm_state_since_ms m else now)"
  "lm_attempts (link_observe m obs now) = (if classify obs = lm_state m then lm_attempts m else 0)"
  "lm_last_failure_ms (link_observe m obs now) =
     (if classify obs = lm_state m then lm_last_failure_ms m else 0)"
  by (simp_all add: link_observe_def Let_def)

lemma link_advise_state [simp]: "adv_state (link_advise m obs now) = lm_state m"
  by (simp add: link_advise_def Let_def split: LinkState.splits)

lemma link_advise_retry:
  "adv_retry_at_ms (link_advise m obs now) =
     (if lm_state m = kReady \<or> lm_attempts m = 0 then 0
      else lm_last_failure_ms m + ucast (backoff_ms m))"
  by (simp add: link_advise_def Let_def word_gt_0 split: LinkState.splits)

lemma link_advise_action:
  "adv_action (link_advise m obs now) =
     (case lm_state m of
        kAbsent \<Rightarrow> if classic_link_up obs then kDisconnectClassic else kScan
      | kAdvertising \<Rightarrow> kConnect | kConnected \<Rightarrow> kWaitForServices | kServicesResolved \<Rightarrow> kPair
      | kEncrypted \<Rightarrow> kSubscribe | kReady \<Rightarrow> LinkAction.kNone)"
  by (simp add: link_advise_def Let_def split: LinkState.splits)

text \<open>How long each stage may last, and the stage each reason belongs to.\<close>

fun stage_limit :: "LinkConfig \<Rightarrow> LinkState \<Rightarrow> u32 option" where
  "stage_limit cfg kAbsent = Some (connect_timeout_ms cfg)"
| "stage_limit cfg kAdvertising = Some (connect_timeout_ms cfg)"
| "stage_limit cfg kConnected = Some (services_timeout_ms cfg)"
| "stage_limit cfg kServicesResolved = Some (encrypt_timeout_ms cfg)"
| "stage_limit cfg kEncrypted = Some (subscribe_timeout_ms cfg)"
| "stage_limit cfg kReady = None"

fun stall_stage :: "StallReason \<Rightarrow> LinkState option" where
  "stall_stage StallReason.kNone = None"
| "stall_stage kNoAdvertisement = Some kAbsent"
| "stall_stage kClassicBlocking = Some kAbsent"
| "stall_stage kConnectFailed = Some kAdvertising"
| "stall_stage kServicesNeverAppeared = Some kConnected"
| "stall_stage kWrongDevice = Some kConnected"
| "stall_stage kNotEncrypted = Some kServicesResolved"
| "stall_stage kSubscribeFailed = Some kEncrypted"

definition stage_overdue :: "LinkMachine \<Rightarrow> u64 \<Rightarrow> bool" where
  "stage_overdue m now \<longleftrightarrow>
     (case stage_limit (lm_cfg m) (lm_state m) of
        None \<Rightarrow> False | Some t \<Rightarrow> ucast t \<le> now - lm_state_since_ms m)"

lemma details_nonempty [simp]:
  "detail_classic \<noteq> []" "detail_asleep \<noteq> []" "detail_connect \<noteq> []" "detail_wrong_device \<noteq> []"
  "detail_services \<noteq> []" "detail_bonded \<noteq> []" "detail_unpaired \<noteq> []" "detail_subscribe \<noteq> []"
  by (simp_all add: detail_defs)

lemma link_advise_stalled:
  "adv_stall (link_advise m obs now) \<noteq> StallReason.kNone \<longleftrightarrow>
     (lm_state m = kAbsent \<and> classic_link_up obs) \<or>
     (stage_overdue m now \<and> \<not> (lm_state m = kAdvertising \<and> lm_attempts m = 0))"
  by (simp add: link_advise_def stage_overdue_def Let_def word_gt_0 split: LinkState.splits)

lemma link_advise_detail:
  "adv_detail (link_advise m obs now) = [] \<longleftrightarrow> adv_stall (link_advise m obs now) = StallReason.kNone"
  by (simp add: link_advise_def Let_def split: LinkState.splits)

lemma link_advise_stall_stage:
  "stall_stage (adv_stall (link_advise m obs now)) =
     (if adv_stall (link_advise m obs now) = StallReason.kNone then None else Some (lm_state m))"
  by (simp add: link_advise_def Let_def split: LinkState.splits)

section \<open>The machine as a history of the current stage\<close>

record LinkHistory =
  lh_stage :: LinkState
  lh_entered :: u64
  lh_failures :: "u64 list"

definition link_history_init :: LinkHistory where
  "link_history_init = \<lparr>lh_stage = kAbsent, lh_entered = 0, lh_failures = []\<rparr>"

fun link_history :: "LinkOp \<Rightarrow> LinkHistory \<Rightarrow> LinkHistory" where
  "link_history (LinkUpdate obs now) h =
     (if classify obs = lh_stage h then h
      else \<lparr>lh_stage = classify obs, lh_entered = now, lh_failures = []\<rparr>)"
| "link_history (LinkFailed now) h = h\<lparr>lh_failures := lh_failures h @ [now]\<rparr>"
| "link_history LinkReset h = link_history_init"

definition link_rel :: "LinkConfig \<Rightarrow> LinkMachine \<Rightarrow> LinkHistory \<Rightarrow> bool" where
  "link_rel cfg m h \<longleftrightarrow>
     lm_cfg m = cfg \<and> lm_state m = lh_stage h \<and> lm_state_since_ms m = lh_entered h \<and>
     lm_attempts m = of_nat (length (lh_failures h)) \<and>
     lm_last_failure_ms m = (if lh_failures h = [] then 0 else last (lh_failures h))"

interpretation link_machine: refined_machine link_step "new_link cfg" "link_rel cfg" link_history link_history_init
  for cfg
proof unfold_locales
  show "link_rel cfg (new_link cfg) link_history_init"
    by (simp add: link_rel_def new_link_def link_history_init_def)
  show "link_rel cfg (fst (link_step m op)) (link_history op h)" if "link_rel cfg m h" for m h op
    using that
    by (cases op)
       (auto simp: link_rel_def link_update_def note_attempt_failed_def link_reset_def
          link_history_init_def Let_def)
qed

lemma length_failures_le: "length (lh_failures (fold link_history ops h)) \<le> length (lh_failures h) + length ops"
proof (induction ops arbitrary: h)
  case (Cons op ops)
  have "length (lh_failures (link_history op h)) \<le> Suc (length (lh_failures h))"
    by (cases op) (auto simp: link_history_init_def)
  with Cons [of "link_history op h"] show ?case by simp
qed simp

section \<open>The bonded flag\<close>

fun forget_bonded :: "LinkOp \<Rightarrow> LinkOp" where
  "forget_bonded (LinkUpdate obs now) = LinkUpdate (obs\<lparr>bonded_flag := False\<rparr>) now"
| "forget_bonded op = op"

definition without_detail :: "LinkAdvice \<Rightarrow> LinkAdvice" where
  "without_detail adv = adv\<lparr>adv_detail := ''''\<rparr>"

definition forget_seen :: "LinkMachine \<Rightarrow> LinkMachine" where
  "forget_seen m = m\<lparr>lm_seen_bonded_without_encryption := False\<rparr>"

lemma classify_forget_bonded [simp]: "classify (obs\<lparr>bonded_flag := b\<rparr>) = classify obs"
  by (simp add: classify_def)

lemma backoff_forget_seen [simp]: "backoff_ms (forget_seen m) = backoff_ms m"
  by (simp add: backoff_ms_def forget_seen_def)

lemma observe_forget_seen:
  "forget_seen (link_observe m obs now) = forget_seen (link_observe (forget_seen m) (obs\<lparr>bonded_flag := b\<rparr>) now)"
  by (simp add: link_observe_def forget_seen_def Let_def)

lemma advise_forget_seen:
  "without_detail (link_advise (forget_seen m) (obs\<lparr>bonded_flag := b\<rparr>) now) = without_detail (link_advise m obs now)"
  using backoff_forget_seen [of m]
  by (simp add: link_advise_def without_detail_def Let_def forget_seen_def split: LinkState.splits)

lemma link_step_forget:
  assumes "forget_seen m = forget_seen n"
  shows "forget_seen (fst (link_step m op)) = forget_seen (fst (link_step n (forget_bonded op)))"
    and "map without_detail (snd (link_step m op)) = map without_detail (snd (link_step n (forget_bonded op)))"
proof -
  have eq: "forget_seen (link_observe m obs now) = forget_seen (link_observe n (obs\<lparr>bonded_flag := b\<rparr>) now)"
    for obs now b
    using observe_forget_seen [of m obs now b] observe_forget_seen [of n "obs\<lparr>bonded_flag := b\<rparr>" now b] assms
    by simp
  show "forget_seen (fst (link_step m op)) = forget_seen (fst (link_step n (forget_bonded op)))"
  proof (cases op)
    case (LinkUpdate obs now)
    then show ?thesis using eq by (simp add: link_update_def Let_def)
  next
    case (LinkFailed now)
    then show ?thesis using assms
      by (cases m; cases n) (simp add: note_attempt_failed_def forget_seen_def)
  next
    case LinkReset
    then show ?thesis using assms by (cases m; cases n) (simp add: link_reset_def forget_seen_def)
  qed
  show "map without_detail (snd (link_step m op)) = map without_detail (snd (link_step n (forget_bonded op)))"
  proof (cases op)
    case (LinkUpdate obs now)
    let ?m = "link_observe m obs now" and ?n = "link_observe n (obs\<lparr>bonded_flag := False\<rparr>) now"
    have "without_detail (link_advise ?m obs now) =
        without_detail (link_advise (forget_seen ?m) (obs\<lparr>bonded_flag := False\<rparr>) now)"
      by (rule advise_forget_seen [symmetric])
    also have "\<dots> = without_detail (link_advise (forget_seen ?n) (obs\<lparr>bonded_flag := False\<rparr>\<lparr>bonded_flag := False\<rparr>) now)"
      by (subst eq [where b = False]) simp
    also have "\<dots> = without_detail (link_advise ?n (obs\<lparr>bonded_flag := False\<rparr>) now)"
      by (rule advise_forget_seen)
    finally show ?thesis by (simp add: LinkUpdate link_update_def Let_def)
  qed simp_all
qed

lemma run_forget_bonded:
  assumes "forget_seen m = forget_seen n"
  shows "map without_detail (snd (run link_step m ops)) =
    map without_detail (snd (run link_step n (map forget_bonded ops)))"
  using assms
proof (induction ops arbitrary: m n)
  case (Cons op ops)
  from Cons.IH [OF link_step_forget(1) [OF Cons.prems, of op]] link_step_forget(2) [OF Cons.prems, of op]
  show ?case by (simp add: Let_def split_beta)
qed simp

section \<open>Properties\<close>

text \<open>
  The advised backoff after \<open>n\<close> failed attempts at a stage is the initial backoff doubled
  \<open>n - 1\<close> times, capped at the configured maximum, for every configuration and every count:
  the doubling never overflows, and the narrowing to 32 bits loses nothing.
\<close>

lemma backoff_capped_exponential:
  "unat (backoff_ms m) =
     (if lm_attempts m = 0 then 0
      else min (unat (backoff_initial_ms (lm_cfg m)) * 2 ^ (unat (lm_attempts m) - 1))
               (unat (backoff_max_ms (lm_cfg m))))"
  by (rule unat_backoff_ms)

text \<open>
  The Bonded flag is recorded but never gates: over any sequence of observations, failures
  and resets, every piece of advice (stage, action, stall reason and retry time) is the one
  given when the flag is never reported; only the wording of the explanation may differ.
\<close>

lemma bonded_flag_never_gates:
  "map without_detail (snd (run link_step (new_link cfg) ops)) =
   map without_detail (snd (run link_step (new_link cfg) (map forget_bonded ops)))"
  by (rule run_forget_bonded) simp

text \<open>
  A stall is reported exactly when a Classic link blocks an absent camera, or the current
  stage has lasted its configured limit (a connect stall needs a failed attempt besides, and
  the ready stage never stalls); the reason always belongs to the current stage, and an
  explanation is given exactly for a stall.
\<close>

lemma stall_reported_exactly_when_overdue:
  "let (m', adv) = link_update m obs now in
     (adv_stall adv \<noteq> StallReason.kNone \<longleftrightarrow>
        (classify obs = kAbsent \<and> classic_link_up obs) \<or>
        (stage_overdue m' now \<and> \<not> (classify obs = kAdvertising \<and> lm_attempts m' = 0))) \<and>
     (adv_detail adv = [] \<longleftrightarrow> adv_stall adv = StallReason.kNone) \<and>
     stall_stage (adv_stall adv) =
       (if adv_stall adv = StallReason.kNone then None else Some (classify obs))"
  by (simp only: link_update_def Let_def prod.case link_advise_stalled link_advise_detail
      link_advise_stall_stage link_observe_simps(1) simp_thms)

text \<open>
  Control is advised as available only on the evidence: the stage after an update is ready,
  and there is nothing left to do, exactly when the link is connected, attributes are exposed
  and the control characteristics among them, a notification was started, and every required
  characteristic is subscribed, whatever the machine's past.
\<close>

lemma ready_exactly_on_evidence:
  "let (m', adv) = link_update m obs now in
     (adv_state adv = kReady \<longleftrightarrow>
        obs_connected obs \<and> 0 < attribute_count obs \<and> control_chars_found obs \<and>
        notify_succeeded obs \<and> required_subscriptions obs \<le> subscribed_count obs) \<and>
     (adv_action adv = LinkAction.kNone \<longleftrightarrow> adv_state adv = kReady) \<and>
     lm_state m' = adv_state adv"
  by (auto simp: link_update_def Let_def link_advise_action classify_def split: LinkState.splits)

text \<open>
  C32. The machine implements the history of its current stage: after any operations (fewer than
  \<open>2^32\<close>, so that the attempt counter has not wrapped), the retry time an update advises is the
  time of the last failure recorded since the stage was entered plus the capped exponential of
  their number, and now if there was none or the link is ready; a change of stage, forward or
  back, forgets the failures of the old one.
\<close>

theorem retry_follows_stage_history:
  assumes "length ops < 2 ^ 32"
  shows "let h = fold link_history (ops @ [LinkUpdate obs now]) link_history_init;
             (m, adv) = link_update (fst (run link_step (new_link cfg) ops)) obs now;
             n = length (lh_failures h) in
    lm_state m = lh_stage h \<and> lm_state_since_ms m = lh_entered h \<and> unat (lm_attempts m) = n \<and>
    adv_retry_at_ms adv =
      (if lh_stage h = kReady \<or> n = 0 then 0
       else last (lh_failures h) +
         of_nat (min (unat (backoff_initial_ms cfg) * 2 ^ (n - 1)) (unat (backoff_max_ms cfg))))"
proof -
  define h0 where "h0 = fold link_history ops link_history_init"
  define h where "h = link_history (LinkUpdate obs now) h0"
  define m where "m = link_observe (fst (run link_step (new_link cfg) ops)) obs now"
  have "link_rel cfg (fst (link_step (fst (run link_step (new_link cfg) ops)) (LinkUpdate obs now))) h"
    unfolding h_def h0_def by (rule link_machine.rel_step, rule link_machine.rel_run)
  then have rel: "link_rel cfg m h" by (simp add: m_def link_update_def Let_def)
  have "length (lh_failures h) \<le> length (lh_failures h0)" by (simp add: h_def)
  also have "\<dots> < 2 ^ 32"
    using length_failures_le [of ops link_history_init] assms
    by (simp add: h0_def link_history_init_def)
  finally have n: "unat (of_nat (length (lh_failures h)) :: u32) = length (lh_failures h)"
    by (simp add: unat_of_nat)
  then have u: "unat (lm_attempts m) = length (lh_failures h)" using rel by (simp add: link_rel_def)
  then have z: "lm_attempts m = 0 \<longleftrightarrow> lh_failures h = []"
    using unat_eq_zero [of "lm_attempts m"] by auto
  have "ucast (backoff_ms m) = (of_nat (unat (backoff_ms m)) :: u64)" by simp
  then have b: "ucast (backoff_ms m) = (of_nat (if lh_failures h = [] then 0 else
      min (unat (backoff_initial_ms cfg) * 2 ^ (length (lh_failures h) - 1)) (unat (backoff_max_ms cfg))) :: u64)"
    using rel by (simp only: unat_backoff_ms u z link_rel_def)
  have "adv_retry_at_ms (link_advise m obs now) =
      (if lh_stage h = kReady \<or> lh_failures h = [] then 0
       else last (lh_failures h) + ucast (backoff_ms m))"
    using rel z by (simp add: link_advise_retry link_rel_def)
  moreover have "fold link_history (ops @ [LinkUpdate obs now]) link_history_init = h"
    by (simp only: h_def h0_def fold_append fold_simps comp_apply)
  moreover have "link_update (fst (run link_step (new_link cfg) ops)) obs now = (m, link_advise m obs now)"
    by (simp only: link_update_def m_def Let_def)
  ultimately show ?thesis using rel u b by (simp add: link_rel_def)
qed

theorem retry_follows_stage_history_witness:
  "let ops = [LinkUpdate (default_observation\<lparr>le_candidate_present := True\<rparr>) 5, LinkFailed 100, LinkFailed 1200];
       (m, adv) = link_update (fst (run link_step (new_link default_link_config) ops))
         (default_observation\<lparr>le_candidate_present := True\<rparr>) 1300 in
   length ops < 2 ^ 32 \<and> lm_state m = kAdvertising \<and> adv_retry_at_ms adv = 3200"
  using retry_follows_stage_history
    [of "[LinkUpdate (default_observation\<lparr>le_candidate_present := True\<rparr>) 5, LinkFailed 100, LinkFailed 1200]"
      "default_observation\<lparr>le_candidate_present := True\<rparr>" 1300 default_link_config]
  by (simp add: Let_def split_beta classify_def link_history_init_def default_observation_def
      default_link_config_def)

end
