(* ===== verification/Link_Bridge.thy ===== *)
theory Link_Bridge
  imports Ble_Link
begin

text \<open>
  The C interface of the link machine, \<open>native/include/link_bridge.h\<close> and
  \<open>native/src/link_bridge.cpp\<close>, with the two Dart routines at its other end, the flag packing
  and the advice unpacking of \<open>lib/src/ffi/link_types.dart\<close>. A handle is a null pointer
  (\<open>None\<close>) or owns a context; creating a context cannot fail here (allocation failure
  terminates the process in the source), and using a handle after \<open>destroy\<close> is outside the
  model because \<open>destroy\<close> leaves no handle.

  The lemmas show that the packed word loses nothing, that the flags arrive as sent, and that
  the interface as a whole is transparent: what Dart gets is what the machine advised.
\<close>

section \<open>Data\<close>

definition kGoProLinkCandidatePresent :: u32 where "kGoProLinkCandidatePresent = push_bit 0 1"
definition kGoProLinkClassicUp :: u32 where "kGoProLinkClassicUp = push_bit 1 1"
definition kGoProLinkConnected :: u32 where "kGoProLinkConnected = push_bit 2 1"
definition kGoProLinkBonded :: u32 where "kGoProLinkBonded = push_bit 3 1"
definition kGoProLinkControlCharsFound :: u32 where "kGoProLinkControlCharsFound = push_bit 4 1"
definition kGoProLinkNotifySucceeded :: u32 where "kGoProLinkNotifySucceeded = push_bit 5 1"

lemmas link_flag_defs =
  kGoProLinkCandidatePresent_def kGoProLinkClassicUp_def kGoProLinkConnected_def
  kGoProLinkBonded_def kGoProLinkControlCharsFound_def kGoProLinkNotifySucceeded_def

record LinkContext =
  lc_machine :: LinkMachine
  lc_detail :: string
  lc_retry_at_ms :: u64

definition new_link_context :: "LinkConfig \<Rightarrow> LinkContext" where
  "new_link_context cfg = \<lparr>lc_machine = new_link cfg, lc_detail = '''', lc_retry_at_ms = 0\<rparr>"

text \<open>The values of the enumerators, in declaration order from zero.\<close>

fun link_state_value :: "LinkState \<Rightarrow> u32" where
  "link_state_value kAbsent = 0" | "link_state_value kAdvertising = 1"
| "link_state_value kConnected = 2" | "link_state_value kServicesResolved = 3"
| "link_state_value kEncrypted = 4" | "link_state_value kReady = 5"

fun link_action_value :: "LinkAction \<Rightarrow> u32" where
  "link_action_value LinkAction.kNone = 0" | "link_action_value kScan = 1"
| "link_action_value kDisconnectClassic = 2" | "link_action_value kConnect = 3"
| "link_action_value kWaitForServices = 4" | "link_action_value kPair = 5"
| "link_action_value kSubscribe = 6"

fun stall_reason_value :: "StallReason \<Rightarrow> u32" where
  "stall_reason_value StallReason.kNone = 0" | "stall_reason_value kNoAdvertisement = 1"
| "stall_reason_value kClassicBlocking = 2" | "stall_reason_value kConnectFailed = 3"
| "stall_reason_value kServicesNeverAppeared = 4" | "stall_reason_value kWrongDevice = 5"
| "stall_reason_value kNotEncrypted = 6" | "stall_reason_value kSubscribeFailed = 7"

section \<open>Operations\<close>

definition gopro_link_create ::
  "u32 \<Rightarrow> u32 \<Rightarrow> u32 \<Rightarrow> u32 \<Rightarrow> u32 \<Rightarrow> u32 \<Rightarrow> LinkContext option" where
  "gopro_link_create connect services encrypt subscribe initial maximum =
     (let cfg = default_link_config;
          cfg = (if connect \<noteq> 0 then cfg\<lparr>connect_timeout_ms := connect\<rparr> else cfg);
          cfg = (if services \<noteq> 0 then cfg\<lparr>services_timeout_ms := services\<rparr> else cfg);
          cfg = (if encrypt \<noteq> 0 then cfg\<lparr>encrypt_timeout_ms := encrypt\<rparr> else cfg);
          cfg = (if subscribe \<noteq> 0 then cfg\<lparr>subscribe_timeout_ms := subscribe\<rparr> else cfg);
          cfg = (if initial \<noteq> 0 then cfg\<lparr>backoff_initial_ms := initial\<rparr> else cfg);
          cfg = (if maximum \<noteq> 0 then cfg\<lparr>backoff_max_ms := maximum\<rparr> else cfg)
      in Some (new_link_context cfg))"

definition gopro_link_destroy :: "LinkContext option \<Rightarrow> LinkContext option" where
  "gopro_link_destroy handle = None"

definition observation_of :: "u32 \<Rightarrow> u32 \<Rightarrow> u32 \<Rightarrow> u32 \<Rightarrow> LinkObservation" where
  "observation_of flags attributes subscribed required =
     \<lparr>le_candidate_present = (flags AND kGoProLinkCandidatePresent) \<noteq> 0,
      classic_link_up = (flags AND kGoProLinkClassicUp) \<noteq> 0,
      obs_connected = (flags AND kGoProLinkConnected) \<noteq> 0,
      bonded_flag = (flags AND kGoProLinkBonded) \<noteq> 0,
      attribute_count = unat attributes,
      control_chars_found = (flags AND kGoProLinkControlCharsFound) \<noteq> 0,
      notify_succeeded = (flags AND kGoProLinkNotifySucceeded) \<noteq> 0,
      subscribed_count = unat subscribed,
      required_subscriptions = (if required = 0 then 1 else unat required)\<rparr>"

definition pack_advice :: "LinkAdvice \<Rightarrow> u32" where
  "pack_advice advice =
     push_bit 16 (link_state_value (adv_state advice)) OR
     push_bit 8 (link_action_value (adv_action advice)) OR
     stall_reason_value (adv_stall advice)"

definition gopro_link_update ::
  "LinkContext option \<Rightarrow> u32 \<Rightarrow> u32 \<Rightarrow> u32 \<Rightarrow> u32 \<Rightarrow> u64 \<Rightarrow> LinkContext option \<times> u32" where
  "gopro_link_update handle flags attributes subscribed required now_ms =
     (case handle of
        None \<Rightarrow> (None, 0)
      | Some ctx \<Rightarrow>
          (let obs = observation_of flags attributes subscribed required;
               (machine, advice) = link_update (lc_machine ctx) obs now_ms
           in (Some (ctx\<lparr>lc_machine := machine, lc_detail := adv_detail advice,
                         lc_retry_at_ms := adv_retry_at_ms advice\<rparr>),
               pack_advice advice)))"

definition gopro_link_retry_at :: "LinkContext option \<Rightarrow> u64" where
  "gopro_link_retry_at handle = (case handle of None \<Rightarrow> 0 | Some ctx \<Rightarrow> lc_retry_at_ms ctx)"

definition gopro_link_detail :: "LinkContext option \<Rightarrow> string" where
  "gopro_link_detail handle = (case handle of None \<Rightarrow> '''' | Some ctx \<Rightarrow> lc_detail ctx)"

definition gopro_link_note_failure :: "LinkContext option \<Rightarrow> u64 \<Rightarrow> LinkContext option" where
  "gopro_link_note_failure handle now_ms =
     (case handle of
        None \<Rightarrow> None
      | Some ctx \<Rightarrow> Some (ctx\<lparr>lc_machine := note_attempt_failed (lc_machine ctx) now_ms\<rparr>))"

definition gopro_link_attempts :: "LinkContext option \<Rightarrow> u32" where
  "gopro_link_attempts handle = (case handle of None \<Rightarrow> 0 | Some ctx \<Rightarrow> lm_attempts (lc_machine ctx))"

definition gopro_link_reset :: "LinkContext option \<Rightarrow> LinkContext option" where
  "gopro_link_reset handle =
     (case handle of
        None \<Rightarrow> None
      | Some ctx \<Rightarrow>
          Some (ctx\<lparr>lc_machine := link_reset (lc_machine ctx), lc_detail := '''', lc_retry_at_ms := 0\<rparr>))"

section \<open>The Dart side\<close>

definition link_flags :: "LinkObservation \<Rightarrow> u32" where
  "link_flags obs =
     (if le_candidate_present obs then push_bit 0 1 else 0) OR
     (if classic_link_up obs then push_bit 1 1 else 0) OR
     (if obs_connected obs then push_bit 2 1 else 0) OR
     (if bonded_flag obs then push_bit 3 1 else 0) OR
     (if control_chars_found obs then push_bit 4 1 else 0) OR
     (if notify_succeeded obs then push_bit 5 1 else 0)"

definition LinkState_values :: "LinkState list" where
  "LinkState_values = [kAbsent, kAdvertising, kConnected, kServicesResolved, kEncrypted, kReady]"

definition LinkAction_values :: "LinkAction list" where
  "LinkAction_values = [LinkAction.kNone, kScan, kDisconnectClassic, kConnect, kWaitForServices, kPair, kSubscribe]"

definition StallReason_values :: "StallReason list" where
  "StallReason_values = [StallReason.kNone, kNoAdvertisement, kClassicBlocking, kConnectFailed,
     kServicesNeverAppeared, kWrongDevice, kNotEncrypted, kSubscribeFailed]"

definition link_advice_unpack :: "u32 \<Rightarrow> string \<Rightarrow> u64 \<Rightarrow> LinkAdvice option" where
  "link_advice_unpack packed detail retry_at =
     (let s = unat (drop_bit 16 packed AND 0xFF);
          a = unat (drop_bit 8 packed AND 0xFF);
          r = unat (packed AND 0xFF)
      in if s \<ge> length LinkState_values \<or> a \<ge> length LinkAction_values \<or> r \<ge> length StallReason_values
         then None
         else Some \<lparr>adv_state = LinkState_values ! s, adv_action = LinkAction_values ! a,
                    adv_stall = StallReason_values ! r, adv_detail = detail,
                    adv_retry_at_ms = retry_at\<rparr>)"

text \<open>\<open>BleBindings.linkUpdate\<close>: the call, and then the two accessors for the rest of the advice.\<close>

definition dart_link_update ::
  "LinkContext option \<Rightarrow> LinkObservation \<Rightarrow> u64 \<Rightarrow> LinkContext option \<times> LinkAdvice option" where
  "dart_link_update h obs now_ms =
     (let (h1, packed) = gopro_link_update h (link_flags obs) (of_nat (attribute_count obs))
            (of_nat (subscribed_count obs)) (of_nat (required_subscriptions obs)) now_ms
      in (h1, link_advice_unpack packed (gopro_link_detail h1) (gopro_link_retry_at h1)))"

section \<open>Packing\<close>

lemma link_advice_unpack_pack:
  "link_advice_unpack (pack_advice adv) (adv_detail adv) (adv_retry_at_ms adv) = Some adv"
proof (cases adv)
  case (fields s a r d t)
  have "link_advice_unpack (push_bit 16 (link_state_value s) OR push_bit 8 (link_action_value a) OR
      stall_reason_value r) d t = Some \<lparr>adv_state = s, adv_action = a, adv_stall = r,
      adv_detail = d, adv_retry_at_ms = t\<rparr>"
    by (cases s; cases a; cases r)
       (simp_all add: link_advice_unpack_def LinkState_values_def LinkAction_values_def
          StallReason_values_def)
  then show ?thesis by (simp add: fields pack_advice_def)
qed

section \<open>What crosses the interface\<close>

text \<open>
  An observation as the native side sees it: the counts are 32-bit arguments, and zero required
  subscriptions are read as one.
\<close>

definition wire_observation :: "LinkObservation \<Rightarrow> LinkObservation" where
  "wire_observation obs = obs\<lparr>
     attribute_count := attribute_count obs mod 2 ^ 32,
     subscribed_count := subscribed_count obs mod 2 ^ 32,
     required_subscriptions := (if required_subscriptions obs mod 2 ^ 32 = 0 then 1
                                else required_subscriptions obs mod 2 ^ 32)\<rparr>"

lemma wire_observation_id:
  "attribute_count obs < 2 ^ 32 \<Longrightarrow> subscribed_count obs < 2 ^ 32 \<Longrightarrow>
   0 < required_subscriptions obs \<Longrightarrow> required_subscriptions obs < 2 ^ 32 \<Longrightarrow> wire_observation obs = obs"
  by (simp add: wire_observation_def)

lemma link_flags_decoded:
  "(link_flags obs AND kGoProLinkCandidatePresent) \<noteq> 0 \<longleftrightarrow> le_candidate_present obs"
  "(link_flags obs AND kGoProLinkClassicUp) \<noteq> 0 \<longleftrightarrow> classic_link_up obs"
  "(link_flags obs AND kGoProLinkConnected) \<noteq> 0 \<longleftrightarrow> obs_connected obs"
  "(link_flags obs AND kGoProLinkBonded) \<noteq> 0 \<longleftrightarrow> bonded_flag obs"
  "(link_flags obs AND kGoProLinkControlCharsFound) \<noteq> 0 \<longleftrightarrow> control_chars_found obs"
  "(link_flags obs AND kGoProLinkNotifySucceeded) \<noteq> 0 \<longleftrightarrow> notify_succeeded obs"
  by (cases "le_candidate_present obs"; cases "classic_link_up obs"; cases "obs_connected obs";
      cases "bonded_flag obs"; cases "control_chars_found obs"; cases "notify_succeeded obs";
      simp add: link_flags_def link_flag_defs)+

lemma observation_of_wire:
  "observation_of (link_flags obs) (of_nat (attribute_count obs)) (of_nat (subscribed_count obs))
     (of_nat (required_subscriptions obs)) = wire_observation obs"
proof -
  have u: "unat (of_nat n :: u32) = n mod 2 ^ 32" for n by (simp add: unat_of_nat)
  have z: "(of_nat n :: u32) = 0 \<longleftrightarrow> n mod 2 ^ 32 = 0" for n
    using u [of n] unat_eq_zero [of "of_nat n :: u32"] by simp
  show ?thesis
    by (simp only: observation_of_def link_flags_decoded u z wire_observation_def) simp
qed

lemma dart_link_update_some:
  "dart_link_update (Some ctx) obs now =
     (let (machine, adv) = link_update (lc_machine ctx) (wire_observation obs) now
      in (Some \<lparr>lc_machine = machine, lc_detail = adv_detail adv, lc_retry_at_ms = adv_retry_at_ms adv\<rparr>,
          Some adv))"
  by (simp add: dart_link_update_def gopro_link_update_def observation_of_wire gopro_link_detail_def
      gopro_link_retry_at_def link_advice_unpack_pack Let_def split_beta)

text \<open>The configuration a handle is created with.\<close>

definition created_config :: "u32 \<Rightarrow> u32 \<Rightarrow> u32 \<Rightarrow> u32 \<Rightarrow> u32 \<Rightarrow> u32 \<Rightarrow> LinkConfig" where
  "created_config c v e s i x =
     \<lparr>connect_timeout_ms = (if c = 0 then 10000 else c), services_timeout_ms = (if v = 0 then 15000 else v),
      encrypt_timeout_ms = (if e = 0 then 60000 else e), subscribe_timeout_ms = (if s = 0 then 10000 else s),
      backoff_initial_ms = (if i = 0 then 1000 else i), backoff_max_ms = (if x = 0 then 30000 else x)\<rparr>"

lemma gopro_link_create_config:
  "gopro_link_create c v e s i x = Some (new_link_context (created_config c v e s i x))"
  by (simp add: gopro_link_create_def created_config_def default_link_config_def Let_def)

text \<open>The interface as a machine: what Dart calls, and the advice it gets.\<close>

fun link_bridge_step :: "LinkContext option \<Rightarrow> LinkOp \<Rightarrow> LinkContext option \<times> LinkAdvice option list" where
  "link_bridge_step h (LinkUpdate obs now) = (let (h', adv) = dart_link_update h obs now in (h', [adv]))"
| "link_bridge_step h (LinkFailed now) = (gopro_link_note_failure h now, [])"
| "link_bridge_step h LinkReset = (gopro_link_reset h, [])"

fun wire_op :: "LinkOp \<Rightarrow> LinkOp" where
  "wire_op (LinkUpdate obs now) = LinkUpdate (wire_observation obs) now"
| "wire_op op = op"

lemma link_bridge_step_some:
  "map_option lc_machine (fst (link_bridge_step (Some ctx) op)) = Some (fst (link_step (lc_machine ctx) (wire_op op)))"
  "snd (link_bridge_step (Some ctx) op) = map Some (snd (link_step (lc_machine ctx) (wire_op op)))"
  by (cases op; simp add: dart_link_update_some gopro_link_note_failure_def gopro_link_reset_def
      Let_def split_beta)+

lemma link_bridge_run:
  assumes "map_option lc_machine h = Some m"
  shows "map_option lc_machine (fst (run link_bridge_step h ops)) = Some (fst (run link_step m (map wire_op ops)))"
    and "snd (run link_bridge_step h ops) = map Some (snd (run link_step m (map wire_op ops)))"
proof -
  have "map_option lc_machine (fst (run link_bridge_step h ops)) = Some (fst (run link_step m (map wire_op ops))) \<and>
      snd (run link_bridge_step h ops) = map Some (snd (run link_step m (map wire_op ops)))"
    using assms
  proof (induction ops arbitrary: h m)
    case (Cons op ops)
    then obtain ctx where h: "h = Some ctx" and m: "m = lc_machine ctx" by auto
    from Cons.IH [OF link_bridge_step_some(1) [of ctx op]] show ?case
      by (simp add: Let_def split_beta h m link_bridge_step_some(2))
  qed simp
  then show "map_option lc_machine (fst (run link_bridge_step h ops)) = Some (fst (run link_step m (map wire_op ops)))"
    "snd (run link_bridge_step h ops) = map Some (snd (run link_step m (map wire_op ops)))" by blast+
qed

lemma created_config_positive:
  "stage_limit (created_config c v e s i x) st = Some t \<Longrightarrow> t \<noteq> 0"
  by (cases st) (auto simp: created_config_def split: if_splits)

lemma link_step_cfg: "lm_cfg (fst (link_step m op)) = lm_cfg m"
  by (cases op) (simp_all add: link_update_def note_attempt_failed_def link_reset_def Let_def)

lemma run_link_cfg: "lm_cfg (fst (run link_step m ops)) = lm_cfg m"
  by (rule run_invariant [where I = "\<lambda>s. lm_cfg s = lm_cfg m"]) (simp_all add: link_step_cfg)

lemma zero_required_subscriptions_ready:
  "obs_connected obs \<Longrightarrow> 0 < attribute_count obs \<Longrightarrow> control_chars_found obs \<Longrightarrow> notify_succeeded obs \<Longrightarrow>
   classify (obs\<lparr>required_subscriptions := 0\<rparr>) = kReady"
  by (simp add: classify_def)

section \<open>Properties\<close>

text \<open>
  The C interface is transparent: along any sequence of calls on a created handle, the
  advice Dart unpacks (stage, action, stall reason, explanation and retry time, with no
  out-of-range field ever) is exactly the advice of the link machine configured with the given
  timeouts, zero meaning the default, for the observations as they cross the interface.
\<close>

lemma link_interface_transparent:
  "snd (run link_bridge_step (gopro_link_create c v e s i x) ops) =
   map Some (snd (run link_step (new_link (created_config c v e s i x)) (map wire_op ops)))"
  by (rule link_bridge_run(2)) (simp add: gopro_link_create_config new_link_context_def)

text \<open>
  A stage that has just been entered is never reported as timed out: on a handle created
  with any arguments and after any calls, an observation that changes the stage gets advice
  without a stall, except that a blocking Classic link is named at once.
\<close>

lemma fresh_stage_never_timed_out:
  assumes "fst (run link_bridge_step (gopro_link_create c v e s i x) ops) = Some ctx"
    and "classify (wire_observation obs) \<noteq> lm_state (lc_machine ctx)"
  shows "\<exists>ctx' adv. dart_link_update (Some ctx) obs now = (Some ctx', Some adv) \<and>
    adv_state adv = classify (wire_observation obs) \<and>
    adv_stall adv \<in> {StallReason.kNone, kClassicBlocking} \<and> adv_retry_at_ms adv = 0"
proof -
  have "map_option lc_machine (Some ctx) =
      Some (fst (run link_step (new_link (created_config c v e s i x)) (map wire_op ops)))"
    unfolding assms(1) [symmetric]
    by (rule link_bridge_run(1)) (simp add: gopro_link_create_config new_link_context_def)
  then have cfg: "lm_cfg (lc_machine ctx) = created_config c v e s i x"
    using run_link_cfg [of "new_link (created_config c v e s i x)"] by (simp add: new_link_def)
  let ?m = "link_observe (lc_machine ctx) (wire_observation obs) now"
  let ?adv = "link_advise ?m (wire_observation obs) now"
  have pos: "\<not> stage_overdue ?m now"
    using assms(2) created_config_positive [of c v e s i x "classify (wire_observation obs)"]
    by (auto simp: stage_overdue_def cfg word_le_nat_alt unat_ucast_up unat_gt_0 split: option.splits)
  have "adv_stall ?adv \<in> {StallReason.kNone, kClassicBlocking}"
  proof (cases "adv_stall ?adv = StallReason.kNone")
    case False
    then have "classify (wire_observation obs) = kAbsent \<and> classic_link_up (wire_observation obs)"
      using link_advise_stalled [of ?m "wire_observation obs" now] pos by auto
    then show ?thesis by (simp add: link_advise_def Let_def)
  qed simp
  moreover have "adv_retry_at_ms ?adv = 0" using assms(2) by (simp add: link_advise_retry)
  ultimately show ?thesis by (simp add: dart_link_update_some link_update_def Let_def)
qed

end
