(* ===== verification/Dart_Native.thy ===== *)
theory Dart_Native
  imports Gp_Prelude
begin

text \<open>
  The messages native code sends to Dart, \<open>native/include/dart_native_api.h\<close>: the tagged union
  \<open>Dart_CObject\<close> and the one form of it the bridges post, a typed data object of bytes, which the
  VM copies. A pointer to data is the data itself; a double is its 64 bits. What the receiving
  isolate gets for an object is the documented behaviour of the VM.
\<close>

datatype Dart_TypedData_Type =
    kByteData | kInt8 | kUint8 | kUint8Clamped | kInt16 | kUint16 | kInt32 | kUint32
  | kInt64 | kUint64 | kFloat32 | kFloat64 | kInt32x4 | kFloat32x4 | kFloat64x2 | kInvalid

datatype Dart_CObject =
    CNull
  | CBool bool
  | CInt32 "32 word"
  | CInt64 "64 word"
  | CDouble "64 word"
  | CString string
  | CArray "Dart_CObject list"
  | CTypedData Dart_TypedData_Type nat bytes
  | CExternalTypedData Dart_TypedData_Type nat bytes
  | CSendPort "64 word" "64 word"
  | CCapability "64 word"
  | CNativePointer "64 word" "64 word"
  | CUnsupported
  | CUnmodifiableExternalTypedData Dart_TypedData_Type nat bytes

text \<open>The object both bridges build around a buffer.\<close>

definition post_object :: "bytes \<Rightarrow> Dart_CObject" where
  "post_object buf = CTypedData kUint8 (length buf) buf"

text \<open>The \<open>Uint8List\<close> the receiver finds in a message, if the message is one.\<close>

fun as_uint8list :: "Dart_CObject \<Rightarrow> bytes option" where
  "as_uint8list (CTypedData ty len vals) = (if ty = kUint8 then Some (take len vals) else None)"
| "as_uint8list (CExternalTypedData ty len vals) = (if ty = kUint8 then Some (take len vals) else None)"
| "as_uint8list (CUnmodifiableExternalTypedData ty len vals) = (if ty = kUint8 then Some (take len vals) else None)"
| "as_uint8list _ = None"

lemma as_uint8list_post [simp]: "as_uint8list (post_object buf) = Some buf"
  by (simp add: post_object_def)

end
