(* ===== verification/Ble_Transport.thy ===== *)
theory Ble_Transport
  imports Ble_Bridge Link_Bridge Dart_Native
begin

text \<open>
  A connected camera on the Dart side, class \<open>GoProBleCamera\<close> of \<open>lib/src/ble_transport.dart\<close>, over
  the C interface of the session. The calls of the native library are those of \<open>Ble_Bridge\<close> and
  \<open>Link_Bridge\<close>; their posts wait in the receive port until the event loop delivers them.

  An \<open>async\<close> function runs without interruption up to each \<open>await\<close>, so a label below is one such
  piece, and a run is any order of pieces the event loop may choose. A piece that is not due
  (its activity is not at that point, the subscription or timer it belongs to is gone) does
  nothing. Native handles are live (\<open>Some\<close>) or freed (\<open>None\<close>), and a call on a freed handle,
  undefined in the source, raises a flag. The GATT layer decides when notifications arrive,
  when the link drops and how a climb of the bring-up ladder ends.
\<close>

section \<open>Data\<close>

datatype CameraLink = LinkIsUp | LinkReconnecting | LinkDown

text \<open>
  Where \<open>_detach\<close> waits: in the loop over the subscriptions, with the index reached and the length
  the iterator saw at its start, or in the loop over the notify characteristics, with the index
  and the modification count of the map. Then where \<open>_onDrop\<close> and \<open>close\<close> wait.
\<close>

datatype DetachPc = DetachSub nat nat | DetachStop nat nat
datatype DropPc = NoDrop | DropDetach DetachPc | DropResolve | DropClimb
datatype ClosePc = NotClosing | CloseWatch | CloseDetach DetachPc | CloseDrain | Closed | CloseFailed

datatype SendError = LinkNotUp | PayloadEmpty | AlreadyOutstanding | SubmissionRefused

datatype Fault = LinkLost | FramingError BleChannel FeedResult | WriteFailed | BringUpFailed

text \<open>What a caller can see: completed futures, GATT writes, and the four streams.\<close>

datatype CamOut =
    Complete nat int Outcome bytes
  | GattWrite BleChannel bytes
  | OnPush BleChannel bytes
  | OnReady bool
  | OnFault Fault
  | OnLink CameraLink
  | CloseThrew
  | Uncaught

text \<open>
  A subscription is in the list until the list is cleared, and live until it is cancelled. Of the
  notify characteristics the number matters, and how often the map was changed.
\<close>

record GoProBleCamera =
  gc_session :: "BleContext option"
  gc_link :: "LinkContext option"
  gc_events :: "Dart_CObject list"
  gc_writes :: "BleChannel list"
  gc_subs :: "(BleChannel \<times> bool) list"
  gc_notifies :: nat
  gc_modified :: nat
  gc_watch :: bool
  gc_ticker :: bool
  gc_pending :: "(int \<times> nat) list"
  gc_next :: nat
  gc_state :: CameraLink
  gc_reconnect :: bool
  gc_dropping :: DropPc
  gc_closing :: ClosePc
  gc_use_after_free :: bool

text \<open>What bring-up hands over: the channels with a write and with a notify characteristic, and the MTU of the latter.\<close>

record Attached =
  at_writes :: "BleChannel list"
  at_notifies :: "(BleChannel \<times> nat) list"

section \<open>The bindings\<close>

text \<open>A call on the session handle; its posts go to the receive port.\<close>

definition on_session ::
  "(BleContext option \<Rightarrow> BleContext option \<times> DartPost list) \<Rightarrow> GoProBleCamera \<Rightarrow> GoProBleCamera" where
  "on_session call cam =
     (case gc_session cam of
        None \<Rightarrow> cam\<lparr>gc_use_after_free := True\<rparr>
      | Some ctx \<Rightarrow>
          (let (h, posts) = call (Some ctx)
           in cam\<lparr>gc_session := h, gc_events := gc_events cam @ map (post_object \<circ> snd) posts\<rparr>))"

definition bindings_feed :: "BleChannel \<Rightarrow> bytes \<Rightarrow> u64 \<Rightarrow> BleContext option \<Rightarrow> BleContext option \<times> DartPost list" where
  "bindings_feed channel bs now h =
     (if bs = [] then (h, [])
      else gopro_ble_feed h (ble_channel_value channel) (Some bs) (of_nat (length bs)) now)"

text \<open>A list of integers stored into native memory keeps the low eight bits of each.\<close>

definition native_bytes :: "int list \<Rightarrow> bytes" where
  "native_bytes xs = map word_of_int xs"

definition bindings_submit ::
  "BleChannel \<Rightarrow> int list \<Rightarrow> Priority \<Rightarrow> u64 \<Rightarrow> BleContext option \<Rightarrow> BleContext option \<times> DartPost list \<times> bool" where
  "bindings_submit channel payload priority now h =
     (if payload = [] then (h, [], False)
      else
        (let (h, posts, r) = gopro_ble_submit h (ble_channel_value channel) (Some (native_bytes payload))
               (of_nat (length payload)) (priority_value priority) now
         in (h, posts, r \<noteq> 0)))"

text \<open>The buffer for an empty message has one byte, which the length of zero leaves unread.\<close>

definition bindings_submit_protobuf ::
  "BleChannel \<Rightarrow> int \<Rightarrow> int \<Rightarrow> int list \<Rightarrow> Priority \<Rightarrow> u64 \<Rightarrow> BleContext option \<Rightarrow>
   BleContext option \<times> DartPost list \<times> bool" where
  "bindings_submit_protobuf channel feature action message priority now h =
     (let (h, posts, r) = gopro_ble_submit_protobuf h (ble_channel_value channel) (word_of_int feature)
            (word_of_int action) (Some (if message = [] then [0] else native_bytes message))
            (of_nat (length message)) (priority_value priority) now
      in (h, posts, r \<noteq> 0))"

text \<open>A \<open>Uint64\<close> result is a signed 64-bit integer in Dart.\<close>

definition bindings_protobuf_correlation :: "BleChannel \<Rightarrow> int \<Rightarrow> int \<Rightarrow> int" where
  "bindings_protobuf_correlation channel feature action =
     sint (gopro_ble_protobuf_correlation (ble_channel_value channel) (word_of_int feature) (word_of_int action))"

definition dart_correlation_of :: "BleChannel \<Rightarrow> int \<Rightarrow> int" where
  "dart_correlation_of channel leading = push_bit 8 (uint (ble_channel_value channel)) OR leading"

section \<open>Sending\<close>

text \<open>The part \<open>send\<close> and \<open>sendProtobuf\<close> share once the id is known.\<close>

definition send_as ::
  "int \<Rightarrow> (BleContext option \<Rightarrow> BleContext option \<times> DartPost list \<times> bool) \<Rightarrow> GoProBleCamera \<Rightarrow>
   GoProBleCamera \<times> (SendError + nat)" where
  "send_as i submit_call cam =
     (if i \<in> fst ` set (gc_pending cam) then (cam, Inl AlreadyOutstanding)
      else
        (case gc_session cam of
           None \<Rightarrow> (cam\<lparr>gc_use_after_free := True\<rparr>, Inl SubmissionRefused)
         | Some ctx \<Rightarrow>
             (let (h, posts, ok) = submit_call (Some ctx);
                  cam = cam\<lparr>gc_session := h, gc_events := gc_events cam @ map (post_object \<circ> snd) posts\<rparr>
              in if \<not> ok then (cam, Inl SubmissionRefused)
                 else (cam\<lparr>gc_pending := gc_pending cam @ [(i, gc_next cam)], gc_next := gc_next cam + 1\<rparr>,
                       Inr (gc_next cam)))))"

definition camera_send ::
  "BleChannel \<Rightarrow> int list \<Rightarrow> Priority option \<Rightarrow> u64 \<Rightarrow> GoProBleCamera \<Rightarrow> GoProBleCamera \<times> (SendError + nat)" where
  "camera_send channel payload priority now cam =
     (if gc_state cam \<noteq> LinkIsUp then (cam, Inl LinkNotUp)
      else if payload = [] then (cam, Inl PayloadEmpty)
      else
        (let pr = (case priority of Some p \<Rightarrow> p | None \<Rightarrow> if channel = BleQuery then kFastpass else kQueued)
         in send_as (dart_correlation_of channel (payload ! 0)) (bindings_submit channel payload pr now) cam))"

definition camera_send_protobuf ::
  "int \<Rightarrow> int \<Rightarrow> int list \<Rightarrow> BleChannel \<Rightarrow> Priority \<Rightarrow> u64 \<Rightarrow> GoProBleCamera \<Rightarrow>
   GoProBleCamera \<times> (SendError + nat)" where
  "camera_send_protobuf feature action message channel priority now cam =
     (if gc_state cam \<noteq> LinkIsUp then (cam, Inl LinkNotUp)
      else send_as (bindings_protobuf_correlation channel feature action)
             (bindings_submit_protobuf channel feature action message priority now) cam)"

definition kBusyStatusId :: int where "kBusyStatusId = 8"
definition kEncodingStatusId :: int where "kEncodingStatusId = 10"

definition query_statuses :: "int list \<Rightarrow> u64 \<Rightarrow> GoProBleCamera \<Rightarrow> GoProBleCamera \<times> (SendError + nat)" where
  "query_statuses ids now cam = camera_send BleQuery (0x13 # ids) None now cam"

section \<open>Events\<close>

definition set_state :: "CameraLink \<Rightarrow> GoProBleCamera \<Rightarrow> GoProBleCamera \<times> CamOut list" where
  "set_state next cam =
     (if gc_state cam = next then (cam, [])
      else (cam\<lparr>gc_state := next\<rparr>, if gc_closing cam = Closed then [] else [OnLink next]))"

text \<open>Adding to a closed stream without asking throws.\<close>

definition add_fault :: "Fault \<Rightarrow> GoProBleCamera \<Rightarrow> CamOut list" where
  "add_fault f cam = (if gc_closing cam = Closed then [Uncaught] else [OnFault f])"

definition resolve_pending :: "GoProBleCamera \<Rightarrow> GoProBleCamera \<times> CamOut list" where
  "resolve_pending cam =
     (cam\<lparr>gc_pending := []\<rparr>, map (\<lambda>(i, fut). Complete fut i kCanceled []) (gc_pending cam))"

definition on_event :: "Dart_CObject \<Rightarrow> GoProBleCamera \<Rightarrow> GoProBleCamera \<times> CamOut list" where
  "on_event message cam =
     (case as_uint8list message of
        None \<Rightarrow> (cam, [])
      | Some data \<Rightarrow>
          (case ble_decode data of
             None \<Rightarrow> (cam, [])
           | Some (BleWriteRequest channel bs) \<Rightarrow>
               (cam, if channel \<in> set (gc_writes cam) then [GattWrite channel bs] else [])
           | Some (BleResponse i outcome payload) \<Rightarrow>
               (case map_of (gc_pending cam) (sint i) of
                  None \<Rightarrow> (cam, [])
                | Some fut \<Rightarrow>
                    (cam\<lparr>gc_pending := filter (\<lambda>(j, f). j \<noteq> sint i) (gc_pending cam)\<rparr>,
                     [Complete fut (sint i) outcome payload]))
           | Some (BleReadyChanged rdy) \<Rightarrow> (cam, if gc_closing cam = Closed then [] else [OnReady rdy])
           | Some (BlePush channel bs) \<Rightarrow> (cam, if gc_closing cam = Closed then [] else [OnPush channel bs])
           | Some (BleFrameErrorEvent channel e) \<Rightarrow>
               (cam, if gc_closing cam = Closed then [] else [OnFault (FramingError channel e)])))"

section \<open>Attaching, dropping and closing\<close>

text \<open>The smallest MTU, with zero as the start value.\<close>

definition attach_mtu :: "Attached \<Rightarrow> nat" where
  "attach_mtu a = fold (\<lambda>(c, b) m. if m = 0 \<or> b < m then b else m) (at_notifies a) 0"

text \<open>
  \<open>_attach\<close> has no \<open>await\<close>. The status query at its end throws where it stands if it throws at
  all, before \<open>catchError\<close> is attached, and the watches behind it are then not set up.
\<close>

definition bind_link :: "Attached \<Rightarrow> GoProBleCamera \<Rightarrow> GoProBleCamera" where
  "bind_link a cam =
     (let cam = cam\<lparr>gc_writes := at_writes a, gc_notifies := length (at_notifies a), gc_modified := Suc (gc_modified cam)\<rparr>;
          mtu = attach_mtu a;
          cam = (if mtu > 3 then on_session (\<lambda>h. (gopro_ble_set_att_payload h (of_nat (mtu - 3)), [])) cam else cam)
      in cam\<lparr>gc_subs := gc_subs cam @ map (\<lambda>(c, b). (c, True)) (at_notifies a)\<rparr>)"

definition attach :: "Attached \<Rightarrow> u64 \<Rightarrow> GoProBleCamera \<Rightarrow> GoProBleCamera \<times> bool" where
  "attach a now cam =
     (case query_statuses [kBusyStatusId, kEncodingStatusId] now (bind_link a cam) of
        (cam, Inl e) \<Rightarrow> (cam, True)
      | (cam, Inr fut) \<Rightarrow> (cam\<lparr>gc_watch := True\<rparr>, False))"

text \<open>
  \<open>_detach\<close>. Both loops wait after each element, and moving an iterator on throws if the collection
  has changed since the iterator was made: the length of a list, any change of a map. The other
  activity may be in its own \<open>_detach\<close> at the same time.
\<close>

datatype Detached = DetachAwaits DetachPc | DetachDone | DetachThrows

definition detach_end :: "GoProBleCamera \<Rightarrow> GoProBleCamera" where
  "detach_end cam = cam\<lparr>gc_writes := [], gc_notifies := 0,
     gc_modified := (if gc_notifies cam = 0 then gc_modified cam else Suc (gc_modified cam))\<rparr>"

definition detach_stops :: "nat \<Rightarrow> nat \<Rightarrow> GoProBleCamera \<Rightarrow> GoProBleCamera \<times> Detached" where
  "detach_stops j m cam =
     (if gc_modified cam \<noteq> m then (cam, DetachThrows)
      else if j < gc_notifies cam then (cam, DetachAwaits (DetachStop (Suc j) m))
      else (detach_end cam, DetachDone))"

definition detach_subs :: "bool \<Rightarrow> nat \<Rightarrow> nat \<Rightarrow> GoProBleCamera \<Rightarrow> GoProBleCamera \<times> Detached" where
  "detach_subs stopNotify i n cam =
     (if length (gc_subs cam) \<noteq> n then (cam, DetachThrows)
      else if i < n then
        (cam\<lparr>gc_subs := (gc_subs cam)[i := (fst (gc_subs cam ! i), False)]\<rparr>, DetachAwaits (DetachSub (Suc i) n))
      else
        (let cam = cam\<lparr>gc_subs := []\<rparr>
         in if stopNotify then detach_stops 0 (gc_modified cam) cam else (detach_end cam, DetachDone)))"

definition detach_start :: "bool \<Rightarrow> GoProBleCamera \<Rightarrow> GoProBleCamera \<times> Detached" where
  "detach_start stopNotify cam = detach_subs stopNotify 0 (length (gc_subs cam)) cam"

fun detach_resume :: "bool \<Rightarrow> DetachPc \<Rightarrow> GoProBleCamera \<Rightarrow> GoProBleCamera \<times> Detached" where
  "detach_resume stopNotify (DetachSub i n) cam = detach_subs stopNotify i n cam"
| "detach_resume stopNotify (DetachStop j m) cam = detach_stops j m cam"

text \<open>
  \<open>close\<close> up to its first \<open>await\<close>, and the pieces that follow. The two cancellations of \<open>_watch\<close> are one
  piece, and so is an \<open>await\<close> of \<open>_detach\<close> with its end: nothing else changes that list or looks at it
  in between, so this only makes the number of pieces smaller.
\<close>

definition close_begin :: "GoProBleCamera \<Rightarrow> GoProBleCamera \<times> CamOut list" where
  "close_begin cam =
     (if gc_state cam = LinkDown then (cam, [])
      else
        (let (cam, out) = set_state LinkDown cam
         in (cam\<lparr>gc_ticker := False, gc_closing := CloseWatch\<rparr>, out)))"

definition close_detach :: "GoProBleCamera \<times> Detached \<Rightarrow> GoProBleCamera \<times> CamOut list" where
  "close_detach d =
     (case d of
        (cam, DetachAwaits pc) \<Rightarrow> (cam\<lparr>gc_closing := CloseDetach pc\<rparr>, [])
      | (cam, DetachDone) \<Rightarrow> (cam\<lparr>gc_closing := CloseDrain\<rparr>, [])
      | (cam, DetachThrows) \<Rightarrow> (cam\<lparr>gc_closing := CloseFailed\<rparr>, [CloseThrew]))"

definition close_next :: "GoProBleCamera \<Rightarrow> GoProBleCamera \<times> CamOut list" where
  "close_next cam =
     (case gc_closing cam of
        CloseWatch \<Rightarrow> close_detach (detach_start True (on_session gopro_ble_disconnect (cam\<lparr>gc_watch := False\<rparr>)))
      | CloseDetach pc \<Rightarrow> close_detach (detach_resume True pc cam)
      | CloseDrain \<Rightarrow>
          (let (cam, out) = resolve_pending cam;
               cam = on_session gopro_ble_destroy cam
           in (cam\<lparr>gc_link := None, gc_events := [], gc_closing := Closed\<rparr>, out))
      | _ \<Rightarrow> (cam, []))"

text \<open>\<open>_onDrop\<close> up to its first \<open>await\<close>, and the pieces up to the climb. Nobody awaits it.\<close>

definition drop_detach :: "GoProBleCamera \<times> Detached \<Rightarrow> GoProBleCamera \<times> CamOut list" where
  "drop_detach d =
     (case d of
        (cam, DetachAwaits pc) \<Rightarrow> (cam\<lparr>gc_dropping := DropDetach pc\<rparr>, [])
      | (cam, DetachDone) \<Rightarrow> (cam\<lparr>gc_dropping := DropResolve\<rparr>, [])
      | (cam, DetachThrows) \<Rightarrow> (cam\<lparr>gc_dropping := NoDrop\<rparr>, [Uncaught]))"

definition drop_begin :: "GoProBleCamera \<Rightarrow> GoProBleCamera \<times> CamOut list" where
  "drop_begin cam =
     (if gc_state cam \<noteq> LinkIsUp then (cam, [])
      else if \<not> gc_reconnect cam then
        (let out = add_fault LinkLost cam; (cam, out') = close_begin cam in (cam, out @ out'))
      else
        (let (cam, out) = set_state LinkReconnecting cam;
             out' = add_fault LinkLost cam;
             (cam, out'') = drop_detach (detach_start False (on_session gopro_ble_disconnect cam))
         in (cam, out @ out' @ out'')))"

definition drop_next :: "GoProBleCamera \<Rightarrow> GoProBleCamera \<times> CamOut list" where
  "drop_next cam =
     (case gc_dropping cam of
        DropDetach pc \<Rightarrow> drop_detach (detach_resume False pc cam)
      | DropResolve \<Rightarrow> (let (cam, out) = resolve_pending cam in (cam\<lparr>gc_dropping := DropClimb\<rparr>, out))
      | _ \<Rightarrow> (cam, []))"

text \<open>Every turn of the climb consults the link machine through its handle.\<close>

definition climb :: "LinkObservation \<Rightarrow> u64 \<Rightarrow> GoProBleCamera \<Rightarrow> GoProBleCamera" where
  "climb obs now cam =
     (if gc_dropping cam \<noteq> DropClimb then cam
      else case gc_link cam of
             None \<Rightarrow> cam\<lparr>gc_use_after_free := True\<rparr>
           | Some l \<Rightarrow> cam\<lparr>gc_link := fst (dart_link_update (Some l) obs now)\<rparr>)"

text \<open>A call of BlueZ that fails is noted in the machine.\<close>

definition climb_failed :: "u64 \<Rightarrow> GoProBleCamera \<Rightarrow> GoProBleCamera" where
  "climb_failed now cam =
     (if gc_dropping cam \<noteq> DropClimb then cam
      else case gc_link cam of
             None \<Rightarrow> cam\<lparr>gc_use_after_free := True\<rparr>
           | Some l \<Rightarrow> cam\<lparr>gc_link := gopro_link_note_failure (Some l) now\<rparr>)"

text \<open>How the climb ends: with a link to attach to, or with an exception.\<close>

definition climb_done :: "Attached option \<Rightarrow> u64 \<Rightarrow> GoProBleCamera \<Rightarrow> GoProBleCamera \<times> CamOut list" where
  "climb_done result now cam =
     (if gc_dropping cam \<noteq> DropClimb then (cam, [])
      else
        (let cam = cam\<lparr>gc_dropping := NoDrop\<rparr>;
             (cam, threw) = (case result of None \<Rightarrow> (cam, True) | Some a \<Rightarrow> attach a now cam)
         in if threw then
              (let out = add_fault BringUpFailed cam in
               if out = [Uncaught] then (cam, out)
               else (let (cam, out') = close_begin cam in (cam, out @ out')))
            else set_state LinkIsUp cam))"

section \<open>The event loop\<close>

datatype CamLabel =
    CSend BleChannel "int list" "Priority option" u64
  | CSendProtobuf int int "int list" BleChannel Priority u64
  | CNotify BleChannel bytes u64
  | CEvent
  | CTick bool u64
  | CDrop
  | CDropNext
  | CClimb LinkObservation u64
  | CClimbFailed u64
  | CClimbDone "Attached option" u64
  | CWriteFailed
  | CClose
  | CCloseNext

fun cam_step :: "GoProBleCamera \<Rightarrow> CamLabel \<Rightarrow> GoProBleCamera \<times> CamOut list" where
  "cam_step cam (CSend channel payload priority now) = (fst (camera_send channel payload priority now cam), [])"
| "cam_step cam (CSendProtobuf f a m channel priority now) =
     (fst (camera_send_protobuf f a m channel priority now cam), [])"
| "cam_step cam (CNotify channel bs now) =
     (if (channel, True) \<in> set (gc_subs cam) then (on_session (bindings_feed channel bs now) cam, []) else (cam, []))"
| "cam_step cam CEvent =
     (case gc_events cam of [] \<Rightarrow> (cam, []) | m # ms \<Rightarrow> on_event m (cam\<lparr>gc_events := ms\<rparr>))"
| "cam_step cam (CTick connected now) =
     (if gc_ticker cam then
        (let cam = on_session (\<lambda>h. gopro_ble_tick h now) cam in
         if gc_state cam = LinkIsUp \<and> \<not> connected then drop_begin cam else (cam, []))
      else (cam, []))"
| "cam_step cam CDrop = (if gc_watch cam then drop_begin cam else (cam, []))"
| "cam_step cam CDropNext = drop_next cam"
| "cam_step cam (CClimb obs now) = (climb obs now cam, [])"
| "cam_step cam (CClimbFailed now) = (climb_failed now cam, [])"
| "cam_step cam (CClimbDone result now) = climb_done result now cam"
| "cam_step cam CWriteFailed = (cam, if gc_closing cam = Closed then [] else [OnFault WriteFailed])"
| "cam_step cam CClose = close_begin cam"
| "cam_step cam CCloseNext = close_next cam"

text \<open>
  \<open>connect\<close> once bring-up has returned: a new session and camera, the first attach, and the ticker. The
  attach of a new camera does not throw (\<open>fresh_attach\<close> in \<open>Ble_Camera\<close>), so its second result is not
  used; and the body of \<open>_attach\<close> waits for nothing, so what follows \<open>await camera._attach\<close> runs in the
  same turn of the event loop, before any event that could reach the new subscriptions.
\<close>

definition fresh_camera :: "LinkContext \<Rightarrow> i64 \<Rightarrow> u32 \<Rightarrow> bool \<Rightarrow> GoProBleCamera" where
  "fresh_camera link port keep_alive reconnect =
     \<lparr>gc_session = gopro_ble_create port keep_alive 0 0, gc_link = Some link, gc_events = [],
      gc_writes = [], gc_subs = [], gc_notifies = 0, gc_modified = 0, gc_watch = False, gc_ticker = False, gc_pending = [], gc_next = 0,
      gc_state = LinkIsUp, gc_reconnect = reconnect, gc_dropping = NoDrop, gc_closing = NotClosing,
      gc_use_after_free = False\<rparr>"

definition camera_connect :: "LinkContext \<Rightarrow> i64 \<Rightarrow> u32 \<Rightarrow> bool \<Rightarrow> Attached \<Rightarrow> u64 \<Rightarrow> GoProBleCamera" where
  "camera_connect link port keep_alive reconnect a now =
     (let (cam, threw) = attach a now (fresh_camera link port keep_alive reconnect)
      in cam\<lparr>gc_ticker := True\<rparr>)"

lemmas transport_defs = set_state_def add_fault_def resolve_pending_def close_begin_def
  close_next_def drop_begin_def drop_next_def climb_def climb_failed_def

lemmas detach_defs = detach_start_def detach_subs_def detach_stops_def detach_end_def

end
