(* ===== verification/Ble_Camera.thy ===== *)
theory Ble_Camera
  imports Ble_Transport
begin

text \<open>
  What the camera of \<open>Ble_Transport\<close> promises its caller: every future it hands out is completed
  exactly once; while the link is up every pending command is known to the native side or its
  answer is under way in the receive port; a close settles everything; and without
  reconnection no freed handle is used. Two lemmas record what reconnection really does.
\<close>

section \<open>Futures\<close>

definition keys_ok :: "GoProBleCamera \<Rightarrow> bool" where
  "keys_ok cam \<longleftrightarrow> distinct (map fst (gc_pending cam))"

definition held :: "nat \<Rightarrow> GoProBleCamera \<Rightarrow> nat" where
  "held f cam = length (filter (\<lambda>(i, g). g = f) (gc_pending cam))"

definition made :: "nat \<Rightarrow> GoProBleCamera \<Rightarrow> nat" where
  "made f cam = of_bool (f < gc_next cam)"

fun completes :: "nat \<Rightarrow> CamOut \<Rightarrow> bool" where
  "completes f (Complete g i outcome payload) \<longleftrightarrow> g = f"
| "completes f _ \<longleftrightarrow> False"

definition completions :: "nat \<Rightarrow> CamOut list \<Rightarrow> nat" where
  "completions f out = length (filter (completes f) out)"

lemma completions_simps [simp]:
  "completions f [] = 0" "completions f (xs @ ys) = completions f xs + completions f ys"
  "completions f (x # xs) = of_bool (completes f x) + completions f xs"
  by (simp_all add: completions_def)

text \<open>A step that leaves the pending commands alone and completes nothing.\<close>

definition quiet :: "GoProBleCamera \<Rightarrow> GoProBleCamera \<times> CamOut list \<Rightarrow> bool" where
  "quiet cam r \<longleftrightarrow> gc_pending (fst r) = gc_pending cam \<and> gc_next (fst r) = gc_next cam \<and>
     (\<forall>f. completions f (snd r) = 0)"

definition conserves :: "GoProBleCamera \<Rightarrow> GoProBleCamera \<times> CamOut list \<Rightarrow> bool" where
  "conserves cam r \<longleftrightarrow> (keys_ok cam \<longrightarrow> keys_ok (fst r) \<and>
     (\<forall>f. completions f (snd r) + held f (fst r) + made f cam = held f cam + made f (fst r)))"

lemma quiet_conserves: "quiet cam r \<Longrightarrow> conserves cam r"
  by (simp add: quiet_def conserves_def keys_ok_def held_def made_def)

lemma conserves_cong:
  "gc_pending cam = gc_pending cam' \<Longrightarrow> gc_next cam = gc_next cam' \<Longrightarrow> gc_pending (fst r) = gc_pending (fst r') \<Longrightarrow>
   gc_next (fst r) = gc_next (fst r') \<Longrightarrow> snd r = snd r' \<Longrightarrow> conserves cam' r' \<Longrightarrow> conserves cam r"
  by (simp add: conserves_def keys_ok_def held_def made_def)

lemma on_session_frame [simp]:
  "gc_pending (on_session call cam) = gc_pending cam" "gc_next (on_session call cam) = gc_next cam"
  "gc_state (on_session call cam) = gc_state cam" "gc_closing (on_session call cam) = gc_closing cam"
  "gc_dropping (on_session call cam) = gc_dropping cam" "gc_reconnect (on_session call cam) = gc_reconnect cam"
  "gc_ticker (on_session call cam) = gc_ticker cam" "gc_watch (on_session call cam) = gc_watch cam"
  "gc_notifies (on_session call cam) = gc_notifies cam" "gc_modified (on_session call cam) = gc_modified cam"
  "gc_subs (on_session call cam) = gc_subs cam" "gc_link (on_session call cam) = gc_link cam"
  by (simp_all add: on_session_def split: option.splits prod.splits)

text \<open>A detach touches the subscriptions and the maps of characteristics only.\<close>

lemma detach_stops_frame:
  "gc_pending (fst (detach_stops j m cam)) = gc_pending cam" "gc_next (fst (detach_stops j m cam)) = gc_next cam"
  "gc_state (fst (detach_stops j m cam)) = gc_state cam" "gc_closing (fst (detach_stops j m cam)) = gc_closing cam"
  "gc_dropping (fst (detach_stops j m cam)) = gc_dropping cam" "gc_reconnect (fst (detach_stops j m cam)) = gc_reconnect cam"
  "gc_ticker (fst (detach_stops j m cam)) = gc_ticker cam" "gc_session (fst (detach_stops j m cam)) = gc_session cam"
  "gc_link (fst (detach_stops j m cam)) = gc_link cam" "gc_events (fst (detach_stops j m cam)) = gc_events cam"
  "gc_use_after_free (fst (detach_stops j m cam)) = gc_use_after_free cam"
  by (simp_all add: detach_defs)

lemma detach_subs_frame:
  "gc_pending (fst (detach_subs b i n cam)) = gc_pending cam" "gc_next (fst (detach_subs b i n cam)) = gc_next cam"
  "gc_state (fst (detach_subs b i n cam)) = gc_state cam" "gc_closing (fst (detach_subs b i n cam)) = gc_closing cam"
  "gc_dropping (fst (detach_subs b i n cam)) = gc_dropping cam" "gc_reconnect (fst (detach_subs b i n cam)) = gc_reconnect cam"
  "gc_ticker (fst (detach_subs b i n cam)) = gc_ticker cam" "gc_session (fst (detach_subs b i n cam)) = gc_session cam"
  "gc_link (fst (detach_subs b i n cam)) = gc_link cam" "gc_events (fst (detach_subs b i n cam)) = gc_events cam"
  "gc_use_after_free (fst (detach_subs b i n cam)) = gc_use_after_free cam"
  by (simp_all add: detach_subs_def Let_def detach_stops_frame detach_end_def)

lemma detach_resume_cases:
  obtains (subs) i n where "detach_resume b pc cam = detach_subs b i n cam" | (stops) j m where "detach_resume b pc cam = detach_stops j m cam"
  by (cases pc) auto

lemma detach_frame [simp]:
  "gc_pending (fst (detach_start b cam)) = gc_pending cam" "gc_next (fst (detach_start b cam)) = gc_next cam"
  "gc_state (fst (detach_start b cam)) = gc_state cam" "gc_closing (fst (detach_start b cam)) = gc_closing cam"
  "gc_dropping (fst (detach_start b cam)) = gc_dropping cam" "gc_reconnect (fst (detach_start b cam)) = gc_reconnect cam"
  "gc_ticker (fst (detach_start b cam)) = gc_ticker cam" "gc_session (fst (detach_start b cam)) = gc_session cam"
  "gc_link (fst (detach_start b cam)) = gc_link cam" "gc_events (fst (detach_start b cam)) = gc_events cam"
  "gc_use_after_free (fst (detach_start b cam)) = gc_use_after_free cam"
  "gc_pending (fst (detach_resume b pc cam)) = gc_pending cam" "gc_next (fst (detach_resume b pc cam)) = gc_next cam"
  "gc_state (fst (detach_resume b pc cam)) = gc_state cam" "gc_closing (fst (detach_resume b pc cam)) = gc_closing cam"
  "gc_dropping (fst (detach_resume b pc cam)) = gc_dropping cam" "gc_reconnect (fst (detach_resume b pc cam)) = gc_reconnect cam"
  "gc_ticker (fst (detach_resume b pc cam)) = gc_ticker cam" "gc_session (fst (detach_resume b pc cam)) = gc_session cam"
  "gc_link (fst (detach_resume b pc cam)) = gc_link cam" "gc_events (fst (detach_resume b pc cam)) = gc_events cam"
  "gc_use_after_free (fst (detach_resume b pc cam)) = gc_use_after_free cam"
  by (simp_all add: detach_start_def detach_subs_frame) (cases pc; simp add: detach_subs_frame detach_stops_frame)+

text \<open>What \<open>close\<close> and \<open>_onDrop\<close> do with the result of it, besides going on.\<close>

lemma close_detach_frame [simp]:
  "gc_pending (fst (close_detach d)) = gc_pending (fst d)" "gc_next (fst (close_detach d)) = gc_next (fst d)"
  "gc_state (fst (close_detach d)) = gc_state (fst d)" "gc_dropping (fst (close_detach d)) = gc_dropping (fst d)"
  "gc_reconnect (fst (close_detach d)) = gc_reconnect (fst d)" "gc_ticker (fst (close_detach d)) = gc_ticker (fst d)"
  "gc_session (fst (close_detach d)) = gc_session (fst d)" "gc_link (fst (close_detach d)) = gc_link (fst d)"
  "gc_events (fst (close_detach d)) = gc_events (fst d)" "gc_use_after_free (fst (close_detach d)) = gc_use_after_free (fst d)"
  "gc_subs (fst (close_detach d)) = gc_subs (fst d)" "gc_notifies (fst (close_detach d)) = gc_notifies (fst d)"
  "gc_modified (fst (close_detach d)) = gc_modified (fst d)"
  "gc_closing (fst (close_detach d)) =
     (case snd d of DetachAwaits pc \<Rightarrow> CloseDetach pc | DetachDone \<Rightarrow> CloseDrain | DetachThrows \<Rightarrow> CloseFailed)"
  "snd (close_detach d) = (if snd d = DetachThrows then [CloseThrew] else [])"
  by (simp_all add: close_detach_def split: prod.splits Detached.splits)

lemma drop_detach_frame [simp]:
  "gc_pending (fst (drop_detach d)) = gc_pending (fst d)" "gc_next (fst (drop_detach d)) = gc_next (fst d)"
  "gc_state (fst (drop_detach d)) = gc_state (fst d)" "gc_closing (fst (drop_detach d)) = gc_closing (fst d)"
  "gc_reconnect (fst (drop_detach d)) = gc_reconnect (fst d)" "gc_ticker (fst (drop_detach d)) = gc_ticker (fst d)"
  "gc_session (fst (drop_detach d)) = gc_session (fst d)" "gc_link (fst (drop_detach d)) = gc_link (fst d)"
  "gc_events (fst (drop_detach d)) = gc_events (fst d)" "gc_use_after_free (fst (drop_detach d)) = gc_use_after_free (fst d)"
  "gc_subs (fst (drop_detach d)) = gc_subs (fst d)"
  "gc_dropping (fst (drop_detach d)) =
     (case snd d of DetachAwaits pc \<Rightarrow> DropDetach pc | DetachDone \<Rightarrow> DropResolve | DetachThrows \<Rightarrow> NoDrop)"
  "snd (drop_detach d) = (if snd d = DetachThrows then [Uncaught] else [])"
  by (simp_all add: drop_detach_def split: prod.splits Detached.splits)

lemma send_as_conserves:
  "conserves cam (fst (send_as i call cam), [])"
proof (cases "snd (send_as i call cam)")
  case (Inl e)
  then have "quiet cam (fst (send_as i call cam), [])"
    by (auto simp: send_as_def quiet_def Let_def split: if_splits option.splits prod.splits)
  then show ?thesis by (rule quiet_conserves)
next
  case (Inr f)
  then have "i \<notin> fst ` set (gc_pending cam)"
    "gc_pending (fst (send_as i call cam)) = gc_pending cam @ [(i, gc_next cam)]"
    "gc_next (fst (send_as i call cam)) = Suc (gc_next cam)"
    by (auto simp: send_as_def Let_def split: if_splits option.splits prod.splits)
  then show ?thesis by (auto simp: conserves_def keys_ok_def held_def made_def less_Suc_eq)
qed

lemma send_conserves:
  "conserves cam (fst (camera_send c p pr now cam), [])"
  "conserves cam (fst (camera_send_protobuf ft a m c pr' now cam), [])"
  by (auto simp: camera_send_def camera_send_protobuf_def Let_def send_as_conserves quiet_conserves quiet_def)

lemma resolve_conserves: "conserves cam (resolve_pending cam)"
proof -
  have "completions f (map (\<lambda>(i, g). Complete g i kCanceled []) ps) = length (filter (\<lambda>(i, g). g = f) ps)" for f and ps :: "(int \<times> nat) list"
    by (induction ps) auto
  then show ?thesis by (simp add: conserves_def resolve_pending_def keys_ok_def held_def made_def)
qed

lemma conserves_then:
  assumes "conserves cam r" "quiet (fst r) r'"
  shows "conserves cam (fst r', snd r @ snd r')" "conserves cam (fst r', snd r' @ snd r)"
  using assms by (auto simp: conserves_def quiet_def keys_ok_def held_def made_def)

lemma distinct_key_split:
  "distinct (map fst ps) \<Longrightarrow> map_of ps i = Some f \<Longrightarrow>
   length (filter (\<lambda>(j, g). g = x) ps) = of_bool (f = x) + length (filter (\<lambda>(j, g). g = x) (filter (\<lambda>(j, g). j \<noteq> i) ps))"
proof (induction ps)
  case (Cons p ps)
  obtain j g where p: "p = (j, g)" by (cases p)
  show ?case
  proof (cases "j = i")
    case True
    then have "filter (\<lambda>(j, g). j \<noteq> i) ps = ps" using Cons.prems(1) p by (force simp: filter_id_conv)
    then show ?thesis using Cons.prems True p by auto
  next
    case False
    then show ?thesis using Cons p by auto
  qed
qed simp

lemma on_event_conserves: "conserves cam (on_event m cam)"
proof (cases "Option.bind (as_uint8list m) ble_decode")
  case None
  then show ?thesis
    by (auto simp: on_event_def intro!: quiet_conserves split: option.splits) (simp_all add: quiet_def)
next
  case (Some e)
  then have e: "on_event m cam = (case e of
      BleResponse i outcome payload \<Rightarrow>
        (case map_of (gc_pending cam) (sint i) of None \<Rightarrow> (cam, [])
         | Some fut \<Rightarrow> (cam\<lparr>gc_pending := filter (\<lambda>(j, f). j \<noteq> sint i) (gc_pending cam)\<rparr>, [Complete fut (sint i) outcome payload]))
      | _ \<Rightarrow> on_event m cam)"
    by (auto simp: on_event_def bind_eq_Some_conv split: BleEvent.splits)
  show ?thesis
  proof (cases "\<exists>i outcome payload fut. e = BleResponse i outcome payload \<and> map_of (gc_pending cam) (sint i) = Some fut")
    case True
    then obtain i outcome payload fut where r: "e = BleResponse i outcome payload" "map_of (gc_pending cam) (sint i) = Some fut"
      by blast
    have "conserves cam (cam\<lparr>gc_pending := filter (\<lambda>(j, f). j \<noteq> sint i) (gc_pending cam)\<rparr>, [Complete fut (sint i) outcome payload])"
      using distinct_key_split [OF _ r(2)]
      by (auto simp: conserves_def keys_ok_def held_def made_def distinct_map_filter)
    then show ?thesis using e r by simp
  next
    case False
    then have "quiet cam (on_event m cam)" using Some
      by (auto simp: on_event_def quiet_def bind_eq_Some_conv split: BleEvent.splits option.splits)
    then show ?thesis by (rule quiet_conserves)
  qed
qed

lemma close_begin_quiet: "quiet cam (close_begin cam)"
  by (auto simp: quiet_def close_begin_def set_state_def Let_def)

lemma drop_begin_quiet: "quiet cam (drop_begin cam)"
  by (auto simp: quiet_def drop_begin_def close_begin_def set_state_def add_fault_def Let_def split_beta)

abbreviation linked :: "Attached \<Rightarrow> GoProBleCamera \<Rightarrow> GoProBleCamera" where
  "linked a cam \<equiv> cam\<lparr>gc_writes := at_writes a, gc_notifies := length (at_notifies a), gc_modified := Suc (gc_modified cam)\<rparr>"

lemma bind_link_frame [simp]:
  "gc_pending (bind_link a cam) = gc_pending cam" "gc_next (bind_link a cam) = gc_next cam"
  "gc_state (bind_link a cam) = gc_state cam" "gc_closing (bind_link a cam) = gc_closing cam"
  "gc_dropping (bind_link a cam) = gc_dropping cam" "gc_reconnect (bind_link a cam) = gc_reconnect cam"
  "gc_ticker (bind_link a cam) = gc_ticker cam" "gc_link (bind_link a cam) = gc_link cam"
  by (simp_all add: bind_link_def Let_def)

lemma fst_attach: "fst (attach a now cam) = (case query_statuses [kBusyStatusId, kEncodingStatusId] now (bind_link a cam) of
      (cam, Inl e) \<Rightarrow> cam | (cam, Inr fut) \<Rightarrow> cam\<lparr>gc_watch := True\<rparr>)"
  by (simp add: attach_def split: prod.splits sum.splits)

lemma attach_conserves: "conserves cam (fst (attach a now cam), [])"
proof -
  have "conserves (bind_link a cam) (fst (query_statuses [kBusyStatusId, kEncodingStatusId] now (bind_link a cam)), [])"
    by (simp add: query_statuses_def send_conserves)
  then show ?thesis
    by (rule conserves_cong [rotated 5]) (simp_all add: fst_attach split: prod.splits sum.splits)
qed

lemma close_next_conserves: "conserves cam (close_next cam)"
proof (cases "gc_closing cam")
  case CloseDrain
  have "quiet (fst (resolve_pending cam))
      ((on_session gopro_ble_destroy (fst (resolve_pending cam)))\<lparr>gc_link := None, gc_events := [], gc_closing := Closed\<rparr>, [])"
    by (simp add: quiet_def)
  from conserves_then(1) [OF resolve_conserves this] show ?thesis
    by (simp add: close_next_def CloseDrain Let_def split_beta)
qed (auto simp: close_next_def quiet_def intro!: quiet_conserves)

lemma drop_next_conserves: "conserves cam (drop_next cam)"
proof (cases "gc_dropping cam")
  case DropResolve
  have "quiet (fst (resolve_pending cam)) ((fst (resolve_pending cam))\<lparr>gc_dropping := DropClimb\<rparr>, [])"
    by (simp add: quiet_def)
  from conserves_then(1) [OF resolve_conserves this] show ?thesis by (simp add: drop_next_def DropResolve split_beta)
qed (auto simp: drop_next_def quiet_def intro!: quiet_conserves)

lemma climb_done_conserves: "conserves cam (climb_done result now cam)"
proof (cases "gc_dropping cam = DropClimb")
  case True
  define r where "r = (case result of None \<Rightarrow> (cam\<lparr>gc_dropping := NoDrop\<rparr>, True)
    | Some a \<Rightarrow> attach a now (cam\<lparr>gc_dropping := NoDrop\<rparr>))"
  have "conserves (cam\<lparr>gc_dropping := NoDrop\<rparr>) (fst r, [])"
    using attach_conserves by (auto simp: r_def quiet_def intro!: quiet_conserves split: option.splits)
  then have "conserves cam (fst r, [])" by (simp add: conserves_def keys_ok_def held_def made_def)
  moreover have "\<exists>r'. quiet (fst r) r' \<and> climb_done result now cam = r'"
    using close_begin_quiet [of "fst r"] True
    by (auto simp: climb_done_def r_def [symmetric] Let_def split_beta quiet_def add_fault_def set_state_def
        split: if_splits)
  ultimately show ?thesis using conserves_then(1) [of cam "(fst r, [])"] by fastforce
qed (auto simp: climb_done_def quiet_def intro!: quiet_conserves)

lemma cam_step_conserves: "conserves cam (cam_step cam l)"
proof (cases l)
  case (CTick connected now)
  then show ?thesis using drop_begin_quiet [of "on_session (\<lambda>h. gopro_ble_tick h now) cam"]
    by (auto simp: Let_def quiet_def intro!: quiet_conserves)
next
  case CEvent
  have "conserves cam (on_event m (cam\<lparr>gc_events := ms\<rparr>))" for m ms
    using on_event_conserves [of "cam\<lparr>gc_events := ms\<rparr>" m]
    by (simp add: conserves_def keys_ok_def held_def made_def)
  then show ?thesis using CEvent by (auto simp: quiet_def intro!: quiet_conserves split: list.splits)
next
  case (CClimb obs now)
  then show ?thesis by (auto simp: climb_def quiet_def intro!: quiet_conserves split: option.splits)
next
  case (CClimbFailed now)
  then show ?thesis by (auto simp: climb_failed_def quiet_def intro!: quiet_conserves split: option.splits)
qed (auto simp: send_conserves close_next_conserves drop_next_conserves climb_done_conserves
    intro!: quiet_conserves close_begin_quiet drop_begin_quiet, simp_all add: quiet_def)

lemma connect_keys: "keys_ok (camera_connect link port ka rc a now)"
  and connect_held: "held f (camera_connect link port ka rc a now) = made f (camera_connect link port ka rc a now)"
  using attach_conserves [of "fresh_camera link port ka rc" a now]
  by (simp_all add: camera_connect_def fresh_camera_def split_beta conserves_def keys_ok_def held_def made_def)

interpretation camera_flow: flow_machine cam_step "camera_connect link port ka rc a now" keys_ok "held f" "made f"
    "completions f" for link port ka rc a now f
  using cam_step_conserves connect_keys connect_held
  by unfold_locales (simp_all add: conserves_def)

section \<open>Pending commands are accounted for\<close>

definition is_answer :: "CorrelationId \<Rightarrow> Dart_CObject \<Rightarrow> bool" where
  "is_answer i m \<longleftrightarrow> (case Option.bind (as_uint8list m) ble_decode of
     Some (BleResponse j outcome payload) \<Rightarrow> j = i | _ \<Rightarrow> False)"

definition answers :: "CorrelationId \<Rightarrow> Dart_CObject list \<Rightarrow> nat" where
  "answers i ms = length (filter (is_answer i) ms)"

definition waiting :: "CorrelationId \<Rightarrow> GoProBleCamera \<Rightarrow> nat" where
  "waiting i cam = length (filter (\<lambda>(j, f). j = sint i) (gc_pending cam))"

lemma answers_simps [simp]:
  "answers i [] = 0" "answers i (xs @ ys) = answers i xs + answers i ys"
  "answers i (m # ms) = of_bool (is_answer i m) + answers i ms"
  by (simp_all add: answers_def)

lemma sint_eq_iff: "sint i = sint j \<longleftrightarrow> i = j" for i j :: CorrelationId
  by (metis of_int_sint scast_id)

lemma is_answer_encoded: "is_answer i (post_object (encode_event e)) \<longleftrightarrow> answer_to i e"
  by (cases e) (simp_all add: is_answer_def decode_encode del: encode_event.simps)

lemma answers_posted: "i \<noteq> keep_alive_id \<Longrightarrow> answers i (map (post_object \<circ> snd) (post_events port evs)) = s_settles i evs"
  by (simp add: answers_def post_events_def s_settles_def comp_def filter_map is_answer_encoded)

text \<open>The account of one id: what Dart waits for is what the session owes or has answered.\<close>

definition backed :: "GoProBleCamera \<Rightarrow> bool" where
  "backed cam \<longleftrightarrow> (case gc_session cam of None \<Rightarrow> False
     | Some ctx \<Rightarrow> s_live (bc_session ctx) \<and>
        (\<forall>i. i \<noteq> keep_alive_id \<longrightarrow> waiting i cam = s_owed i (bc_session ctx) + answers i (gc_events cam)))"

text \<open>The camera after an operation of its session.\<close>

definition stepped :: "GoProBleCamera \<Rightarrow> BleContext \<Rightarrow> SOp \<Rightarrow> GoProBleCamera" where
  "stepped cam ctx sop = (let (s, evs) = s_step (bc_session ctx) sop in
     cam\<lparr>gc_session := Some (ctx\<lparr>bc_session := s\<rparr>),
         gc_events := gc_events cam @ map (post_object \<circ> snd) (post_events (events_port ctx) evs)\<rparr>)"

lemma on_session_b_step:
  "gc_session cam = Some ctx \<Longrightarrow> on_session (\<lambda>h. b_step h op) cam =
     (case sop_of op of None \<Rightarrow> cam | Some sop \<Rightarrow> stepped cam ctx sop)"
  by (cases "sop_of op") (simp_all add: on_session_def b_step_some stepped_def Let_def split_beta)

lemma s_live_step: "s_live s \<Longrightarrow> s_live (fst (s_step s op))"
  by (simp add: s_live_def s_step_inv)

lemma stepped_backed:
  assumes "gc_session cam = Some ctx" "s_live (bc_session ctx)"
    and "\<And>i. i \<noteq> keep_alive_id \<Longrightarrow> waiting i cam' =
       s_owed i (bc_session ctx) + answers i (gc_events cam) + s_takes i sop"
    and "gc_session cam' = gc_session (stepped cam ctx sop)" "gc_events cam' = gc_events (stepped cam ctx sop)"
  shows "backed cam'"
proof -
  let ?s = "bc_session ctx"
  have "s_settles i (snd (s_step ?s sop)) + s_owed i (fst (s_step ?s sop)) = s_owed i ?s + s_takes i sop" for i
    using assms(2) by (intro s_step_balance) (simp add: s_live_def)
  with assms s_live_step [OF assms(2), of sop] show ?thesis
    by (auto simp: backed_def stepped_def Let_def split_beta answers_posted algebra_simps)
qed

lemma stepped_frame [simp]:
  "gc_pending (stepped cam ctx sop) = gc_pending cam" "waiting i (stepped cam ctx sop) = waiting i cam"
  by (simp_all add: stepped_def Let_def waiting_def split_beta)

text \<open>An operation of the session that takes no command in keeps the account.\<close>

lemma on_session_backed:
  assumes "backed cam" "pred_option (\<lambda>sop. \<forall>i. s_takes i sop = 0) (sop_of op)"
  shows "backed (on_session (\<lambda>h. b_step h op) cam)"
proof -
  obtain ctx where ctx: "gc_session cam = Some ctx" using assms(1) by (auto simp: backed_def split: option.splits)
  show ?thesis
  proof (cases "sop_of op")
    case (Some sop)
    have "backed (stepped cam ctx sop)"
      using assms Some
      by (intro stepped_backed [OF ctx, of _ sop]) (auto simp: backed_def ctx)
    then show ?thesis by (simp add: on_session_b_step [OF ctx] Some)
  qed (simp add: on_session_b_step [OF ctx] assms(1))
qed

lemma s_takes_other: "s_takes i (SFeed c p now) = 0" "s_takes i (STick now) = 0" "s_takes i (SSetAttPayload n) = 0"
  by (simp_all add: s_takes_def)

lemma feed_backed: "backed cam \<Longrightarrow> backed (on_session (bindings_feed c bs now) cam)"
proof (cases "bs = []")
  case True
  assume "backed cam"
  then show ?thesis using True
    by (auto simp: backed_def on_session_def bindings_feed_def waiting_def split: option.splits)
next
  case False
  assume "backed cam"
  moreover have "on_session (bindings_feed c bs now) cam =
      on_session (\<lambda>h. b_step h (BFeed (ble_channel_value c) (Some bs) (of_nat (length bs)) now)) cam"
    using False by (simp add: on_session_def bindings_feed_def split: option.splits)
  ultimately show ?thesis using on_session_backed [of cam "BFeed (ble_channel_value c) (Some bs) (of_nat (length bs)) now"]
    by (simp add: s_takes_other)
qed

lemma tick_backed: "backed cam \<Longrightarrow> backed (on_session (\<lambda>h. gopro_ble_tick h now) cam)"
  using on_session_backed [of cam "BTick now"] by (simp add: s_takes_other)

lemma att_backed: "backed cam \<Longrightarrow> backed (on_session (\<lambda>h. (gopro_ble_set_att_payload h n, [])) cam)"
  using on_session_backed [of cam "BSetAttPayload n"] by (simp add: s_takes_other)

lemma duplicate_owed: "s_inv s \<Longrightarrow> duplicate (s_queue s) i \<Longrightarrow> i \<noteq> keep_alive_id \<Longrightarrow> 0 < s_owed i s"
  by (auto simp: s_inv_def q_tokens_def q_all_def duplicate_def is_in_flight_def s_owed_def q_owed_def list_ex_iff
      filter_empty_conv intro!: bexI)

lemma waiting_zero: "sint i \<notin> fst ` set (gc_pending cam) \<Longrightarrow> waiting i cam = 0"
  by (force simp: waiting_def filter_empty_conv)

text \<open>A call that submits the command of id \<open>i\<close>, or does nothing at all.\<close>

definition submits_as :: "CorrelationId \<Rightarrow> (BleContext option \<Rightarrow> BleContext option \<times> DartPost list \<times> bool) \<Rightarrow> bool" where
  "submits_as i call \<longleftrightarrow> (\<forall>ctx. call (Some ctx) = (Some ctx, [], False) \<or>
     (\<exists>sop. (\<forall>j. s_takes j sop = of_bool (j = i \<and> j \<noteq> keep_alive_id)) \<and>
        call (Some ctx) = (let (s, evs) = s_step (bc_session ctx) sop in
          (Some (ctx\<lparr>bc_session := s\<rparr>), post_events (events_port ctx) evs, \<not> duplicate (s_queue (bc_session ctx)) i))))"

lemma send_as_backed:
  assumes "backed cam" "submits_as i call"
  shows "backed (fst (send_as (sint i) call cam))"
proof (cases "sint i \<in> fst ` set (gc_pending cam)")
  case False
  obtain ctx where ctx: "gc_session cam = Some ctx" using assms(1) by (auto simp: backed_def split: option.splits)
  then have live: "s_live (bc_session ctx)" using assms(1) by (simp add: backed_def)
  from assms(2) consider (none) "call (Some ctx) = (Some ctx, [], False)"
    | (sop) sop where "\<And>j. s_takes j sop = of_bool (j = i \<and> j \<noteq> keep_alive_id)"
      "call (Some ctx) = (let (s, evs) = s_step (bc_session ctx) sop in
          (Some (ctx\<lparr>bc_session := s\<rparr>), post_events (events_port ctx) evs, \<not> duplicate (s_queue (bc_session ctx)) i))"
    unfolding submits_as_def by blast
  then show ?thesis
  proof cases
    case none
    then show ?thesis using assms(1) False
      by (auto simp: send_as_def ctx backed_def waiting_def)
  next
    case sop
    let ?cam = "stepped cam ctx sop"
    let ?new = "?cam\<lparr>gc_pending := gc_pending cam @ [(sint i, gc_next cam)], gc_next := gc_next cam + 1\<rparr>"
    have acc: "waiting j cam = s_owed j (bc_session ctx) + answers j (gc_events cam)" if "j \<noteq> keep_alive_id" for j
      using assms(1) that by (simp add: backed_def ctx)
    show ?thesis
    proof (cases "duplicate (s_queue (bc_session ctx)) i")
      case True
      then have "i = keep_alive_id"
        using duplicate_owed [of "bc_session ctx" i] acc [of i] waiting_zero [OF False] live by (auto simp: s_live_def)
      then have "backed ?cam" using acc by (intro stepped_backed [OF ctx live, of _ sop]) (auto simp: sop(1))
      then show ?thesis using True False sop(2) by (simp add: send_as_def ctx stepped_def Let_def split_beta)
    next
      case dup: False
      have "waiting j ?new = waiting j cam + of_bool (j = i)" for j
        by (auto simp: waiting_def sint_eq_iff)
      then have "backed ?new" using acc by (intro stepped_backed [OF ctx live, of _ sop]) (auto simp: sop(1))
      then show ?thesis using dup False sop(2) by (simp add: send_as_def ctx stepped_def Let_def split_beta)
    qed
  qed
qed (simp add: send_as_def assms(1))

text \<open>The two ids agree with the native ones; a leading byte has to be one.\<close>

lemma dart_correlation_native:
  assumes "0 \<le> b" "b < 256"
  shows "dart_correlation_of ch b = sint (correlation_of (ble_channel_value ch) (word_of_int b))"
proof -
  let ?w = "word_of_int b :: u8"
  have w: "uint ?w = b" using assms by (simp add: uint_word_of_int)
  let ?i = "correlation_of (ble_channel_value ch) ?w"
  have high: "\<not> bit ?i n" if "63 \<le> n" for n
    using that by (auto simp: bit_correlation_of dest: bit_u8_lt)
  have "sint ?i = take_bit 63 (uint ?i)"
    using high [of 63] by (simp add: sint_uint signed_take_bit_eq_if_positive bit_uint_iff)
  also have "\<dots> = uint ?i"
    by (rule bit_eqI) (metis bit_take_bit_iff bit_uint_iff high not_le)
  finally have "sint ?i = uint ?i" .
  also have "\<dots> = push_bit 8 (uint (ble_channel_value ch)) OR uint ?w"
  proof -
    have "take_bit 64 (uint ?w) = uint ?w" unfolding w using assms by (simp add: take_bit_int_eq_self)
    then show ?thesis by (cases ch) (simp_all add: correlation_of_def unsigned_or_eq unsigned_ucast_eq)
  qed
  finally show ?thesis by (simp add: dart_correlation_of_def w)
qed

lemma channel_value_ok [simp]: "unat (ble_channel_value ch) < kChannelCount"
  by (cases ch) (simp_all add: kChannelCount_def)

lemma priority_value_ok [simp]: "priority_value pr \<le> 2" "priority_of (priority_value pr) = pr"
  by (cases pr; simp add: priority_of_def)+

lemma channel_priority_in_range [simp]: "(kChannelCount \<le> unat (ble_channel_value ch)) = False" "(2 < priority_value pr) = False"
  by (simp_all add: not_le not_less)

lemma enqueue_accepted: "snd (snd (enqueue s i p pr now)) \<longleftrightarrow> \<not> duplicate (s_queue s) i"
  by (cases "duplicate (s_queue s) i") (simp_all add: enqueue_def submit_duplicate submit_accepted split_beta)

lemma submit_submits_as:
  assumes "payload \<noteq> []"
  shows "submits_as (correlation_of (ble_channel_value ch) (word_of_int (payload ! 0))) (bindings_submit ch payload pr now)"
  unfolding submits_as_def
proof
  fix ctx
  let ?n = "of_nat (length payload) :: i32" and ?p = "native_bytes payload" and ?c = "ble_channel_value ch"
  let ?sop = "SSubmit ?c (span (Some ?p) ?n) pr now"
  let ?i = "correlation_of ?c (word_of_int (payload ! 0))"
  show "bindings_submit ch payload pr now (Some ctx) = (Some ctx, [], False) \<or>
    (\<exists>sop. (\<forall>j. s_takes j sop = of_bool (j = ?i \<and> j \<noteq> keep_alive_id)) \<and>
      bindings_submit ch payload pr now (Some ctx) = (let (s, evs) = s_step (bc_session ctx) sop in
        (Some (ctx\<lparr>bc_session := s\<rparr>), post_events (events_port ctx) evs, \<not> duplicate (s_queue (bc_session ctx)) ?i)))"
  proof (cases "sint ?n \<le> 0")
    case True
    then show ?thesis using assms by (simp add: bindings_submit_def gopro_ble_submit_def)
  next
    case False
    have sp: "span (Some ?p) ?n \<noteq> []" "span (Some ?p) ?n ! 0 = word_of_int (payload ! 0)"
      using False assms by (auto simp: span_def native_bytes_def)
    have "s_takes j ?sop = of_bool (j = ?i \<and> j \<noteq> keep_alive_id)" for j
      using sp by (auto simp: s_takes_def)
    moreover have "bindings_submit ch payload pr now (Some ctx) = (let (s, evs) = s_step (bc_session ctx) ?sop in
        (Some (ctx\<lparr>bc_session := s\<rparr>), post_events (events_port ctx) evs, \<not> duplicate (s_queue (bc_session ctx)) ?i))"
      using False assms sp enqueue_accepted [of "bc_session ctx" ?i "span (Some ?p) ?n" pr now]
      by (simp add: bindings_submit_def gopro_ble_submit_def session_submit_def split_beta not_le)
    ultimately show ?thesis by blast
  qed
qed

lemma protobuf_submits_as:
  "submits_as (gopro_ble_protobuf_correlation (ble_channel_value ch) (word_of_int f) (word_of_int a))
     (bindings_submit_protobuf ch f a message pr now)"
  unfolding submits_as_def
proof
  fix ctx
  let ?n = "of_nat (length message) :: i32" and ?p = "if message = [] then [0] else native_bytes message"
  let ?c = "ble_channel_value ch"
  let ?sop = "SSubmitProtobuf ?c (word_of_int f) (word_of_int a) (span (Some ?p) ?n) pr now"
  let ?i = "gopro_ble_protobuf_correlation ?c (word_of_int f) (word_of_int a)"
  have i: "?i = correlation_of_protobuf ?c (word_of_int f) (word_of_int a)"
    using channel_value_ok [of ch] by (simp add: gopro_ble_protobuf_correlation_def)
  show "bindings_submit_protobuf ch f a message pr now (Some ctx) = (Some ctx, [], False) \<or>
    (\<exists>sop. (\<forall>j. s_takes j sop = of_bool (j = ?i \<and> j \<noteq> keep_alive_id)) \<and>
      bindings_submit_protobuf ch f a message pr now (Some ctx) = (let (s, evs) = s_step (bc_session ctx) sop in
        (Some (ctx\<lparr>bc_session := s\<rparr>), post_events (events_port ctx) evs, \<not> duplicate (s_queue (bc_session ctx)) ?i)))"
  proof (cases "sint ?n < 0")
    case True
    then show ?thesis by (simp add: bindings_submit_protobuf_def gopro_ble_submit_protobuf_def)
  next
    case False
    have "s_takes j ?sop = of_bool (j = ?i \<and> j \<noteq> keep_alive_id)" for j by (auto simp: s_takes_def i)
    moreover have "bindings_submit_protobuf ch f a message pr now (Some ctx) = (let (s, evs) = s_step (bc_session ctx) ?sop in
        (Some (ctx\<lparr>bc_session := s\<rparr>), post_events (events_port ctx) evs, \<not> duplicate (s_queue (bc_session ctx)) ?i))"
      using False enqueue_accepted [of "bc_session ctx" ?i] i
      by (simp add: bindings_submit_protobuf_def gopro_ble_submit_protobuf_def submit_protobuf_def split_beta not_le)
    ultimately show ?thesis by blast
  qed
qed

text \<open>The payloads of the calls are bytes.\<close>

fun byte_label :: "CamLabel \<Rightarrow> bool" where
  "byte_label (CSend ch payload priority now) \<longleftrightarrow> list_all (\<lambda>b. 0 \<le> b \<and> b < 256) payload"
| "byte_label _ \<longleftrightarrow> True"

lemma camera_send_backed:
  assumes "backed cam" "list_all (\<lambda>b. 0 \<le> b \<and> b < 256) payload"
  shows "backed (fst (camera_send ch payload priority now cam))"
proof (cases "payload = []")
  case False
  then have "0 \<le> payload ! 0" "payload ! 0 < 256" using assms(2) by (auto simp: list_all_length)
  then show ?thesis using assms(1) send_as_backed [OF assms(1) submit_submits_as [OF False]]
    by (simp add: camera_send_def dart_correlation_native)
qed (simp add: camera_send_def assms(1))

lemma camera_send_protobuf_backed:
  "backed cam \<Longrightarrow> backed (fst (camera_send_protobuf f a m ch priority now cam))"
  using send_as_backed [OF _ protobuf_submits_as]
  by (simp add: camera_send_protobuf_def bindings_protobuf_correlation_def)

section \<open>The invariant of a camera whose link is up\<close>

lemma waiting_le_one: "keys_ok cam \<Longrightarrow> waiting i cam \<le> 1"
proof -
  assume "keys_ok cam"
  then have "length (filter (\<lambda>(j, f). j = k) ps) \<le> 1" if "distinct (map fst ps)" for k and ps :: "(int \<times> nat) list"
    using that by (induction ps) (auto simp: filter_empty_conv, force)
  then show ?thesis using \<open>keys_ok cam\<close> by (simp add: waiting_def keys_ok_def)
qed

lemma waiting_found: "map_of (gc_pending cam) (sint i) = None \<longleftrightarrow> waiting i cam = 0"
  by (force simp: map_of_eq_None_iff waiting_def filter_empty_conv)

lemma on_event_cases:
  assumes "\<And>i outcome payload. Option.bind (as_uint8list m) ble_decode = Some (BleResponse i outcome payload) \<Longrightarrow>
      map_of (gc_pending cam) (sint i) = None"
  shows "fst (on_event m cam) = cam"
  using assms by (auto simp: on_event_def split: option.splits BleEvent.splits)

lemma on_event_response:
  assumes "Option.bind (as_uint8list m) ble_decode = Some (BleResponse i outcome payload)"
  shows "fst (on_event m cam) = cam\<lparr>gc_pending := filter (\<lambda>(j, f). j \<noteq> sint i) (gc_pending cam)\<rparr>"
proof (cases "map_of (gc_pending cam) (sint i)")
  case None
  then have "filter (\<lambda>(j, f). j \<noteq> sint i) (gc_pending cam) = gc_pending cam"
    by (force simp: map_of_eq_None_iff filter_id_conv)
  then show ?thesis using assms None by (auto simp: on_event_def bind_eq_Some_conv)
qed (use assms in \<open>auto simp: on_event_def bind_eq_Some_conv\<close>)

lemma on_event_backed:
  assumes "backed cam" "keys_ok cam" "gc_events cam = m # ms"
  shows "backed (fst (on_event m (cam\<lparr>gc_events := ms\<rparr>)))"
proof -
  obtain ctx where ctx: "gc_session cam = Some ctx" "s_live (bc_session ctx)"
    and acc: "\<And>i. i \<noteq> keep_alive_id \<Longrightarrow>
      waiting i cam = s_owed i (bc_session ctx) + of_bool (is_answer i m) + answers i ms"
    using assms(1) by (auto simp: backed_def assms(3) split: option.splits)
  let ?cam = "cam\<lparr>gc_events := ms\<rparr>"
  have frame: "waiting i ?cam = waiting i cam" for i by (simp add: waiting_def)
  show ?thesis
  proof (cases "\<exists>i outcome payload. Option.bind (as_uint8list m) ble_decode = Some (BleResponse i outcome payload)")
    case True
    then obtain i outcome payload where r: "Option.bind (as_uint8list m) ble_decode = Some (BleResponse i outcome payload)"
      by blast
    let ?cam' = "?cam\<lparr>gc_pending := filter (\<lambda>(j, f). j \<noteq> sint i) (gc_pending ?cam)\<rparr>"
    have ans: "is_answer j m \<longleftrightarrow> j = i" for j by (auto simp: is_answer_def r)
    have same: "sint j = sint i \<longleftrightarrow> j = i" "sint i = sint j \<longleftrightarrow> j = i" for j by (auto simp: sint_eq_iff)
    have "filter (\<lambda>(k, f). k = sint j) (filter (\<lambda>(k, f). k \<noteq> sint i) ps) =
        (if j = i then [] else filter (\<lambda>(k, f). k = sint j) ps)" for j and ps :: "(int \<times> nat) list"
      by (induction ps) (auto simp: same)
    then have "waiting j ?cam' = (if j = i then 0 else waiting j cam)" for j by (simp add: waiting_def)
    moreover have "s_owed i (bc_session ctx) = 0 \<and> answers i ms = 0" if "i \<noteq> keep_alive_id"
      using acc [OF that] waiting_le_one [OF assms(2), of i] by (simp add: ans)
    ultimately have "backed ?cam'" using acc ctx by (simp add: backed_def ans)
    then show ?thesis by (simp add: on_event_response [OF r])
  next
    case False
    then have "\<not> is_answer i m" for i by (auto simp: is_answer_def split: option.splits BleEvent.splits)
    then have "backed ?cam" using acc ctx by (simp add: backed_def frame)
    moreover have "fst (on_event m ?cam) = ?cam" using False by (intro on_event_cases) blast
    ultimately show ?thesis by simp
  qed
qed

definition up_inv :: "GoProBleCamera \<Rightarrow> bool" where
  "up_inv cam \<longleftrightarrow> keys_ok cam \<and>
     (gc_state cam = LinkIsUp \<longrightarrow> gc_dropping cam = NoDrop \<and> gc_closing cam = NotClosing \<and> backed cam)"

lemma attach_throws: "gc_state cam \<noteq> LinkIsUp \<Longrightarrow> snd (attach a now cam)"
  by (simp add: attach_def query_statuses_def camera_send_def Let_def)

lemma attach_state [simp]: "gc_state (fst (attach a now cam)) = gc_state cam"
  "gc_dropping (fst (attach a now cam)) = gc_dropping cam" "gc_closing (fst (attach a now cam)) = gc_closing cam"
  by (auto simp: attach_def query_statuses_def camera_send_def send_as_def Let_def
      split: option.splits sum.splits prod.splits if_splits)

lemma send_state [simp]:
  "gc_state (fst (camera_send c p pr now cam)) = gc_state cam"
  "gc_dropping (fst (camera_send c p pr now cam)) = gc_dropping cam"
  "gc_closing (fst (camera_send c p pr now cam)) = gc_closing cam"
  "gc_state (fst (camera_send_protobuf ft a m c pr' now cam)) = gc_state cam"
  "gc_dropping (fst (camera_send_protobuf ft a m c pr' now cam)) = gc_dropping cam"
  "gc_closing (fst (camera_send_protobuf ft a m c pr' now cam)) = gc_closing cam"
  by (auto simp: camera_send_def camera_send_protobuf_def send_as_def Let_def split: option.splits prod.splits if_splits)

lemma on_event_state [simp]:
  "gc_state (fst (on_event m cam)) = gc_state cam" "gc_dropping (fst (on_event m cam)) = gc_dropping cam"
  "gc_closing (fst (on_event m cam)) = gc_closing cam"
  by (auto simp: on_event_def split: option.splits BleEvent.splits)

lemma close_begin_down: "gc_state (fst (close_begin cam)) = LinkDown"
  by (simp add: close_begin_def set_state_def)

lemma drop_begin_not_up: "gc_state (fst (drop_begin cam)) \<noteq> LinkIsUp"
  by (simp add: drop_begin_def Let_def split_beta close_begin_down) (simp add: set_state_def)

lemma climb_done_not_up:
  assumes "gc_dropping cam \<noteq> NoDrop" "gc_state cam \<noteq> LinkIsUp"
  shows "gc_state (fst (climb_done result now cam)) \<noteq> LinkIsUp"
  using assms attach_throws [of "cam\<lparr>gc_dropping := NoDrop\<rparr>" _ now]
  by (auto simp: climb_done_def Let_def split_beta close_begin_down split: option.splits)

lemma close_next_state [simp]: "gc_state (fst (close_next cam)) = gc_state cam"
  by (simp add: close_next_def resolve_pending_def Let_def split: ClosePc.splits)

lemma drop_next_state [simp]: "gc_state (fst (drop_next cam)) = gc_state cam"
  by (simp add: drop_next_def resolve_pending_def split: DropPc.splits)

lemma climb_state [simp]: "gc_state (climb obs now cam) = gc_state cam" "gc_state (climb_failed now cam) = gc_state cam"
  by (simp_all add: climb_def climb_failed_def split: option.splits)

lemma up_inv_step:
  assumes "up_inv cam" "byte_label l"
  shows "up_inv (fst (cam_step cam l))"
proof -
  have "keys_ok (fst (cam_step cam l))"
    using cam_step_conserves [of cam l] assms(1) by (simp add: conserves_def up_inv_def)
  moreover have "gc_dropping (fst (cam_step cam l)) = NoDrop \<and> gc_closing (fst (cam_step cam l)) = NotClosing \<and>
      backed (fst (cam_step cam l))" if up: "gc_state (fst (cam_step cam l)) = LinkIsUp"
  proof (cases "gc_state cam = LinkIsUp")
    case True
    then have b: "backed cam" "keys_ok cam" "gc_dropping cam = NoDrop" "gc_closing cam = NotClosing"
      using assms(1) by (auto simp: up_inv_def)
    show ?thesis
    proof (cases l)
      case CEvent
      then show ?thesis using b on_event_backed [OF b(1,2)] by (auto split: list.splits)
    next
      case (CSend ch payload pr now)
      then show ?thesis using b assms(2) camera_send_backed by simp
    next
      case (CNotify ch bs now)
      then show ?thesis using b feed_backed by simp
    next
      case (CTick connected now)
      then show ?thesis using b True tick_backed up drop_begin_not_up by (auto simp: Let_def split: if_splits)
    next
      case CDrop
      then show ?thesis using b up drop_begin_not_up by (auto split: if_splits)
    next
      case CClose
      then show ?thesis using up by (simp add: close_begin_down)
    qed (use b camera_send_protobuf_backed in \<open>auto simp: drop_next_def climb_def climb_failed_def climb_done_def close_next_def\<close>)
  next
    case False
    then have "gc_state (fst (cam_step cam l)) \<noteq> LinkIsUp"
      using climb_done_not_up [OF _ False]
      by (cases l) (auto simp: Let_def close_begin_down drop_begin_not_up climb_done_def [of _ _ cam] split: list.splits)
    with up show ?thesis by simp
  qed
  ultimately show ?thesis by (simp add: up_inv_def)
qed

text \<open>A new camera: its session is fresh, and \<open>attach\<close> submits the first command.\<close>

lemma connect_attaches: "camera_connect link port ka rc a now = (fst (attach a now (fresh_camera link port ka rc)))\<lparr>gc_ticker := True\<rparr>"
  by (simp add: camera_connect_def split_beta)

lemma fresh_backed: "backed (fresh_camera link port ka rc)"
proof -
  have "s_live (live_session cfg)" for cfg by (rule session_channel.inv_init)
  then show ?thesis
    by (simp add: fresh_camera_def gopro_ble_create_config backed_def waiting_def s_owed_def q_owed_def
        set_callbacks_def new_session_def new_queue_def)
qed

lemma backed_cong:
  "backed cam \<Longrightarrow> gc_session cam' = gc_session cam \<Longrightarrow> gc_events cam' = gc_events cam \<Longrightarrow>
   gc_pending cam' = gc_pending cam \<Longrightarrow> backed cam'"
  by (auto simp: backed_def waiting_def split: option.splits)

lemma bind_link_backed:
  assumes "backed cam"
  shows "backed (bind_link a cam)"
proof -
  have "backed (linked a cam)" using assms by (rule backed_cong) simp_all
  then have "backed (if attach_mtu a > 3
      then on_session (\<lambda>h. (gopro_ble_set_att_payload h (of_nat (attach_mtu a - 3)), [])) (linked a cam)
      else linked a cam)" using att_backed by simp
  then show ?thesis by (rule backed_cong) (simp_all add: bind_link_def Let_def)
qed

lemma attach_backed:
  assumes "backed cam"
  shows "backed (fst (attach a now cam))"
proof -
  have "backed (fst (query_statuses [kBusyStatusId, kEncodingStatusId] now (bind_link a cam)))"
    unfolding query_statuses_def using bind_link_backed [OF assms]
    by (rule camera_send_backed) (simp add: kBusyStatusId_def kEncodingStatusId_def)
  then show ?thesis by (auto simp: fst_attach intro: backed_cong split: prod.splits sum.splits)
qed

lemma connect_up: "up_inv (camera_connect link port ka rc a now)"
proof -
  have "backed (camera_connect link port ka rc a now)"
    using attach_backed [OF fresh_backed] by (rule backed_cong) (simp_all add: connect_attaches)
  then show ?thesis using connect_keys by (simp add: up_inv_def connect_attaches) (simp add: fresh_camera_def)
qed

lemma connect_frame:
  "gc_state (camera_connect link port ka rc a now) = LinkIsUp"
  "gc_writes (camera_connect link port ka rc a now) = at_writes a"
  "gc_subs (camera_connect link port ka rc a now) = map (\<lambda>(c, b). (c, True)) (at_notifies a)"
proof -
  have "gc_writes (on_session call cam) = gc_writes cam" for call cam
    by (simp add: on_session_def split: option.splits prod.splits)
  then have b: "gc_writes (bind_link a cam) = at_writes a" "gc_subs (bind_link a cam) = gc_subs cam @ map (\<lambda>(c, b). (c, True)) (at_notifies a)" for cam
    by (simp_all add: bind_link_def Let_def)
  have q: "gc_writes (fst (query_statuses is now cam)) = gc_writes cam" "gc_subs (fst (query_statuses is now cam)) = gc_subs cam"
    for "is" cam
    by (auto simp: query_statuses_def camera_send_def send_as_def Let_def split: option.splits prod.splits if_splits)
  have at: "gc_writes (fst (attach a now cam)) = at_writes a" "gc_subs (fst (attach a now cam)) = gc_subs cam @ map (\<lambda>(c, b). (c, True)) (at_notifies a)"
    for cam
  proof -
    have "gc_writes (fst (attach a now cam)) = gc_writes (fst (query_statuses [kBusyStatusId, kEncodingStatusId] now (bind_link a cam)))"
      "gc_subs (fst (attach a now cam)) = gc_subs (fst (query_statuses [kBusyStatusId, kEncodingStatusId] now (bind_link a cam)))"
      by (simp_all add: fst_attach split: prod.splits sum.splits)
    then show "gc_writes (fst (attach a now cam)) = at_writes a"
      "gc_subs (fst (attach a now cam)) = gc_subs cam @ map (\<lambda>(c, b). (c, True)) (at_notifies a)" by (simp_all add: q b)
  qed
  show "gc_writes (camera_connect link port ka rc a now) = at_writes a"
    "gc_subs (camera_connect link port ka rc a now) = map (\<lambda>(c, b). (c, True)) (at_notifies a)"
    by (simp_all add: connect_attaches at) (simp add: fresh_camera_def)
  show "gc_state (camera_connect link port ka rc a now) = LinkIsUp"
    by (simp add: connect_attaches) (simp add: fresh_camera_def)
qed

interpretation camera_up: guarded_machine cam_step "camera_connect link port ka rc a now" up_inv byte_label
  for link port ka rc a now
  using connect_up up_inv_step by unfold_locales

section \<open>What a close leaves behind\<close>

definition close_inv :: "GoProBleCamera \<Rightarrow> bool" where
  "close_inv cam \<longleftrightarrow> (gc_closing cam = NotClosing \<longleftrightarrow> gc_state cam \<noteq> LinkDown) \<and>
     (gc_closing cam \<noteq> Closed \<longrightarrow> gc_session cam \<noteq> None \<and> gc_link cam \<noteq> None) \<and>
     (gc_closing cam = Closed \<longrightarrow> gc_pending cam = [] \<and> gc_session cam = None \<and> gc_link cam = None \<and> gc_events cam = []) \<and>
     (gc_dropping cam \<noteq> NoDrop \<longrightarrow> gc_state cam \<noteq> LinkIsUp)"

lemma on_session_none [simp]: "gc_session cam = None \<Longrightarrow> gc_session (on_session call cam) = None"
  "gc_session cam = None \<Longrightarrow> gc_events (on_session call cam) = gc_events cam"
  by (simp_all add: on_session_def)

lemma gopro_ble_live [simp]:
  "fst (gopro_ble_tick (Some ctx) now) \<noteq> None" "fst (gopro_ble_disconnect (Some ctx)) \<noteq> None"
  "gopro_ble_set_att_payload (Some ctx) n \<noteq> None" "fst (bindings_feed c bs now (Some ctx)) \<noteq> None"
  "fst (bindings_submit c p pr now (Some ctx)) \<noteq> None" "fst (bindings_submit_protobuf c f ac m pr now (Some ctx)) \<noteq> None"
  by (auto simp: gopro_ble_tick_def gopro_ble_disconnect_def gopro_ble_set_att_payload_def bindings_feed_def gopro_ble_feed_def
      bindings_submit_def bindings_submit_protobuf_def gopro_ble_submit_def gopro_ble_submit_protobuf_def
      split: prod.splits)

lemma on_session_some:
  "gc_session cam \<noteq> None \<Longrightarrow> (\<And>ctx. fst (call (Some ctx)) \<noteq> None) \<Longrightarrow> gc_session (on_session call cam) \<noteq> None"
  by (auto simp: on_session_def split_beta)

text \<open>A camera whose link is not up sends nothing; one that is open keeps its handles.\<close>

lemma send_not_up [simp]:
  "gc_state cam \<noteq> LinkIsUp \<Longrightarrow> camera_send c p pr now cam = (cam, Inl LinkNotUp)"
  "gc_state cam \<noteq> LinkIsUp \<Longrightarrow> camera_send_protobuf ft a m c pr' now cam = (cam, Inl LinkNotUp)"
  by (simp_all add: camera_send_def camera_send_protobuf_def)

lemma send_as_handles:
  assumes "gc_session cam \<noteq> None" "\<And>ctx. fst (call (Some ctx)) \<noteq> None"
  shows "gc_session (fst (send_as i call cam)) \<noteq> None" "gc_link (fst (send_as i call cam)) = gc_link cam"
  using assms by (auto simp: send_as_def Let_def split_beta)

lemma send_handles:
  assumes "gc_session cam \<noteq> None"
  shows "gc_session (fst (camera_send c p pr now cam)) \<noteq> None" "gc_link (fst (camera_send c p pr now cam)) = gc_link cam"
    "gc_session (fst (camera_send_protobuf ft a m c pr' now cam)) \<noteq> None"
    "gc_link (fst (camera_send_protobuf ft a m c pr' now cam)) = gc_link cam"
  using assms send_as_handles [OF assms, of "bindings_submit c p _ now"]
    send_as_handles [OF assms, of "bindings_submit_protobuf c ft a m pr' now"]
  by (auto simp: camera_send_def camera_send_protobuf_def Let_def)

lemma attach_not_up: "gc_state cam \<noteq> LinkIsUp \<Longrightarrow> attach a now cam = (bind_link a cam, True)"
  by (simp add: attach_def query_statuses_def)

lemma close_inv_frame:
  "close_inv cam \<Longrightarrow> gc_closing cam' = gc_closing cam \<Longrightarrow> gc_state cam' = gc_state cam \<Longrightarrow>
   gc_dropping cam' = gc_dropping cam \<or> gc_state cam \<noteq> LinkIsUp \<Longrightarrow>
   (gc_closing cam \<noteq> Closed \<Longrightarrow> gc_session cam' \<noteq> None \<and> gc_link cam' \<noteq> None) \<Longrightarrow>
   (gc_closing cam = Closed \<Longrightarrow> gc_pending cam' = [] \<and> gc_session cam' = None \<and> gc_link cam' = None \<and> gc_events cam' = []) \<Longrightarrow>
   close_inv cam'"
  unfolding close_inv_def by auto

lemma close_inv_cong:
  "close_inv cam \<Longrightarrow> gc_closing cam' = gc_closing cam \<Longrightarrow> gc_state cam' = gc_state cam \<Longrightarrow>
   gc_dropping cam' = gc_dropping cam \<Longrightarrow> gc_session cam' = gc_session cam \<Longrightarrow> gc_link cam' = gc_link cam \<Longrightarrow>
   gc_pending cam' = gc_pending cam \<Longrightarrow> gc_events cam' = gc_events cam \<Longrightarrow> close_inv cam'"
  by (simp add: close_inv_def)

lemma on_session_close_inv:
  assumes "close_inv cam" "\<And>ctx. fst (call (Some ctx)) \<noteq> None"
  shows "close_inv (on_session call cam)"
proof (rule close_inv_frame [OF assms(1)])
  show "gc_closing cam \<noteq> Closed \<Longrightarrow> gc_session (on_session call cam) \<noteq> None \<and> gc_link (on_session call cam) \<noteq> None"
    using assms on_session_some [of cam call] by (auto simp: close_inv_def)
qed (use assms in \<open>auto simp: close_inv_def\<close>)

lemma bind_link_inv:
  assumes "close_inv cam"
  shows "close_inv (bind_link a cam)"
proof -
  have "close_inv (linked a cam)" using assms by (simp add: close_inv_def)
  then have "close_inv (if attach_mtu a > 3
      then on_session (\<lambda>h. (gopro_ble_set_att_payload h (of_nat (attach_mtu a - 3)), [])) (linked a cam)
      else linked a cam)" by (simp add: on_session_close_inv)
  then show ?thesis by (rule close_inv_cong) (simp_all add: bind_link_def Let_def)
qed

lemma close_begin_inv: "close_inv cam \<Longrightarrow> close_inv (fst (close_begin cam))"
  by (auto simp: close_inv_def close_begin_def set_state_def)

lemma drop_begin_inv:
  assumes "close_inv cam"
  shows "close_inv (fst (drop_begin cam))"
proof (cases "gc_state cam = LinkIsUp \<and> gc_reconnect cam")
  case True
  let ?cam = "on_session gopro_ble_disconnect (cam\<lparr>gc_state := LinkReconnecting\<rparr>)"
  have "close_inv (cam\<lparr>gc_state := LinkReconnecting\<rparr>)" using assms True by (auto simp: close_inv_def)
  then have "close_inv ?cam" by (rule on_session_close_inv) simp
  then have "close_inv (fst (drop_detach (detach_start False ?cam)))" by (simp add: close_inv_def)
  then show ?thesis using True by (simp add: drop_begin_def set_state_def split_beta)
qed (use assms close_begin_inv in \<open>auto simp: drop_begin_def split_beta\<close>)

lemma destroyed [simp]: "gc_session (on_session gopro_ble_destroy cam) = None"
  by (simp add: on_session_def gopro_ble_destroy_def split: option.splits prod.splits)

lemma close_next_inv:
  assumes "close_inv cam"
  shows "close_inv (fst (close_next cam))"
proof (cases "gc_closing cam")
  case CloseWatch
  have "close_inv (cam\<lparr>gc_watch := False\<rparr>)" using assms by (simp add: close_inv_def)
  then have "close_inv (on_session gopro_ble_disconnect (cam\<lparr>gc_watch := False\<rparr>))" by (rule on_session_close_inv) simp
  then show ?thesis using CloseWatch by (simp add: close_next_def close_inv_def split: Detached.splits)
qed (use assms in \<open>auto simp: close_inv_def close_next_def resolve_pending_def split: Detached.splits\<close>)

lemma drop_next_inv: "close_inv cam \<Longrightarrow> close_inv (fst (drop_next cam))"
  by (auto simp: close_inv_def drop_next_def resolve_pending_def split: DropPc.splits)

lemma climb_inv:
  assumes "close_inv cam"
  shows "close_inv (climb obs now cam)" "close_inv (climb_failed now cam)"
proof -
  have "fst (dart_link_update (Some l) obs now) \<noteq> None" for l
    by (simp add: dart_link_update_some split_beta)
  then show "close_inv (climb obs now cam)" "close_inv (climb_failed now cam)" using assms
    by (auto simp: close_inv_def climb_def climb_failed_def gopro_link_note_failure_def split: option.splits)
qed

lemma climb_done_inv:
  assumes "close_inv cam"
  shows "close_inv (fst (climb_done result now cam))"
proof (cases "gc_dropping cam = DropClimb")
  case True
  let ?cam = "cam\<lparr>gc_dropping := NoDrop\<rparr>"
  have up: "gc_state ?cam \<noteq> LinkIsUp" and inv: "close_inv ?cam" using assms True by (auto simp: close_inv_def)
  then show ?thesis using True attach_not_up [OF up]
    by (auto simp: climb_done_def Let_def split_beta close_begin_inv bind_link_inv split: option.splits)
qed (simp add: climb_done_def assms)

lemma on_event_inv: "close_inv cam \<Longrightarrow> close_inv (fst (on_event m (cam\<lparr>gc_events := ms\<rparr>)))" if "gc_events cam = m # ms"
  using that by (auto simp: on_event_def close_inv_def split: option.splits BleEvent.splits)

lemma send_inv:
  assumes "close_inv cam"
  shows "close_inv (fst (camera_send c p pr now cam))" "close_inv (fst (camera_send_protobuf ft a m c pr' now cam))"
proof -
  have "gc_session cam \<noteq> None \<and> gc_link cam \<noteq> None \<and> gc_closing cam \<noteq> Closed" if "gc_state cam = LinkIsUp"
    using that assms by (auto simp: close_inv_def)
  then show "close_inv (fst (camera_send c p pr now cam))" "close_inv (fst (camera_send_protobuf ft a m c pr' now cam))"
    using assms send_handles [of cam]
    by (cases "gc_state cam = LinkIsUp"; auto intro!: close_inv_frame [OF assms])+
qed

lemma close_inv_step: "close_inv cam \<Longrightarrow> close_inv (fst (cam_step cam l))"
  by (cases l) (auto simp: send_inv on_session_close_inv drop_begin_inv close_begin_inv close_next_inv drop_next_inv
      climb_inv climb_done_inv on_event_inv Let_def split: list.splits)

lemma connect_close_inv: "close_inv (camera_connect link port ka rc a now)"
proof -
  have "close_inv (bind_link a (fresh_camera link port ka rc))"
    by (rule bind_link_inv) (simp add: close_inv_def fresh_camera_def gopro_ble_create_config)
  then have "close_inv (fst (query_statuses [kBusyStatusId, kEncodingStatusId] now (bind_link a (fresh_camera link port ka rc))))"
    unfolding query_statuses_def by (rule send_inv)
  then show ?thesis
    by (rule close_inv_cong) (simp_all add: connect_attaches fst_attach split: prod.splits sum.splits)
qed

interpretation camera_close: invariant_machine cam_step "camera_connect link port ka rc a now" close_inv
  for link port ka rc a now
  using connect_close_inv close_inv_step by unfold_locales

section \<open>Native handles\<close>

text \<open>
  Without reconnection only a close detaches. Where it waits fits the collections it iterates
  over, so it never throws, and no call reaches a handle that has been freed. \<open>L\<close> bounds the
  subscriptions and the characteristics.
\<close>

definition detaching_ok :: "GoProBleCamera \<Rightarrow> bool" where
  "detaching_ok cam \<longleftrightarrow>
     (case gc_closing cam of
        CloseDetach (DetachSub i n) \<Rightarrow> length (gc_subs cam) = n \<and> i \<le> n
      | CloseDetach (DetachStop j m) \<Rightarrow> gc_subs cam = [] \<and> gc_modified cam = m \<and> j \<le> gc_notifies cam
      | CloseDrain \<Rightarrow> gc_subs cam = []
      | Closed \<Rightarrow> gc_subs cam = []
      | CloseFailed \<Rightarrow> False
      | _ \<Rightarrow> True)"

definition free_inv :: "nat \<Rightarrow> GoProBleCamera \<Rightarrow> bool" where
  "free_inv L cam \<longleftrightarrow> close_inv cam \<and> \<not> gc_reconnect cam \<and> gc_dropping cam = NoDrop \<and> \<not> gc_use_after_free cam \<and>
     detaching_ok cam \<and> length (gc_subs cam) \<le> L \<and> gc_notifies cam \<le> L \<and>
     (gc_closing cam \<noteq> NotClosing \<longrightarrow> \<not> gc_ticker cam)"

text \<open>How many pieces of a close are left.\<close>

definition close_left :: "GoProBleCamera \<Rightarrow> nat" where
  "close_left cam =
     (case gc_closing cam of
        CloseWatch \<Rightarrow> length (gc_subs cam) + gc_notifies cam + 2
      | CloseDetach (DetachSub i n) \<Rightarrow> Suc n - i + gc_notifies cam + 1
      | CloseDetach (DetachStop j m) \<Rightarrow> Suc (gc_notifies cam) - j + 1
      | CloseDrain \<Rightarrow> 1
      | _ \<Rightarrow> 0)"

lemma detach_subs_left:
  assumes "length (gc_subs cam) = n" "i \<le> n"
  shows "let cam' = fst (close_detach (detach_subs True i n cam)) in
    detaching_ok cam' \<and> length (gc_subs cam') \<le> n \<and> gc_notifies cam' \<le> gc_notifies cam \<and> close_left cam' \<le> n - i + gc_notifies cam + 1"
  using assms by (auto simp: detach_subs_def detach_stops_def detach_end_def close_detach_def detaching_ok_def close_left_def Let_def)

lemma detach_stops_left:
  assumes "gc_modified cam = m" "gc_subs cam = []" "j \<le> gc_notifies cam"
  shows "let cam' = fst (close_detach (detach_stops j m cam)) in
    detaching_ok cam' \<and> gc_subs cam' = [] \<and> gc_notifies cam' \<le> gc_notifies cam \<and> close_left cam' \<le> gc_notifies cam - j + 1"
  using assms by (auto simp: detach_stops_def detach_end_def close_detach_def detaching_ok_def close_left_def Let_def)

lemma on_session_no_uaf [simp]:
  "gc_session cam \<noteq> None \<Longrightarrow> gc_use_after_free (on_session call cam) = gc_use_after_free cam"
  by (auto simp: on_session_def split_beta)

lemma send_no_uaf:
  assumes "gc_session cam \<noteq> None"
  shows "gc_use_after_free (fst (send_as i call cam)) = gc_use_after_free cam"
    "gc_use_after_free (fst (camera_send c p pr now cam)) = gc_use_after_free cam"
    "gc_use_after_free (fst (camera_send_protobuf ft a m c pr' now cam)) = gc_use_after_free cam"
proof -
  show u: "gc_use_after_free (fst (send_as i call cam)) = gc_use_after_free cam" for i call
    using assms by (auto simp: send_as_def Let_def split: prod.splits if_splits)
  show "gc_use_after_free (fst (camera_send c p pr now cam)) = gc_use_after_free cam"
    "gc_use_after_free (fst (camera_send_protobuf ft a m c pr' now cam)) = gc_use_after_free cam"
    by (simp_all add: camera_send_def camera_send_protobuf_def Let_def u)
qed

lemma send_frame [simp]:
  "gc_reconnect (fst (camera_send c p pr now cam)) = gc_reconnect cam"
  "gc_subs (fst (camera_send c p pr now cam)) = gc_subs cam"
  "gc_ticker (fst (camera_send c p pr now cam)) = gc_ticker cam"
  "gc_reconnect (fst (camera_send_protobuf ft a m c pr' now cam)) = gc_reconnect cam"
  "gc_subs (fst (camera_send_protobuf ft a m c pr' now cam)) = gc_subs cam"
  "gc_ticker (fst (camera_send_protobuf ft a m c pr' now cam)) = gc_ticker cam"
  "gc_notifies (fst (camera_send c p pr now cam)) = gc_notifies cam"
  "gc_modified (fst (camera_send c p pr now cam)) = gc_modified cam"
  "gc_notifies (fst (camera_send_protobuf ft a m c pr' now cam)) = gc_notifies cam"
  "gc_modified (fst (camera_send_protobuf ft a m c pr' now cam)) = gc_modified cam"
  by (auto simp: camera_send_def camera_send_protobuf_def send_as_def Let_def split: option.splits prod.splits if_splits)

lemma on_event_frame [simp]:
  "gc_reconnect (fst (on_event m cam)) = gc_reconnect cam" "gc_subs (fst (on_event m cam)) = gc_subs cam"
  "gc_ticker (fst (on_event m cam)) = gc_ticker cam" "gc_use_after_free (fst (on_event m cam)) = gc_use_after_free cam"
  "gc_notifies (fst (on_event m cam)) = gc_notifies cam" "gc_modified (fst (on_event m cam)) = gc_modified cam"
  by (auto simp: on_event_def split: option.splits BleEvent.splits)

text \<open>The part of the invariant that depends on nothing but these fields.\<close>

lemma detaching_ok_cong:
  "detaching_ok cam \<Longrightarrow> gc_closing cam' = gc_closing cam \<Longrightarrow> gc_subs cam' = gc_subs cam \<Longrightarrow>
   gc_notifies cam' = gc_notifies cam \<Longrightarrow> gc_modified cam' = gc_modified cam \<Longrightarrow> detaching_ok cam'"
  by (auto simp: detaching_ok_def split: ClosePc.splits DetachPc.splits)

lemma free_inv_cong:
  "free_inv L cam \<Longrightarrow> close_inv cam' \<Longrightarrow> gc_closing cam' = gc_closing cam \<Longrightarrow> gc_subs cam' = gc_subs cam \<Longrightarrow>
   gc_notifies cam' = gc_notifies cam \<Longrightarrow> gc_modified cam' = gc_modified cam \<Longrightarrow> gc_reconnect cam' = gc_reconnect cam \<Longrightarrow>
   gc_dropping cam' = gc_dropping cam \<Longrightarrow> gc_ticker cam' = gc_ticker cam \<Longrightarrow> \<not> gc_use_after_free cam' \<Longrightarrow> free_inv L cam'"
  using detaching_ok_cong [of cam cam'] by (simp add: free_inv_def)

lemma close_begin_free: "free_inv L cam \<Longrightarrow> free_inv L (fst (close_begin cam))"
  using close_begin_inv [of cam]
  by (cases "gc_state cam = LinkDown") (simp_all add: close_begin_def free_inv_def set_state_def, simp add: detaching_ok_def)

lemma drop_begin_free: "free_inv L cam \<Longrightarrow> free_inv L (fst (drop_begin cam))"
  using close_begin_free [of L cam] by (auto simp: drop_begin_def split_beta) (auto simp: free_inv_def)

lemma close_next_free:
  assumes "free_inv L cam"
  shows "free_inv L (fst (close_next cam)) \<and> close_left (fst (close_next cam)) \<le> close_left cam - 1"
proof -
  have inv: "close_inv (fst (close_next cam))" using close_next_inv assms by (simp add: free_inv_def)
  have live: "gc_session cam \<noteq> None" if "gc_closing cam \<noteq> Closed" using that assms by (auto simp: free_inv_def close_inv_def)
  show ?thesis
  proof (cases "gc_closing cam")
    case CloseWatch
    let ?cam = "on_session gopro_ble_disconnect (cam\<lparr>gc_watch := False\<rparr>)"
    have "close_next cam = close_detach (detach_subs True 0 (length (gc_subs ?cam)) ?cam)"
      by (simp add: close_next_def CloseWatch detach_start_def)
    then show ?thesis using detach_subs_left [of ?cam "length (gc_subs ?cam)" 0] assms inv live CloseWatch
      by (simp add: free_inv_def Let_def detach_subs_frame) (simp add: close_left_def)
  next
    case (CloseDetach pc)
    show ?thesis
    proof (cases pc)
      case (DetachSub i n)
      then have "length (gc_subs cam) = n" "i \<le> n" using assms CloseDetach by (auto simp: free_inv_def detaching_ok_def)
      moreover have "close_left cam = Suc n - i + gc_notifies cam + 1" by (simp add: close_left_def CloseDetach DetachSub)
      ultimately show ?thesis using detach_subs_left [of cam n i] assms inv live CloseDetach DetachSub
        by (auto simp add: close_next_def free_inv_def Let_def detach_subs_frame)
    next
      case (DetachStop j m)
      then have "gc_modified cam = m" "gc_subs cam = []" "j \<le> gc_notifies cam"
        using assms CloseDetach by (auto simp: free_inv_def detaching_ok_def)
      moreover have "close_left cam = Suc (gc_notifies cam) - j + 1" by (simp add: close_left_def CloseDetach DetachStop)
      ultimately show ?thesis using detach_stops_left [of cam m j] assms inv live CloseDetach DetachStop
        by (auto simp add: close_next_def free_inv_def Let_def detach_stops_frame)
    qed
  qed (use assms inv live in \<open>auto simp: free_inv_def close_next_def resolve_pending_def detaching_ok_def close_left_def Let_def\<close>)
qed

lemma on_session_free:
  assumes "free_inv L cam" "\<And>ctx. fst (call (Some ctx)) \<noteq> None" "gc_closing cam \<noteq> Closed"
  shows "free_inv L (on_session call cam)"
proof -
  have "gc_session cam \<noteq> None" using assms(1,3) by (auto simp: free_inv_def close_inv_def)
  then show ?thesis using assms on_session_close_inv [of cam call]
    by (intro free_inv_cong [OF assms(1)]) (simp_all add: free_inv_def)
qed

lemma free_inv_step:
  assumes "free_inv L cam"
  shows "free_inv L (fst (cam_step cam l))"
proof -
  have nodrop: "gc_dropping cam = NoDrop" and inv: "close_inv cam" using assms by (auto simp: free_inv_def)
  have up: "gc_session cam \<noteq> None" if "gc_state cam = LinkIsUp" using that inv by (auto simp: close_inv_def)
  show ?thesis
  proof (cases l)
    case (CSend c p pr now)
    then show ?thesis using assms send_inv(1) [OF inv] up send_no_uaf
      by (cases "gc_state cam = LinkIsUp") (auto simp: free_inv_def intro: detaching_ok_cong)
  next
    case (CSendProtobuf ft a m c pr now)
    then show ?thesis using assms send_inv(2) [OF inv] up send_no_uaf
      by (cases "gc_state cam = LinkIsUp") (auto simp: free_inv_def intro: detaching_ok_cong)
  next
    case (CNotify c bs now)
    have "gc_closing cam \<noteq> Closed" if "(c, True) \<in> set (gc_subs cam)"
      using that assms by (auto simp: free_inv_def detaching_ok_def)
    then show ?thesis using CNotify assms on_session_free [of L cam "bindings_feed c bs now"] by simp
  next
    case CEvent
    have "close_inv (fst (cam_step cam l))" using inv by (rule close_inv_step)
    then show ?thesis using assms CEvent by (auto simp: free_inv_def intro: detaching_ok_cong split: list.splits)
  next
    case (CTick connected now)
    then have "free_inv L (on_session (\<lambda>h. gopro_ble_tick h now) cam)" if "gc_ticker cam"
      using that assms by (intro on_session_free) (auto simp: free_inv_def)
    then show ?thesis using CTick assms drop_begin_free by (simp add: Let_def)
  qed (use assms nodrop in \<open>auto simp: drop_begin_free close_begin_free close_next_free climb_done_def climb_def climb_failed_def drop_next_def\<close>)
qed

lemma connect_sizes:
  "gc_notifies (camera_connect link port ka rc a now) = length (at_notifies a)"
  "length (gc_subs (camera_connect link port ka rc a now)) = length (at_notifies a)"
proof -
  show "length (gc_subs (camera_connect link port ka rc a now)) = length (at_notifies a)" by (simp add: connect_frame)
  have "gc_notifies (bind_link a cam) = length (at_notifies a)" for cam by (simp add: bind_link_def Let_def)
  then show "gc_notifies (camera_connect link port ka rc a now) = length (at_notifies a)"
    by (simp add: connect_attaches fst_attach query_statuses_def split: prod.splits sum.splits) (metis send_frame(7) fst_conv)
qed

lemma connect_free: "free_inv (length (at_notifies a)) (camera_connect link port ka False a now)"
proof -
  let ?cam = "bind_link a (fresh_camera link port ka False)"
  have "close_inv (fresh_camera link port ka False)"
    by (simp add: close_inv_def fresh_camera_def gopro_ble_create_config)
  then have s: "gc_session ?cam \<noteq> None" using bind_link_inv by (fastforce simp: close_inv_def fresh_camera_def)
  have "\<not> gc_use_after_free ?cam"
    by (simp add: bind_link_def Let_def) (simp add: fresh_camera_def gopro_ble_create_config)
  then have "\<not> gc_use_after_free (camera_connect link port ka False a now)"
    using send_no_uaf(2) [OF s] by (simp add: connect_attaches fst_attach query_statuses_def split: prod.splits sum.splits) (metis fst_conv)+
  moreover have "\<not> gc_reconnect (camera_connect link port ka False a now)"
    by (simp add: connect_attaches fst_attach query_statuses_def split: prod.splits sum.splits)
      (metis bind_link_frame(6) fresh_camera_def fst_conv send_frame(1) GoProBleCamera.select_convs(13))
  moreover have "gc_closing (camera_connect link port ka False a now) = NotClosing" "gc_dropping (camera_connect link port ka False a now) = NoDrop"
    by (simp_all add: connect_attaches) (simp_all add: fresh_camera_def)
  ultimately show ?thesis using connect_close_inv [of link port ka False a now]
    by (simp add: free_inv_def detaching_ok_def connect_sizes)
qed

interpretation camera_free: invariant_machine cam_step "camera_connect link port ka False a now"
    "free_inv (length (at_notifies a))" for link port ka a now
  using connect_free free_inv_step by unfold_locales

text \<open>Every piece of a close takes it on, and nothing takes it back.\<close>

lemma close_left_step:
  assumes "free_inv L cam" "gc_closing cam \<noteq> NotClosing"
  shows "gc_closing (fst (cam_step cam l)) \<noteq> NotClosing \<and>
    close_left (fst (cam_step cam l)) \<le> close_left cam - count_list [l] CCloseNext"
proof -
  have down: "gc_state cam = LinkDown" and quiet: "\<not> gc_ticker cam" "gc_dropping cam = NoDrop"
    using assms by (auto simp: free_inv_def close_inv_def)
  have same: "close_left cam' = close_left cam" if "gc_closing cam' = gc_closing cam" "gc_subs cam' = gc_subs cam" "gc_notifies cam' = gc_notifies cam" for cam'
    using that by (auto simp: close_left_def split: ClosePc.splits DetachPc.splits)
  have "gc_closing (fst (close_next cam)) \<noteq> NotClosing" using assms(2)
    by (cases "gc_closing cam") (auto simp: close_next_def resolve_pending_def split: Detached.splits)
  then show ?thesis using down quiet assms(2) close_next_free [OF assms(1)]
    by (cases l) (auto simp: drop_begin_def close_begin_def climb_def climb_failed_def climb_done_def drop_next_def
        intro!: same [THEN eq_refl] split: list.splits)
qed

lemma close_left_run:
  "free_inv L cam \<Longrightarrow> gc_closing cam \<noteq> NotClosing \<Longrightarrow>
   gc_closing (fst (run cam_step cam ls)) \<noteq> NotClosing \<and>
   close_left (fst (run cam_step cam ls)) \<le> close_left cam - count_list ls CCloseNext"
proof (induction ls arbitrary: cam)
  case (Cons l ls)
  from close_left_step [OF Cons.prems, of l] Cons.IH [OF free_inv_step [OF Cons.prems(1), of l]] show ?case
    by (auto simp: Let_def split_beta)
qed simp

lemma nothing_left: "free_inv L cam \<Longrightarrow> gc_closing cam \<noteq> NotClosing \<Longrightarrow> close_left cam = 0 \<Longrightarrow> gc_closing cam = Closed"
  by (auto simp: free_inv_def detaching_ok_def close_left_def split: ClosePc.splits DetachPc.splits)

lemma close_left_bound: "free_inv L cam \<Longrightarrow> close_left cam \<le> 2 * L + 2"
  by (auto simp: free_inv_def detaching_ok_def close_left_def split: ClosePc.splits DetachPc.splits)

section \<open>Behaviours a caller should know\<close>

lemma not_up_step:
  assumes "close_inv cam" "gc_state cam \<noteq> LinkIsUp"
  shows "gc_state (fst (cam_step cam l)) \<noteq> LinkIsUp"
  using climb_done_not_up [OF _ assms(2)] assms(2)
  by (cases l) (auto simp: Let_def close_begin_down drop_begin_not_up climb_done_def [of _ _ cam] split: list.splits)

lemma not_up_run:
  "close_inv cam \<Longrightarrow> gc_state cam \<noteq> LinkIsUp \<Longrightarrow> gc_state (fst (run cam_step cam ls)) \<noteq> LinkIsUp"
  by (rule run_invariant [where I = "\<lambda>c. close_inv c \<and> gc_state c \<noteq> LinkIsUp", THEN conjunct2])
    (auto simp: close_inv_step not_up_step)

text \<open>
  A link once lost is lost for good, whatever the climb finds: the attach behind a successful
  climb sends its status query while the state is still \<open>reconnecting\<close>, the query throws, and
  the camera is closed.
\<close>

lemma reconnection_never_succeeds:
  assumes "gc_state (fst (run cam_step (camera_connect link port ka rc a now) ls)) \<noteq> LinkIsUp"
  shows "gc_state (fst (run cam_step (camera_connect link port ka rc a now) (ls @ ls'))) \<noteq> LinkIsUp"
  using assms not_up_run [OF camera_close.inv_run] by (simp add: run_append split_beta)

lemma successful_climb_closes:
  assumes "gc_dropping cam = DropClimb" "gc_state cam = LinkReconnecting" "gc_closing cam = NotClosing"
  shows "gc_state (fst (climb_done (Some a) now cam)) = LinkDown \<and>
    snd (climb_done (Some a) now cam) = [OnFault BringUpFailed, OnLink LinkDown]"
  using assms attach_not_up [of "cam\<lparr>gc_dropping := NoDrop\<rparr>" a now]
  by (simp add: climb_done_def add_fault_def close_begin_def set_state_def)

lemma connect_reconnect: "gc_reconnect (camera_connect link port ka rc a now) = rc"
  by (simp add: connect_attaches fst_attach query_statuses_def split: prod.splits sum.splits)
    (metis bind_link_frame(6) fresh_camera_def fst_conv send_frame(1) GoProBleCamera.select_convs(13))

text \<open>A camera with three channels that reconnects, when its link drops.\<close>

lemma three_channels:
  assumes "at_notifies a = [(c1, b1), (c2, b2), (c3, b3)]"
  shows "gc_subs (camera_connect link port ka True a now) = [(c1, True), (c2, True), (c3, True)]"
    "gc_notifies (camera_connect link port ka True a now) = 3" "gc_state (camera_connect link port ka True a now) = LinkIsUp"
    "gc_closing (camera_connect link port ka True a now) = NotClosing" "gc_ticker (camera_connect link port ka True a now)"
    "gc_reconnect (camera_connect link port ka True a now)"
proof -
  show "gc_closing (camera_connect link port ka True a now) = NotClosing" "gc_ticker (camera_connect link port ka True a now)"
    by (simp_all add: connect_attaches) (simp_all add: fresh_camera_def)
qed (simp_all add: assms connect_frame connect_sizes connect_reconnect)

text \<open>A close during a climb frees the link handle the climb goes on to use.\<close>

lemma close_while_reconnecting_uses_freed_link:
  assumes "at_notifies a = [(c1, b1), (c2, b2), (c3, b3)]"
  shows "gc_use_after_free (fst (run cam_step (camera_connect link port ka True a now)
     [CTick False t, CDropNext, CDropNext, CDropNext, CDropNext, CClose, CCloseNext, CCloseNext, CClimb obs t']))"
  using three_channels [OF assms, of link port ka now] by (simp add: transport_defs detach_defs close_detach_def drop_detach_def Let_def split_beta)

text \<open>
  A close during the detach of a drop: both iterate over the subscriptions, the drop clears the
  list, and the close throws when it goes on. The session is then never destroyed, the streams
  and the port stay open, and calling \<open>close\<close> again does nothing.
\<close>

lemma close_during_drop_never_finishes:
  assumes "at_notifies a = [(c1, b1), (c2, b2), (c3, b3)]"
  shows "let (cam, outs) = run cam_step (camera_connect link port ka True a now)
      ([CTick False t, CClose, CCloseNext, CDropNext, CDropNext, CDropNext, CCloseNext] @ ls) in
    CloseThrew \<in> set outs \<and> gc_closing cam = CloseFailed \<and> gc_session cam \<noteq> None"
proof -
  let ?start = "camera_connect link port ka True a now"
  let ?ls = "[CTick False t, CClose, CCloseNext, CDropNext, CDropNext, CDropNext, CCloseNext]"
  have failed: "gc_closing (fst (run cam_step ?start ?ls)) = CloseFailed" "CloseThrew \<in> set (snd (run cam_step ?start ?ls))"
    using three_channels [OF assms, of link port ka now]
    by (simp_all add: transport_defs detach_defs close_detach_def drop_detach_def Let_def split_beta)
  have stays: "gc_closing (fst (cam_step cam l)) = CloseFailed" if "close_inv cam" "gc_closing cam = CloseFailed" for cam l
  proof -
    have "gc_state cam = LinkDown" using that by (auto simp: close_inv_def)
    then show ?thesis using that(2) attach_throws [of "cam\<lparr>gc_dropping := NoDrop\<rparr>"]
      by (cases l) (auto simp: drop_begin_def close_begin_def climb_def climb_failed_def climb_done_def drop_next_def close_next_def
          add_fault_def resolve_pending_def Let_def split_beta split: list.splits option.splits DropPc.splits)
  qed
  define cam where "cam = fst (run cam_step ?start ?ls)"
  have "close_inv cam" unfolding cam_def by (rule camera_close.inv_run)
  then have "gc_closing (fst (run cam_step cam ls)) = CloseFailed"
    using stays close_inv_step failed(1) [folded cam_def]
    by (intro run_invariant [where I = "\<lambda>c. close_inv c \<and> gc_closing c = CloseFailed", THEN conjunct2]) auto
  moreover have "close_inv (fst (run cam_step ?start (?ls @ ls)))" by (rule camera_close.inv_run)
  ultimately show ?thesis using failed(2)
    by (simp only: run_append [of _ _ ?ls] cam_def split_beta Let_def close_inv_def) auto
qed

section \<open>An example\<close>

text \<open>A camera with one channel, and the status query it starts with.\<close>

definition query_camera :: GoProBleCamera where
  "query_camera = camera_connect (the (gopro_link_create 0 0 0 0 0 0)) 7 0 False
     \<lparr>at_writes = [BleQuery], at_notifies = [(BleQuery, 23)]\<rparr> 0"

text \<open>
  What the status query of a new camera does: it is written at once, and the \<open>_attach\<close> of \<open>connect\<close>
  does not throw.
\<close>

definition status_query :: bytes where "status_query = [0x13, 8, 10]"
definition status_query_packet :: bytes where "status_query_packet = [0x20, 3, 0x13, 8, 10]"

lemma fresh_submit:
  assumes "kMinAttPayload \<le> sc_att_payload cfg"
  shows "session_submit (live_session cfg) 2 status_query kFastpass now =
     ((live_session cfg)\<lparr>s_queue := (new_queue (sc_queue cfg))\<lparr>q_in_flight :=
       [(new_entry 0x213 status_query kFastpass (Some 0x213) now)\<lparr>e_sent_at_ms := now\<rparr>]\<rparr>\<rparr>,
      [SWrite 2 status_query_packet], True)"
proof -
  have "fragment status_query (sc_att_payload cfg) = Some [status_query_packet]"
    using assms by (simp add: fragment_closed_form fragment_ref_def status_query_def status_query_packet_def kMinAttPayload_def
        kMaxMessageLen_def first_hdr_def Let_def hdr_defs)
  moreover have "channel_of_correlation 0x213 = 2" by (simp add: channel_of_correlation_def kProtobufCorrelationBit_def)
  moreover have "correlation_of 2 0x13 = 0x213" by (simp add: correlation_of_def)
  moreover have q: "status_query \<noteq> []" "status_query ! 0 = 0x13" by (simp_all add: status_query_def)
  ultimately show ?thesis
    using submit_ungated [OF q_inv_new, of "sc_queue cfg" "0x213" kFastpass status_query "Some (0x213 :: CorrelationId)" now]
    by (simp add: session_submit_def enqueue_def set_callbacks_def new_session_def split_beta duplicate_def
        is_in_flight_def on_queue_def q)
       (simp add: new_queue_def)
qed

lemma fresh_bound:
  "\<exists>cfg. kMinAttPayload \<le> sc_att_payload cfg \<and>
     gc_session (bind_link a (fresh_camera link port ka rc)) = Some \<lparr>events_port = port, bc_session = live_session cfg\<rparr>"
  (is "\<exists>cfg. ?P cfg")
proof -
  let ?cfg = "ble_created_config ka 0 0" and ?n = "unat (of_nat (attach_mtu a - 3) :: u32)"
  have c: "kMinAttPayload \<le> sc_att_payload ?cfg"
    by (simp add: ble_created_config_def default_session_config_def kMinAttPayload_def)
  have "set_att_payload (live_session ?cfg) ?n = live_session (?cfg\<lparr>sc_att_payload := ?n\<rparr>)" if "kMinAttPayload \<le> ?n"
    using that by (simp add: set_att_payload_def set_callbacks_def new_session_def)
  then have "?P (?cfg\<lparr>sc_att_payload := ?n\<rparr>)" if "kMinAttPayload \<le> ?n" "attach_mtu a > 3"
    using that by (simp add: bind_link_def on_session_def fresh_camera_def gopro_ble_create_config gopro_ble_set_att_payload_def Let_def)
  moreover have "?P ?cfg" if "\<not> (kMinAttPayload \<le> ?n \<and> attach_mtu a > 3)"
    using that c by (auto simp: bind_link_def on_session_def fresh_camera_def gopro_ble_create_config
        gopro_ble_set_att_payload_def Let_def set_att_payload_def)
  ultimately show ?thesis by blast
qed

lemma fresh_attach:
  "\<not> snd (attach a now (fresh_camera link port ka rc))" (is ?not_thrown)
  "gc_pending (camera_connect link port ka rc a now) = [(0x213, 0)]" (is ?pending)
  "gc_events (camera_connect link port ka rc a now) = [post_object (encode_event (SWrite 2 status_query_packet))]" (is ?events)
  "\<exists>ctx. gc_session (camera_connect link port ka rc a now) = Some ctx \<and>
     q_in_flight (s_queue (bc_session ctx)) = [(new_entry 0x213 status_query kFastpass (Some 0x213) now)\<lparr>e_sent_at_ms := now\<rparr>] \<and>
     q_pending (s_queue (bc_session ctx)) = []" (is ?held)
proof -
  let ?cam = "bind_link a (fresh_camera link port ka rc)"
  obtain cfg where cfg: "kMinAttPayload \<le> sc_att_payload cfg"
    "gc_session ?cam = Some \<lparr>events_port = port, bc_session = live_session cfg\<rparr>" using fresh_bound by blast
  have f: "gc_state (fresh_camera link port ka rc) = LinkIsUp" "gc_pending (fresh_camera link port ka rc) = []"
    "gc_next (fresh_camera link port ka rc) = 0" "gc_state ?cam = LinkIsUp" "gc_pending ?cam = []" "gc_events ?cam = []" "gc_next ?cam = 0"
    by (auto simp: bind_link_def on_session_def fresh_camera_def Let_def split: option.split)
  have n: "native_bytes [0x13, kBusyStatusId, kEncodingStatusId] = status_query"
    by (simp add: native_bytes_def kBusyStatusId_def kEncodingStatusId_def status_query_def)
  have s: "span (Some status_query) 3 = status_query" by (simp add: span_def status_query_def)
  have d: "dart_correlation_of BleQuery 0x13 = 0x213" by (simp add: dart_correlation_of_def)
  have p: "priority_of 1 = kFastpass" by (simp add: priority_of_def)
  note defs = p fst_attach attach_def connect_attaches query_statuses_def camera_send_def send_as_def bindings_submit_def
    gopro_ble_submit_def n s d f cfg(2) fresh_submit [OF cfg(1)] kChannelCount_def post_events_def
  show ?not_thrown ?pending ?events ?held by (simp_all add: defs new_queue_def)
qed

lemma query_camera_fields:
  "\<exists>ctx. gc_session query_camera = Some ctx \<and> is_in_flight (s_queue (bc_session ctx)) 0x213 \<and>
     response_id (bc_session ctx) 2 [0x13, 0, 8, 1, 0, 10, 1, 0] = 0x213"
  "gc_state query_camera = LinkIsUp" "gc_subs query_camera = [(BleQuery, True)]" "gc_pending query_camera = [(0x213, 0)]"
proof -
  let ?wide = "protobuf_correlation_of_message 2 [0x13, 0, 8, 1, 0, 10, 1, 0]"
  have i: "correlation_of 2 0x13 = 0x213" "(0x213 = ?wide) = False"
    by (simp_all add: correlation_of_def protobuf_correlation_of_message_def correlation_of_protobuf_def kProtobufCorrelationBit_def)
  from fresh_attach(4) [of "the (gopro_link_create 0 0 0 0 0 0)" 7 0 False "\<lparr>at_writes = [BleQuery], at_notifies = [(BleQuery, 23)]\<rparr>" 0]
  show "\<exists>ctx. gc_session query_camera = Some ctx \<and> is_in_flight (s_queue (bc_session ctx)) 0x213 \<and>
     response_id (bc_session ctx) 2 [0x13, 0, 8, 1, 0, 10, 1, 0] = 0x213"
    by (auto simp: query_camera_def is_in_flight_def response_id_def Let_def correlation_of_message_def i)
  show "gc_state query_camera = LinkIsUp" "gc_subs query_camera = [(BleQuery, True)]" "gc_pending query_camera = [(0x213, 0)]"
    by (simp_all add: query_camera_def connect_frame fresh_attach)
qed

section \<open>Properties\<close>

text \<open>
  C3. Every future completes exactly once: in any run of a connected camera, the completions of
  a future and its entry among the pending commands add up to one if it has been handed
  out, and to none otherwise. No reply, timeout, drop or close completes a future twice or
  forgets one.
\<close>

theorem futures_complete_exactly_once:
  "let (cam, outs) = run cam_step (camera_connect link port ka rc a now) ls in
   completions f outs + held f cam = of_bool (f < gc_next cam)"
  using camera_flow.flow_run [of f link port ka rc a now ls] by (simp add: split_beta made_def)

text \<open>
  C4. While the link is up every pending command is accounted for: along any sends of lists of
  bytes, notifications, ticks, drops and deliveries, an id other than the keep-alive's is pending in
  Dart exactly if the native queue holds its command or its answer waits in the receive port,
  and never both. No such command is lost between the two sides. The keep-alive's id is left
  out: the session submits it too, and rejects its own command under the client's id.
\<close>

theorem pending_commands_accounted:
  assumes "list_all byte_label ls" "i \<noteq> keep_alive_id"
    and "cam = fst (run cam_step (camera_connect link port ka rc a now) ls)" "gc_state cam = LinkIsUp"
  shows "\<exists>ctx. gc_session cam = Some ctx \<and> waiting i cam = q_owed i (s_queue (bc_session ctx)) + answers i (gc_events cam) \<and>
    waiting i cam \<le> 1"
proof -
  have "up_inv cam" unfolding assms(3) using assms(1) by (rule camera_up.guarded_run)
  then have "backed cam" "keys_ok cam" using assms(4) by (auto simp: up_inv_def)
  then show ?thesis using assms(2) waiting_le_one [of cam i]
    by (auto simp: backed_def s_owed_def split: option.splits)
qed

theorem pending_commands_accounted_witness:
  "\<exists>ctx. gc_session query_camera = Some ctx \<and>
     waiting 0x213 query_camera = q_owed 0x213 (s_queue (bc_session ctx)) + answers 0x213 (gc_events query_camera) \<and>
     waiting 0x213 query_camera \<le> 1"
proof -
  have i: "(0x213 :: CorrelationId) \<noteq> keep_alive_id"
    by (simp add: keep_alive_id_def correlation_of_def channel_defs kLedSettingId_def)
  have "query_camera = fst (run cam_step (camera_connect (the (gopro_link_create 0 0 0 0 0 0)) 7 0 False
      \<lparr>at_writes = [BleQuery], at_notifies = [(BleQuery, 23)]\<rparr> 0) [])"
    by (simp add: query_camera_def)
  from pending_commands_accounted [OF _ i this query_camera_fields(2)] show ?thesis by simp
qed

text \<open>
  C25. A close settles everything: once \<open>close\<close> has been called on a camera that does not reconnect
  and has run its pieces, at most two for each subscription and two more, whatever else the
  event loop runs in between and afterwards, the camera is closed, every future that was ever
  handed out has been completed exactly once, and a send is refused.
\<close>

theorem close_settles_everything:
  assumes "2 * length (at_notifies a) + 2 \<le> count_list ls' CCloseNext"
  shows "let (cam, outs) = run cam_step (camera_connect link port ka False a now) (ls @ [CClose] @ ls') in
   gc_closing cam = Closed \<and> completions f outs = of_bool (f < gc_next cam) \<and>
   camera_send ch payload pr t cam = (cam, Inl LinkNotUp)"
proof -
  let ?start = "camera_connect link port ka False a now" and ?L = "length (at_notifies a)"
  let ?begun = "fst (run cam_step ?start (ls @ [CClose]))"
  let ?run = "run cam_step ?start (ls @ [CClose] @ ls')"
  have inv: "free_inv ?L ?begun" "free_inv ?L (fst ?run)" by (rule camera_free.inv_run)+
  have "gc_closing ?begun \<noteq> NotClosing"
    using close_begin_down [of "fst (run cam_step ?start ls)"] inv(1) by (auto simp: free_inv_def close_inv_def run_append split_beta)
  moreover have "fst ?run = fst (run cam_step ?begun ls')" by (simp add: run_append split_beta Let_def)
  ultimately have begun: "gc_closing (fst ?run) \<noteq> NotClosing" "close_left (fst ?run) \<le> close_left ?begun - count_list ls' CCloseNext"
    using close_left_run [OF inv(1), of ls'] by simp_all
  then have "gc_closing (fst ?run) = Closed" using nothing_left [OF inv(2) begun(1)] close_left_bound [OF inv(1)] assms by simp
  moreover have "completions f (snd ?run) + held f (fst ?run) = of_bool (f < gc_next (fst ?run))"
    using camera_flow.flow_run [of f link port ka False a now "ls @ [CClose] @ ls'"] by (simp add: made_def)
  ultimately show ?thesis using inv(2) by (auto simp: split_beta free_inv_def close_inv_def held_def)
qed

theorem close_settles_everything_witness:
  "let (cam, outs) = run cam_step (camera_connect (the (gopro_link_create 0 0 0 0 0 0)) 7 0 False
         \<lparr>at_writes = [BleQuery], at_notifies = [(BleQuery, 23)]\<rparr> 0)
         ([CSend BleCommand [5] None 1] @ [CClose] @ [CCloseNext, CEvent, CCloseNext, CCloseNext, CCloseNext]) in
   gc_closing cam = Closed \<and> completions 0 outs = of_bool (0 < gc_next cam) \<and>
   camera_send BleQuery [1] None 9 cam = (cam, Inl LinkNotUp)"
  by (rule close_settles_everything) simp

text \<open>
  C24. Freed handles are not used: a camera that does not reconnect never calls the native
  library on a session or link handle that has been destroyed, in any run.
\<close>

theorem no_use_after_free:
  "\<not> gc_use_after_free (fst (run cam_step (camera_connect link port ka False a now) ls))"
  using camera_free.inv_run by (simp add: free_inv_def)

end
