(* ===== verification/Camera_Reply.thy ===== *)
theory Camera_Reply
  imports Ble_Camera
begin

text \<open>
  The way of a reply through all the layers: from the packets of a notification through the
  reassembler, the session, the queue, the encoder, the receive port and the decoder to the
  future of the caller.
\<close>

section \<open>A whole message at the session\<close>

lemma feed_message:
  assumes "feed_all r ps = (r', replicate (length ps - 1) kNeedMore @ [kComplete])" "ps \<noteq> []" "rx_take r' = (r0, m)"
    and "unat c < kChannelCount" "unat c < length (s_rx s)" "s_rx s ! unat c = r"
  shows "run s_step s (map (\<lambda>p. SFeed c p now) ps) = deliver (s\<lparr>s_rx := (s_rx s)[unat c := r0]\<rparr>) c m now"
  using assms
proof (induction ps arbitrary: r s)
  case (Cons p ps)
  obtain r1 res where f: "feed r p = (r1, res)" by fastforce
  show ?case
  proof (cases ps)
    case Nil
    then have "r1 = r'" "res = kComplete" using Cons.prems(1) by (simp_all add: f)
    then show ?thesis using Cons.prems Nil by (simp add: session_feed_def f split_beta)
  next
    case (Cons p' ps')
    then have rest: "res = kNeedMore" "feed_all r1 ps = (r', replicate (length ps - 1) kNeedMore @ [kComplete])"
      using Cons.prems(1) by (simp_all add: f split_beta prod_eq_iff)
    let ?s = "s\<lparr>s_rx := (s_rx s)[unat c := r1]\<rparr>"
    have "session_feed s c p now = (?s, [])" using Cons.prems rest(1) by (simp add: session_feed_def f)
    moreover have "run s_step ?s (map (\<lambda>p. SFeed c p now) ps) = deliver (?s\<lparr>s_rx := (s_rx ?s)[unat c := r0]\<rparr>) c m now"
      using Cons.prems by (intro Cons.IH [OF rest(2)]) (simp_all add: Cons)
    ultimately show ?thesis by (simp add: split_beta)
  qed
qed simp

lemma live_rx: "s_live s \<Longrightarrow> length (s_rx s) = kChannelCount"
  by (simp add: s_live_def s_inv_def)

lemma message_answers:
  assumes "s_live s" "unat c < kChannelCount" "framed m ps" "is_in_flight (s_queue s) (response_id s c m)"
  shows "\<exists>rest. snd (run s_step s (map (\<lambda>p. SFeed c p now) ps)) = SResponse (response_id s c m) kResponded m # rest"
proof -
  let ?s = "s\<lparr>s_rx := (s_rx s)[unat c := rx_init]\<rparr>"
  have f: "frames (length m) m ps" using assms(3) by (simp add: framed_def)
  then have "ps \<noteq> []" using frames_nonempty by blast
  with feed_all_frames [OF f, of "s_rx s ! unat c"]
  have run: "run s_step s (map (\<lambda>p. SFeed c p now) ps) = deliver ?s c m now"
    using assms(2) live_rx [OF assms(1)] by (intro feed_message) (auto simp: rx_verdict_def)
  have "response_id ?s c m = response_id s c m" by (simp add: response_id_def Let_def)
  moreover have "s_live ?s" using assms(1) by (simp add: s_live_def s_inv_def)
  ultimately show ?thesis using deliver_events [of ?s c m now] assms(4) by (simp add: run)
qed

section \<open>Notifications\<close>

lemma sint_of_length: "n < 2 ^ 31 \<Longrightarrow> sint (of_nat n :: i32) = int n"
  by (simp add: sint_uint unsigned_of_nat signed_take_bit_int_eq_self take_bit_nat_eq_self)

lemma span_whole: "length p < 2 ^ 31 \<Longrightarrow> span (Some p) (of_nat (length p)) = p"
  by (simp add: span_def sint_of_length)

lemma notify_feeds:
  assumes "gc_session cam = Some ctx" "p \<noteq> []" "length p < 2 ^ 31"
  shows "on_session (bindings_feed ch p now) cam = stepped cam ctx (SFeed (ble_channel_value ch) p now)"
proof -
  have "0 \<le> sint (of_nat (length p) :: i32)" using assms(3) by (simp add: sint_of_length)
  then have "sop_of (BFeed (ble_channel_value ch) (Some p) (of_nat (length p)) now) = Some (SFeed (ble_channel_value ch) p now)"
    using span_whole [OF assms(3)] by simp
  with on_session_b_step [OF assms(1), of "BFeed (ble_channel_value ch) (Some p) (of_nat (length p)) now"]
  show ?thesis using assms(2) by (simp add: on_session_def bindings_feed_def assms(1))
qed

lemma notify_run:
  assumes "gc_session cam = Some ctx" "(ch, True) \<in> set (gc_subs cam)" "list_all (\<lambda>p. p \<noteq> [] \<and> length p < 2 ^ 31) ps"
  shows "run cam_step cam (map (\<lambda>p. CNotify ch p now) ps) =
    (let (s, evs) = run s_step (bc_session ctx) (map (\<lambda>p. SFeed (ble_channel_value ch) p now) ps) in
     (cam\<lparr>gc_session := Some (ctx\<lparr>bc_session := s\<rparr>),
          gc_events := gc_events cam @ map (post_object \<circ> snd) (post_events (events_port ctx) evs)\<rparr>, []))"
  using assms
proof (induction ps arbitrary: cam ctx)
  case (Cons p ps)
  let ?s = "s_step (bc_session ctx) (SFeed (ble_channel_value ch) p now)"
  have step: "cam_step cam (CNotify ch p now) = (stepped cam ctx (SFeed (ble_channel_value ch) p now), [])"
    using Cons.prems by (simp add: notify_feeds)
  have "gc_session (stepped cam ctx (SFeed (ble_channel_value ch) p now)) = Some (ctx\<lparr>bc_session := fst ?s\<rparr>)"
    by (simp add: stepped_def split_beta del: s_step.simps)
  note IH = Cons.IH [OF this]
  show ?case using IH Cons.prems
    by (simp add: step split_beta Let_def stepped_def post_events_def del: s_step.simps cam_step.simps)
qed (simp add: post_events_def)

section \<open>Delivery\<close>

lemma other_event_keeps:
  assumes "\<not> is_answer i m"
  shows "map_of (gc_pending (fst (on_event m cam))) (sint i) = map_of (gc_pending cam) (sint i)"
proof (cases "\<exists>j outcome payload. Option.bind (as_uint8list m) ble_decode = Some (BleResponse j outcome payload)")
  case True
  then obtain j outcome payload where r: "Option.bind (as_uint8list m) ble_decode = Some (BleResponse j outcome payload)" by blast
  then have "sint i \<noteq> sint j" using assms by (auto simp: is_answer_def sint_eq_iff)
  then have "map_of (filter (\<lambda>(k, f). k \<noteq> sint j) ps) (sint i) = map_of ps (sint i)" for ps :: "(int \<times> nat) list"
    by (induction ps) auto
  then show ?thesis by (simp add: on_event_response [OF r])
next
  case False
  then have "fst (on_event m cam) = cam" by (intro on_event_cases) blast
  then show ?thesis by simp
qed

lemma on_event_events [simp]: "gc_events (fst (on_event m cam)) = gc_events cam"
  by (auto simp: on_event_def split: option.splits BleEvent.splits)

lemma delivered_in_turn:
  assumes "gc_events cam = xs @ m # ys" "answers i xs = 0" "map_of (gc_pending cam) (sint i) = Some f"
    and "Option.bind (as_uint8list m) ble_decode = Some (BleResponse i outcome payload)"
  shows "Complete f (sint i) outcome payload \<in> set (snd (run cam_step cam (replicate (Suc (length xs)) CEvent)))"
  using assms
proof (induction xs arbitrary: cam)
  case Nil
  then show ?case by (auto simp: on_event_def bind_eq_Some_conv split_beta)
next
  case (Cons x xs)
  let ?cam = "fst (on_event x (cam\<lparr>gc_events := xs @ m # ys\<rparr>))"
  have "\<not> is_answer i x" "answers i xs = 0" using Cons.prems(2) by simp_all
  then have "Complete f (sint i) outcome payload \<in> set (snd (run cam_step ?cam (replicate (Suc (length xs)) CEvent)))"
    using Cons.prems by (intro Cons.IH) (simp_all add: other_event_keeps)
  then show ?case using Cons.prems(1) by (simp add: split_beta)
qed

lemma singleton_by_length: "x \<in> set xs \<Longrightarrow> length xs \<le> 1 \<Longrightarrow> xs = [x]"
  by (cases xs) auto

section \<open>Properties\<close>

text \<open>
  C2. A reply reaches its caller: in any run that has left the link up, let the command of a
  pending future be in flight, with an id other than the keep-alive's. If the camera's reply to
  it arrives on a subscribed channel, in any packets that frame it (a GENERAL, an EXT_13 or an
  EXT_16 header, any number of packets of any sizes), then delivering what is in the receive
  port completes exactly this future, with the camera's own bytes.
\<close>

theorem reply_reaches_caller:
  assumes "list_all byte_label ls" "cam = fst (run cam_step (camera_connect link port ka rc a now) ls)"
    and "gc_state cam = LinkIsUp" "gc_session cam = Some ctx" "(ch, True) \<in> set (gc_subs cam)"
    and "map_of (gc_pending cam) (sint i) = Some f" "i \<noteq> keep_alive_id" "is_in_flight (s_queue (bc_session ctx)) i"
    and "response_id (bc_session ctx) (ble_channel_value ch) m = i"
    and "framed m ps" "list_all (\<lambda>p. length p < 2 ^ 31) ps"
  shows "filter (completes f) (snd (run cam_step cam
     (map (\<lambda>p. CNotify ch p t) ps @ replicate (Suc (length (gc_events cam))) CEvent))) =
     [Complete f (sint i) kResponded m]"
proof -
  let ?s = "bc_session ctx"
  have "up_inv cam" unfolding assms(2) using assms(1) by (rule camera_up.guarded_run)
  then have b: "backed cam" "keys_ok cam" using assms(3) by (auto simp: up_inv_def)
  then have live: "s_live ?s" and acc: "waiting i cam = q_owed i (s_queue ?s) + answers i (gc_events cam)"
    using assms(4,7) by (auto simp: backed_def s_owed_def)
  have "duplicate (s_queue ?s) i" using assms(8) by (simp add: duplicate_def)
  then have "0 < q_owed i (s_queue ?s)"
    using duplicate_owed [of ?s i] live assms(7) by (simp add: s_live_def s_owed_def)
  then have none: "answers i (gc_events cam) = 0" using acc waiting_le_one [OF b(2), of i] by simp
  have sizes: "list_all (\<lambda>p. p \<noteq> [] \<and> length p < 2 ^ 31) ps"
    using assms(11) frames_nonempty [OF assms(10) [unfolded framed_def]] by (simp add: list_all_iff)
  obtain s evs where r: "run s_step ?s (map (\<lambda>p. SFeed (ble_channel_value ch) p t) ps) = (s, evs)"
    by fastforce
  then obtain rest where evs: "evs = SResponse i kResponded m # rest"
    using message_answers [OF live _ assms(10), of "ble_channel_value ch" t] assms(8,9) by auto
  let ?cam = "fst (run cam_step cam (map (\<lambda>p. CNotify ch p t) ps))"
  have quiet: "snd (run cam_step cam (map (\<lambda>p. CNotify ch p t) ps)) = []"
    and cam: "gc_pending ?cam = gc_pending cam"
    "gc_events ?cam = gc_events cam @ post_object (encode_event (SResponse i kResponded m)) #
        map (post_object \<circ> snd) (post_events (events_port ctx) rest)"
    by (simp_all add: notify_run [OF assms(4,5) sizes] r evs post_events_def)
  have "Complete f (sint i) kResponded m \<in> set (snd (run cam_step ?cam (replicate (Suc (length (gc_events cam))) CEvent)))"
    using assms(6) none cam by (intro delivered_in_turn [OF cam(2)]) (simp_all add: decode_encode del: encode_event.simps)
  then have once: "Complete f (sint i) kResponded m \<in> set (filter (completes f) (snd (run cam_step cam
      (map (\<lambda>p. CNotify ch p t) ps @ replicate (Suc (length (gc_events cam))) CEvent))))"
    by (simp add: run_append quiet split_beta del: replicate_Suc)
  have "held f cam \<le> made f cam"
    unfolding assms(2) camera_flow.flow_run [symmetric] by (rule le_add2)
  moreover have one: "made f c \<le> 1" for c by (simp add: made_def)
  moreover have "0 < held f cam" using map_of_SomeD [OF assms(6)]
    by (auto simp: held_def filter_empty_conv)
  ultimately have "made f cam = 1" "held f cam = 1" using one [of cam] by linarith+
  then have "completions f (snd (run cam_step cam ls')) \<le> 1" for ls'
    using camera_flow.flow_run_from [OF b(2), of f ls'] one [of "fst (run cam_step cam ls')"] by linarith
  then show ?thesis using once by (intro singleton_by_length) (simp_all add: completions_def)
qed

text \<open>The first status query of a camera is answered with a GENERAL header in three notifications.\<close>

definition status_reply :: bytes where
  "status_reply = [0x13, 0, 8, 1, 0, 10, 1, 0]"

definition status_packets :: "bytes list" where
  "status_packets = [[8, 0x13, 0, 8], [0x80, 1, 0], [0x81, 10, 1, 0]]"

lemma status_framed: "framed status_reply status_packets"
proof -
  have "declares [8] 8" using declares.general [of 8] by simp
  then have "frames 8 [0x13, 0, 8] [[8] @ [0x13, 0, 8]]" by (rule frames.first) simp_all
  then have "frames 8 ([0x13, 0, 8] @ [1, 0]) ([[8] @ [0x13, 0, 8]] @ [0x80 # [1, 0]])"
    by (rule frames.continued) (simp_all add: kContMask_def)
  then have "frames 8 (([0x13, 0, 8] @ [1, 0]) @ [10, 1, 0]) (([[8] @ [0x13, 0, 8]] @ [0x80 # [1, 0]]) @ [0x81 # [10, 1, 0]])"
    by (rule frames.continued) (simp_all add: kContMask_def)
  moreover have "length status_reply = 8" by (simp add: status_reply_def)
  ultimately show ?thesis by (simp add: framed_def) (simp add: status_reply_def status_packets_def)
qed

theorem reply_reaches_caller_witness:
  "filter (completes 0) (snd (run cam_step query_camera
     (map (\<lambda>p. CNotify BleQuery p 9) status_packets @ replicate (Suc (length (gc_events query_camera))) CEvent))) =
     [Complete 0 0x213 kResponded status_reply]"
proof -
  obtain ctx where ctx: "gc_session query_camera = Some ctx" "is_in_flight (s_queue (bc_session ctx)) 0x213"
    "response_id (bc_session ctx) (ble_channel_value BleQuery) status_reply = 0x213"
    using query_camera_fields(1) by (auto simp: status_reply_def)
  have i: "(0x213 :: CorrelationId) \<noteq> keep_alive_id" "sint (0x213 :: CorrelationId) = 0x213"
    by (simp_all add: keep_alive_id_def correlation_of_def channel_defs kLedSettingId_def)
  have sizes: "list_all (\<lambda>p. length p < 2 ^ 31) status_packets" by (simp add: status_packets_def)
  have "list_all byte_label []" "(BleQuery, True) \<in> set (gc_subs query_camera)"
    "map_of (gc_pending query_camera) (sint (0x213 :: CorrelationId)) = Some 0"
    "query_camera = fst (run cam_step (camera_connect (the (gopro_link_create 0 0 0 0 0 0)) 7 0 False
       \<lparr>at_writes = [BleQuery], at_notifies = [(BleQuery, 23)]\<rparr> 0) [])"
    using query_camera_fields(3,4) by (simp_all add: i(2) query_camera_def)
  from reply_reaches_caller [OF this(1,4) query_camera_fields(2) ctx(1) this(2,3) i(1) ctx(2,3) status_framed sizes, of 9]
  show ?thesis by (simp add: i(2) del: replicate_Suc)
qed

end
