(* ===== verification/Bring_Up.thy ===== *)
theory Bring_Up
  imports Ble_Camera "HOL-Library.AList"
begin

text \<open>
  Bring-up on the Dart side, class \<open>GoProBleTransport\<close> of \<open>lib/src/ble_transport.dart\<close>: the loop that
  observes BlueZ, consults the link machine and carries out its advice, and \<open>connect\<close>, which
  makes a camera of the result. BlueZ is another package: what a turn of the loop reads from
  it, and which of its calls fail, is the argument \<open>Turn\<close>, one per turn, and the calls are a trace.
  Characteristics are named by their object paths. Times are those the stopwatch shows.

  The lemmas show that the channels subscribed are always the first few located, that a
  return means evidence and a failure carries an explanation, and that the loop ends.
\<close>

section \<open>What BlueZ shows\<close>

record GattChar =
  ch_path :: string
  ch_uuid :: string

record BlueZDevice =
  dev_path :: string
  dev_address :: string
  dev_address_type :: string
  dev_alias :: string
  dev_uuids :: "string list"
  dev_connected :: bool
  dev_paired :: bool
  dev_chars :: "GattChar list"

record BlueZAdapter =
  ad_powered :: bool
  ad_discovering :: bool

datatype BlueZCall =
    SetPowered | StartDiscovery | DisconnectDevice string | ConnectDevice string | PairDevice string
  | StopNotify string | StartNotify string | Sleep int

record Turn =
  t_elapsed :: nat
  t_devices :: "BlueZDevice list"
  t_adapters :: "BlueZAdapter list"
  t_now_ms :: u64
  t_act_ms :: u64
  t_failed_ms :: u64
  t_notifying :: "string \<Rightarrow> bool"
  t_fails :: "BlueZCall \<Rightarrow> bool"

section \<open>Selecting a camera\<close>

text \<open>Case conversion of ASCII characters; the strings compared are addresses and UUIDs.\<close>

definition lower_char :: "char \<Rightarrow> char" where
  "lower_char c = (let n = of_char c :: nat in if 65 \<le> n \<and> n \<le> 90 then char_of (n + 32) else c)"

definition upper_char :: "char \<Rightarrow> char" where
  "upper_char c = (let n = of_char c :: nat in if 97 \<le> n \<and> n \<le> 122 then char_of (n - 32) else c)"

definition controlQueryService :: string where
  "controlQueryService = ''0000fea6-0000-1000-8000-00805f9b34fb''"

definition gp_uuid :: "string \<Rightarrow> string" where
  "gp_uuid short = ''b5f9'' @ short @ ''-aa8d-11e3-9046-0002a5d5c51b''"

text \<open>Channel, write UUID and notify UUID.\<close>

definition characteristics :: "(BleChannel \<times> string \<times> string) list" where
  "characteristics =
     [(BleCommand, gp_uuid ''0072'', gp_uuid ''0073''),
      (BleSettings, gp_uuid ''0074'', gp_uuid ''0075''),
      (BleQuery, gp_uuid ''0076'', gp_uuid ''0077'')]"

definition optionalChars :: "(BleChannel \<times> string \<times> string) list" where
  "optionalChars = [(BleNetwork, gp_uuid ''0091'', gp_uuid ''0092'')]"

definition is_camera :: "BlueZDevice \<Rightarrow> bool" where
  "is_camera d \<longleftrightarrow> dev_address_type d = ''random'' \<and>
     list_ex (\<lambda>u. map lower_char u = controlQueryService) (dev_uuids d)"

definition candidate :: "string option \<Rightarrow> BlueZDevice list \<Rightarrow> BlueZDevice option" where
  "candidate address ds =
     List.find (\<lambda>d. is_camera d \<and>
       (case address of None \<Rightarrow> True | Some a \<Rightarrow> map upper_char (dev_address d) = map upper_char a)) ds"

definition transport_cameras :: "BlueZDevice list \<Rightarrow> (string \<times> string) list" where
  "transport_cameras ds =
     fold (\<lambda>d m. if is_camera d then AList.update (dev_address d) (dev_alias d) m else m) ds []"

definition classicLink :: "BlueZDevice list \<Rightarrow> BlueZDevice option" where
  "classicLink ds =
     List.find (\<lambda>d. dev_address_type d = ''public'' \<and> dev_connected d \<and> take 5 (dev_alias d) = ''GoPro'') ds"

section \<open>One climb\<close>

text \<open>Dart maps keep the order in which keys were first inserted.\<close>

type_synonym ChannelMap = "(BleChannel \<times> GattChar) list"

definition chars_complete :: "ChannelMap \<Rightarrow> ChannelMap \<Rightarrow> bool" where
  "chars_complete writes notifies \<longleftrightarrow>
     list_all (\<lambda>(c, w, n). c \<in> fst ` set writes \<and> c \<in> fst ` set notifies) characteristics"

definition locate_chars :: "GattChar list \<Rightarrow> ChannelMap \<Rightarrow> ChannelMap \<Rightarrow> ChannelMap \<times> ChannelMap" where
  "locate_chars chars writes notifies =
     fold (\<lambda>(channel, w, n) maps. fold (\<lambda>c (ws, ns).
         (let uuid = map lower_char (ch_uuid c)
          in (if uuid = w then AList.update channel c ws else ws,
              if uuid = n then AList.update channel c ns else ns))) chars maps)
       (characteristics @ optionalChars) (writes, notifies)"

text \<open>
  \<open>_subscribe\<close>: the channels subscribed, the calls with whether each succeeded, and whether an
  exception left it. A failing \<open>stopNotify\<close> is caught, a failing \<open>startNotify\<close> is not.
\<close>

fun subscribe :: "Turn \<Rightarrow> nat option \<Rightarrow> nat \<Rightarrow> ChannelMap \<Rightarrow> BleChannel list \<Rightarrow>
    BleChannel list \<times> (BlueZCall \<times> bool) list \<times> bool" where
  "subscribe t only attempted [] subscribed = (subscribed, [], False)"
| "subscribe t only attempted ((channel, c) # rest) subscribed =
     (if channel \<in> set subscribed then subscribe t only attempted rest subscribed
      else if (case only of None \<Rightarrow> False | Some k \<Rightarrow> k \<le> attempted) then (subscribed, [], False)
      else
        (let stop = StopNotify (ch_path c);
             start = StartNotify (ch_path c);
             calls = (if t_notifying t (ch_path c) then [(stop, \<not> t_fails t stop)] else [])
         in if t_fails t start then (subscribed, calls @ [(start, False)], True)
            else
              (let (subscribed, later, threw) = subscribe t only (Suc attempted) rest (subscribed @ [channel])
               in (subscribed, calls @ (start, True) # later, threw))))"

text \<open>A sequence of awaited calls, left at the first that fails.\<close>

fun await_calls :: "Turn \<Rightarrow> BlueZCall list \<Rightarrow> (BlueZCall \<times> bool) list \<times> bool" where
  "await_calls t [] = ([], False)"
| "await_calls t (c # cs) =
     (if t_fails t c then ([(c, False)], True)
      else (let (done, threw) = await_calls t cs in ((c, True) # done, threw)))"

record BringUp =
  bu_link :: "LinkContext option"
  bu_writes :: ChannelMap
  bu_notifies :: ChannelMap
  bu_subscribed :: "BleChannel list"
  bu_last :: "LinkAdvice option"
  bu_trace :: "(BlueZCall \<times> bool) list"

datatype BringUpResult =
    BroughtUp BlueZDevice ChannelMap ChannelMap
  | GoProBleException LinkState StallReason string

text \<open>
  \<open>_act\<close>: the wait, then the action. A failing call of BlueZ is noted as a failed attempt; having
  no adapter raises an exception of another class, which leaves the loop.
\<close>

definition act_wait :: "LinkAdvice \<Rightarrow> Turn \<Rightarrow> (BlueZCall \<times> bool) list" where
  "act_wait advice t =
     (let wait = uint (adv_retry_at_ms advice) - uint (t_act_ms t)
      in if wait > 0 then [(Sleep wait, True)] else [])"

definition act_calls :: "LinkAdvice \<Rightarrow> BlueZDevice option \<Rightarrow> BlueZDevice option \<Rightarrow> Turn \<Rightarrow> BringUp \<Rightarrow>
    BleChannel list \<times> (BlueZCall \<times> bool) list \<times> bool" where
  "act_calls advice device classic t st =
     (let awaiting = (\<lambda>cs. (bu_subscribed st, await_calls t cs));
          only_sleep = (\<lambda>ms. (bu_subscribed st, [(Sleep ms, True)], False));
          adapter = hd (t_adapters t)
      in case adv_action advice of
           kScan \<Rightarrow>
             (case awaiting ((if ad_powered adapter then [] else [SetPowered]) @
                             (if ad_discovering adapter then [] else [StartDiscovery])) of
                (s, calls, threw) \<Rightarrow> (s, if threw then calls else calls @ [(Sleep 2000, True)], threw))
         | kDisconnectClassic \<Rightarrow> awaiting (case classic of None \<Rightarrow> [] | Some d \<Rightarrow> [DisconnectDevice (dev_path d)])
         | kConnect \<Rightarrow> awaiting (case device of None \<Rightarrow> [] | Some d \<Rightarrow> [ConnectDevice (dev_path d)])
         | kWaitForServices \<Rightarrow> only_sleep 500
         | kPair \<Rightarrow>
             (case awaiting (case device of None \<Rightarrow> [] | Some d \<Rightarrow> if dev_paired d then [] else [PairDevice (dev_path d)]) of
                (s, calls, threw) \<Rightarrow>
                  if threw then (s, calls, True)
                  else (case subscribe t (Some 1) 0 (bu_notifies st) s of
                          (s, starts, threw) \<Rightarrow> (s, calls @ starts, threw)))
         | kSubscribe \<Rightarrow> subscribe t None 0 (bu_notifies st) (bu_subscribed st)
         | LinkAction.kNone \<Rightarrow> only_sleep 100)"

definition act :: "LinkAdvice \<Rightarrow> BlueZDevice option \<Rightarrow> BlueZDevice option \<Rightarrow> Turn \<Rightarrow> BringUp \<Rightarrow>
    BringUp \<times> BringUpResult option" where
  "act advice device classic t st =
     (if adv_action advice = kScan \<and> t_adapters t = [] then
        (st\<lparr>bu_trace := bu_trace st @ act_wait advice t\<rparr>,
         Some (GoProBleException kAbsent kNoAdvertisement ''no Bluetooth adapter is present''))
      else
        (case act_calls advice device classic t st of
           (subscribed, calls, threw) \<Rightarrow>
             (st\<lparr>bu_link := (if threw then gopro_link_note_failure (bu_link st) (t_failed_ms t) else bu_link st),
                 bu_subscribed := subscribed, bu_trace := bu_trace st @ act_wait advice t @ calls\<rparr>, None)))"

text \<open>What a bare timeout means, by the stage it reached.\<close>

fun timedOutAt :: "LinkState \<Rightarrow> string" where
  "timedOutAt kAbsent =
     ''Nothing advertising the Control & Query service. The camera is asleep, '' @
     ''powered off, or has wireless disabled.''"
| "timedOutAt kAdvertising =
     ''The camera is advertising but would not accept a connection. Another '' @
     ''host may already be connected to it.''"
| "timedOutAt kConnected = ''Connected, but the camera never exposed its GATT services.''"
| "timedOutAt kServicesResolved =
     ''Connected and enumerated, but the link never became encrypted. The LE '' @
     ''bond is missing or stale: remove the pairing on this host, put the '' @
     ''camera into pairing mode, and try again.''"
| "timedOutAt kEncrypted =
     ''Encrypted, but not every Control & Query characteristic could be '' @
     ''subscribed.''"
| "timedOutAt kReady = ''Reached ready but bring-up did not complete.''"

definition timed_out :: "LinkAdvice option \<Rightarrow> BringUpResult" where
  "timed_out advised =
     (case advised of
        None \<Rightarrow> GoProBleException kAbsent kNoAdvertisement (timedOutAt kAbsent)
      | Some adv \<Rightarrow> GoProBleException (adv_state adv) (adv_stall adv)
          (if adv_detail adv \<noteq> '''' then adv_detail adv else timedOutAt (adv_state adv)))"

text \<open>What the loop tells the link machine.\<close>

definition observe_turn :: "BlueZDevice option \<Rightarrow> BlueZDevice option \<Rightarrow> ChannelMap \<Rightarrow> ChannelMap \<Rightarrow> BleChannel list \<Rightarrow>
    LinkObservation" where
  "observe_turn device classic writes notifies subscribed =
     \<lparr>le_candidate_present = device \<noteq> None,
      classic_link_up = classic \<noteq> None,
      obs_connected = (case device of None \<Rightarrow> False | Some d \<Rightarrow> dev_connected d),
      bonded_flag = (case device of None \<Rightarrow> False | Some d \<Rightarrow> dev_paired d),
      attribute_count = (case device of None \<Rightarrow> 0 | Some d \<Rightarrow> length (dev_chars d)),
      control_chars_found = chars_complete writes notifies,
      notify_succeeded = subscribed \<noteq> [],
      subscribed_count = length subscribed,
      required_subscriptions = length characteristics\<rparr>"

text \<open>One turn of the loop: the new state, and the result if the loop is left.\<close>

definition bring_up_turn :: "nat \<Rightarrow> string option \<Rightarrow> Turn \<Rightarrow> BringUp \<Rightarrow> BringUp \<times> BringUpResult option" where
  "bring_up_turn timeout address t st =
     (if \<not> t_elapsed t < timeout then (st, Some (timed_out (bu_last st)))
      else
        (let device = candidate address (t_devices t);
             classic = classicLink (t_devices t);
             (writes, notifies) =
               (case device of
                  Some d \<Rightarrow>
                    if dev_connected d \<and> \<not> chars_complete (bu_writes st) (bu_notifies st)
                    then locate_chars (dev_chars d) (bu_writes st) (bu_notifies st)
                    else (bu_writes st, bu_notifies st)
                | None \<Rightarrow> (bu_writes st, bu_notifies st));
             (link, advice) = dart_link_update (bu_link st)
               (observe_turn device classic writes notifies (bu_subscribed st)) (t_now_ms t);
             st = st\<lparr>bu_link := link, bu_writes := writes, bu_notifies := notifies\<rparr>
         in case advice of
              None \<Rightarrow> (st, Some (GoProBleException kAbsent StallReason.kNone ''native and Dart link enums have drifted''))
            | Some adv \<Rightarrow>
                (let st = st\<lparr>bu_last := Some adv\<rparr> in
                 if adv_state adv = kReady then (st, Some (BroughtUp (the device) writes notifies))
                 else act adv device classic t st)))"

definition bring_up_start :: "LinkContext option \<Rightarrow> BringUp" where
  "bring_up_start link = \<lparr>bu_link = link, bu_writes = [], bu_notifies = [], bu_subscribed = [], bu_last = None,
     bu_trace = []\<rparr>"

text \<open>The loop from turn \<open>n\<close> on, for turns that come one after another.\<close>

partial_function (option) bring_up ::
  "(nat \<Rightarrow> Turn) \<Rightarrow> nat \<Rightarrow> string option \<Rightarrow> nat \<Rightarrow> BringUp \<Rightarrow> (BringUp \<times> BringUpResult) option" where
  "bring_up turns timeout address n st =
     (case bring_up_turn timeout address (turns n) st of
        (st, Some r) \<Rightarrow> Some (st, r)
      | (st, None) \<Rightarrow> bring_up turns timeout address (Suc n) st)"

text \<open>
  \<open>connect\<close>: a link handle, one climb, and then the camera; the handle is destroyed when the
  climb throws. The MTU of a characteristic is what BlueZ says it is.
\<close>

definition attached_of :: "(GattChar \<Rightarrow> nat) \<Rightarrow> ChannelMap \<Rightarrow> ChannelMap \<Rightarrow> Attached" where
  "attached_of mtu writes notifies =
     \<lparr>at_writes = map fst writes, at_notifies = map (\<lambda>(channel, c). (channel, mtu c)) notifies\<rparr>"

definition transport_connect ::
  "(nat \<Rightarrow> Turn) \<Rightarrow> nat \<Rightarrow> string option \<Rightarrow> (GattChar \<Rightarrow> nat) \<Rightarrow> i64 \<Rightarrow> u32 \<Rightarrow> bool \<Rightarrow> u64 \<Rightarrow>
   ((LinkState \<times> StallReason \<times> string) + GoProBleCamera) option" where
  "transport_connect turns timeout address mtu port keep_alive reconnect now =
     (case bring_up turns timeout address 0 (bring_up_start (gopro_link_create 0 0 0 0 0 0)) of
        None \<Rightarrow> None
      | Some (st, GoProBleException s r d) \<Rightarrow> Some (Inl (s, r, d))
      | Some (st, BroughtUp device writes notifies) \<Rightarrow>
          (case bu_link st of
             None \<Rightarrow> None
           | Some link \<Rightarrow> Some (Inr (camera_connect link port keep_alive reconnect (attached_of mtu writes notifies) now))))"

section \<open>Subscribing\<close>

text \<open>Channels are subscribed in the order they were located, and each with a call that succeeded.\<close>

lemma subscribe_skips:
  "fst ` set pre \<subseteq> set subscribed \<Longrightarrow> subscribe t only a (pre @ rest) subscribed = subscribe t only a rest subscribed"
  by (induction pre) auto

lemma subscribe_prefix:
  assumes "distinct (map fst (pre @ rest))" "subscribe t only a rest (map fst pre) = (subscribed, calls, threw)"
  shows "\<exists>new left. rest = new @ left \<and> subscribed = map fst (pre @ new) \<and>
     (\<forall>e\<in>set new. (StartNotify (ch_path (snd e)), True) \<in> set calls) \<and>
     (\<not> threw \<and> only = None \<longrightarrow> left = [])"
  using assms
proof (induction rest arbitrary: pre a calls)
  case Nil
  then show ?case by simp
next
  case (Cons e rest)
  obtain channel c where e: "e = (channel, c)" by fastforce
  have new: "channel \<notin> fst ` set pre" using Cons.prems(1) by (auto simp: e)
  show ?case
  proof (cases "(case only of None \<Rightarrow> False | Some k \<Rightarrow> k \<le> a) \<or> t_fails t (StartNotify (ch_path c))")
    case True
    then have "subscribed = map fst pre \<and> (\<not> threw \<longrightarrow> only \<noteq> None)" using Cons.prems(2) new
      by (auto simp: e Let_def split: if_splits option.splits)
    then show ?thesis by (intro exI [of _ "[]"] exI [of _ "e # rest"]) auto
  next
    case False
    then obtain calls' where c: "subscribe t only (Suc a) rest (map fst (pre @ [e])) = (subscribed, calls', threw)"
      "set calls' \<subseteq> set calls" "(StartNotify (ch_path c), True) \<in> set calls"
      using Cons.prems(2) new by (auto simp: e Let_def split: if_splits prod.splits) blast+
    have "distinct (map fst ((pre @ [e]) @ rest))" using Cons.prems(1) by simp
    from Cons.IH [OF this c(1)] obtain new left where
      "rest = new @ left" "subscribed = map fst ((pre @ [e]) @ new)"
      "\<forall>e\<in>set new. (StartNotify (ch_path (snd e)), True) \<in> set calls'"
      "\<not> threw \<and> only = None \<longrightarrow> left = []" by blast
    then show ?thesis using c(2,3) by (intro exI [of _ "e # new"] exI [of _ left]) (auto simp: e)
  qed
qed

section \<open>The invariant of a climb\<close>

definition acknowledged :: "(BlueZCall \<times> bool) list \<Rightarrow> ChannelMap \<Rightarrow> bool" where
  "acknowledged trace ns \<longleftrightarrow> (\<forall>e\<in>set ns. (StartNotify (ch_path (snd e)), True) \<in> set trace)"

definition bu_inv :: "BringUp \<Rightarrow> bool" where
  "bu_inv st \<longleftrightarrow> bu_link st \<noteq> None \<and> distinct (map fst (bu_notifies st)) \<and>
     (bu_subscribed st \<noteq> [] \<longrightarrow> chars_complete (bu_writes st) (bu_notifies st)) \<and>
     (\<exists>pre rest. bu_notifies st = pre @ rest \<and> bu_subscribed st = map fst pre \<and> acknowledged (bu_trace st) pre)"

lemma locate_distinct:
  assumes "distinct (map fst ns)"
  shows "distinct (map fst (snd (locate_chars chars ws ns)))"
  unfolding locate_chars_def
proof (rule fold_invariant [where P = "\<lambda>m. distinct (map fst (snd m))" and Q = "\<lambda>_. True"])
  fix e :: "BleChannel \<times> string \<times> string" and maps :: "ChannelMap \<times> ChannelMap"
  assume d: "distinct (map fst (snd maps))"
  obtain channel w n where e: "e = (channel, w, n)" by (cases e)
  have "distinct (map fst (snd (fold (\<lambda>c (ws, ns). let uuid = map lower_char (ch_uuid c)
      in (if uuid = w then AList.update channel c ws else ws,
          if uuid = n then AList.update channel c ns else ns)) chars maps)))"
    by (rule fold_invariant [where P = "\<lambda>m. distinct (map fst (snd m))" and Q = "\<lambda>_. True"])
      (auto simp: d Let_def distinct_update split: prod.splits)
  then show "distinct (map fst (snd ((case e of (channel, w, n) \<Rightarrow> \<lambda>maps. fold (\<lambda>c (ws, ns).
      let uuid = map lower_char (ch_uuid c)
      in (if uuid = w then AList.update channel c ws else ws,
          if uuid = n then AList.update channel c ns else ns)) chars maps) maps)))"
    by (simp add: e)
qed (simp_all add: assms)

text \<open>What a turn has located when it consults the machine.\<close>

definition located :: "string option \<Rightarrow> Turn \<Rightarrow> BringUp \<Rightarrow> ChannelMap \<times> ChannelMap" where
  "located address t st =
     (case candidate address (t_devices t) of
        Some d \<Rightarrow>
          if dev_connected d \<and> \<not> chars_complete (bu_writes st) (bu_notifies st)
          then locate_chars (dev_chars d) (bu_writes st) (bu_notifies st)
          else (bu_writes st, bu_notifies st)
      | None \<Rightarrow> (bu_writes st, bu_notifies st))"

lemma located_inv:
  assumes "bu_inv st" "located address t st = (ws, ns)"
  shows "bu_inv (st\<lparr>bu_link := Some l, bu_writes := ws, bu_notifies := ns, bu_last := adv\<rparr>)"
proof (cases "(ws, ns) = (bu_writes st, bu_notifies st)")
  case True
  then show ?thesis using assms(1) by (auto simp: bu_inv_def)
next
  case False
  then obtain chars where d: "\<not> chars_complete (bu_writes st) (bu_notifies st)"
    "locate_chars chars (bu_writes st) (bu_notifies st) = (ws, ns)"
    using assms(2) by (auto simp: located_def split: option.splits if_splits)
  then have "bu_subscribed st = []" using assms(1) by (auto simp: bu_inv_def)
  moreover have "distinct (map fst ns)"
    using locate_distinct [of "bu_notifies st" chars "bu_writes st"] assms(1) d(2)
    by (simp add: bu_inv_def)
  ultimately show ?thesis by (auto simp: bu_inv_def acknowledged_def)
qed

lemma note_failure_live: "l \<noteq> None \<Longrightarrow> gopro_link_note_failure l now \<noteq> None"
  by (auto simp: gopro_link_note_failure_def)

text \<open>The action leaves located channels alone and subscribes some more of them, only if all are located.\<close>

lemma subscribe_inv:
  assumes "bu_inv st" "subscribe t only 0 (bu_notifies st) (bu_subscribed st) = (s, calls, threw)"
    and "chars_complete (bu_writes st) (bu_notifies st)" "l \<noteq> None" "set (bu_trace st) \<union> set calls \<subseteq> set trace"
  shows "bu_inv (st\<lparr>bu_link := l, bu_subscribed := s, bu_trace := trace\<rparr>)"
proof -
  obtain pre rest where p: "bu_notifies st = pre @ rest" "bu_subscribed st = map fst pre" "acknowledged (bu_trace st) pre"
    using assms(1) by (auto simp: bu_inv_def)
  have dist: "distinct (map fst (pre @ rest))" using assms(1) p(1) by (simp add: bu_inv_def)
  have "subscribe t only 0 rest (map fst pre) = (s, calls, threw)"
    using assms(2) subscribe_skips [of pre "map fst pre" t only 0 rest] by (simp add: p(1,2))
  from subscribe_prefix [OF dist this] obtain new left where n: "rest = new @ left" "s = map fst (pre @ new)"
    "\<forall>e\<in>set new. (StartNotify (ch_path (snd e)), True) \<in> set calls" by blast
  then have "acknowledged trace (pre @ new)" using p(3) assms(5) by (auto simp: acknowledged_def)
  moreover have "pre @ rest = (pre @ new) @ left" by (simp add: n(1))
  ultimately have "\<exists>pre' rest'. pre @ rest = pre' @ rest' \<and> s = map fst pre' \<and> acknowledged trace pre'"
    using n(2) by blast
  then show ?thesis using assms(3,4) p(1) dist by (auto simp: bu_inv_def)
qed

text \<open>What the advice of a ready or subscribing stage says about the observation it answers.\<close>

lemma update_advice:
  assumes "dart_link_update (Some ctx) obs now = (l, adv)"
  shows "l \<noteq> None" "\<exists>a. adv = Some a \<and> adv_state a = classify (wire_observation obs) \<and>
     (adv_action a = kPair \<longrightarrow> control_chars_found obs) \<and> (adv_action a = kSubscribe \<longrightarrow> control_chars_found obs)"
proof -
  obtain m a where u: "link_update (lc_machine ctx) (wire_observation obs) now = (m, a)" by fastforce
  then have r: "l \<noteq> None" "adv = Some a" using assms by (auto simp: dart_link_update_some)
  have "lm_state m = classify (wire_observation obs)" "a = link_advise m (wire_observation obs) now"
    using u by (auto simp: link_update_def link_observe_def Let_def)
  moreover have "control_chars_found (wire_observation obs) = control_chars_found obs" by (simp add: wire_observation_def)
  ultimately show "l \<noteq> None" "\<exists>a. adv = Some a \<and> adv_state a = classify (wire_observation obs) \<and>
     (adv_action a = kPair \<longrightarrow> control_chars_found obs) \<and> (adv_action a = kSubscribe \<longrightarrow> control_chars_found obs)"
    using r by (auto simp: link_advise_def Let_def classify_def split: if_splits)
qed

lemma act_calls_subscribes:
  assumes "act_calls adv device classic t st = (s, calls, threw)"
  shows "s = bu_subscribed st \<or> (adv_action adv = kPair \<or> adv_action adv = kSubscribe) \<and>
     (\<exists>only early starts threw'. subscribe t only 0 (bu_notifies st) (bu_subscribed st) = (s, starts, threw') \<and>
        calls = early @ starts)"
proof (cases "adv_action adv")
  case kSubscribe
  then show ?thesis using assms by (simp add: act_calls_def) (metis append_Nil)
next
  case kPair
  then show ?thesis using assms by (simp add: act_calls_def Let_def split: prod.splits if_splits) blast+
qed (use assms in \<open>auto simp: act_calls_def Let_def split: prod.splits\<close>)

lemma act_inv:
  assumes "bu_inv st"
    and "adv_action adv = kPair \<or> adv_action adv = kSubscribe \<longrightarrow> chars_complete (bu_writes st) (bu_notifies st)"
    and "act adv device classic t st = (st', r)"
  shows "bu_inv st' \<and> (r = None \<or> r = Some (GoProBleException kAbsent kNoAdvertisement ''no Bluetooth adapter is present''))"
proof -
  have same: "bu_inv (st\<lparr>bu_link := l, bu_trace := bu_trace st @ calls\<rparr>)" if "l \<noteq> None" for l calls
    using assms(1) that by (auto simp: bu_inv_def acknowledged_def)
  show ?thesis
  proof (cases "adv_action adv = kScan \<and> t_adapters t = []")
    case True
    then show ?thesis using assms(1,3) same [of "bu_link st"] by (auto simp: act_def bu_inv_def)
  next
    case False
    obtain s calls threw where c: "act_calls adv device classic t st = (s, calls, threw)" by (metis prod_cases3)
    define l where "l = (if threw then gopro_link_note_failure (bu_link st) (t_failed_ms t) else bu_link st)"
    have live: "l \<noteq> None" using assms(1) note_failure_live by (simp add: l_def bu_inv_def)
    from act_calls_subscribes [OF c]
    have "bu_inv (st\<lparr>bu_link := l, bu_subscribed := s, bu_trace := bu_trace st @ act_wait adv t @ calls\<rparr>)"
    proof (elim disjE conjE exE)
      assume "s = bu_subscribed st"
      then show ?thesis using same [OF live, of "act_wait adv t @ calls"] by simp
    qed (use assms(2) live in \<open>auto intro!: subscribe_inv [OF assms(1)]\<close>)
    then show ?thesis using False assms(3) c by (auto simp: act_def l_def)
  qed
qed

section \<open>The loop\<close>

lemma turn_located:
  "bring_up_turn timeout address t st =
     (if \<not> t_elapsed t < timeout then (st, Some (timed_out (bu_last st)))
      else
        (let device = candidate address (t_devices t);
             classic = classicLink (t_devices t);
             (writes, notifies) = located address t st;
             (link, advice) = dart_link_update (bu_link st)
               (observe_turn device classic writes notifies (bu_subscribed st)) (t_now_ms t);
             st = st\<lparr>bu_link := link, bu_writes := writes, bu_notifies := notifies\<rparr>
         in case advice of
              None \<Rightarrow> (st, Some (GoProBleException kAbsent StallReason.kNone ''native and Dart link enums have drifted''))
            | Some adv \<Rightarrow>
                (let st = st\<lparr>bu_last := Some adv\<rparr> in
                 if adv_state adv = kReady then (st, Some (BroughtUp (the device) writes notifies))
                 else act adv device classic t st)))"
  by (simp add: bring_up_turn_def located_def)

text \<open>What a returning climb has seen in its last turn.\<close>

definition evidence :: "string option \<Rightarrow> Turn \<Rightarrow> BringUp \<Rightarrow> BlueZDevice \<Rightarrow> ChannelMap \<Rightarrow> ChannelMap \<Rightarrow> bool" where
  "evidence address t st d ws ns \<longleftrightarrow> candidate address (t_devices t) = Some d \<and> dev_connected d \<and>
     ws = bu_writes st \<and> ns = bu_notifies st \<and> chars_complete ws ns \<and> length characteristics \<le> length (bu_subscribed st)"

lemma ready_observation:
  assumes "classify (wire_observation (observe_turn device classic ws ns subs)) = kReady"
  shows "\<exists>d. device = Some d \<and> dev_connected d \<and> chars_complete ws ns \<and> length characteristics \<le> length subs"
proof -
  have "length characteristics mod 2 ^ 32 = 3" by (simp add: characteristics_def)
  then have "3 \<le> length subs mod 2 ^ 32" "chars_complete ws ns" "\<exists>d. device = Some d \<and> dev_connected d"
    using assms by (auto simp: classify_def wire_observation_def observe_turn_def split: if_splits option.splits)
  moreover have "length subs mod 2 ^ 32 \<le> length subs" by (rule mod_less_eq_dividend)
  ultimately have "length characteristics \<le> length subs" by (simp add: characteristics_def)
  with \<open>chars_complete ws ns\<close> \<open>\<exists>d. device = Some d \<and> dev_connected d\<close> show ?thesis by blast
qed

lemma timed_out_explains: "\<exists>s r d. timed_out advised = GoProBleException s r d \<and> d \<noteq> ''''"
proof -
  have "timedOutAt s \<noteq> ''''" for s by (cases s) simp_all
  then show ?thesis by (auto simp: timed_out_def split: option.splits)
qed

lemma turn_effect:
  assumes "bu_inv st" "bring_up_turn timeout address t st = (st', r)"
  shows "bu_inv st'" "r = Some (BroughtUp d ws ns) \<Longrightarrow> evidence address t st' d ws ns"
    "r = Some (GoProBleException s x txt) \<Longrightarrow> txt \<noteq> ''''"
proof -
  have "bu_inv st' \<and> (\<forall>d ws ns. r = Some (BroughtUp d ws ns) \<longrightarrow> evidence address t st' d ws ns) \<and>
      (\<forall>s x txt. r = Some (GoProBleException s x txt) \<longrightarrow> txt \<noteq> '''')"
  proof (cases "t_elapsed t < timeout")
    case False
    then show ?thesis using assms timed_out_explains [of "bu_last st"] by (auto simp: bring_up_turn_def)
  next
    case True
    let ?d = "candidate address (t_devices t)" and ?c = "classicLink (t_devices t)"
    obtain ws ns where l: "located address t st = (ws, ns)" by fastforce
    let ?obs = "observe_turn ?d ?c ws ns (bu_subscribed st)"
    obtain ctx where ctx: "bu_link st = Some ctx" using assms(1) by (auto simp: bu_inv_def)
    obtain link adv where u: "dart_link_update (Some ctx) ?obs (t_now_ms t) = (link, adv)" by fastforce
    from update_advice [OF u] obtain l' a where a: "link = Some l'" "adv = Some a"
      "adv_state a = classify (wire_observation ?obs)" "adv_action a = kPair \<or> adv_action a = kSubscribe \<longrightarrow> control_chars_found ?obs"
      by auto
    let ?st = "st\<lparr>bu_link := Some l', bu_writes := ws, bu_notifies := ns, bu_last := Some a\<rparr>"
    have inv: "bu_inv ?st" using assms(1) l by (rule located_inv)
    have "control_chars_found ?obs = chars_complete (bu_writes ?st) (bu_notifies ?st)" by (simp add: observe_turn_def)
    note act = act_inv [OF inv a(4) [unfolded this]]
    have turn: "bring_up_turn timeout address t st =
        (if adv_state a = kReady then (?st, Some (BroughtUp (the ?d) ws ns)) else act a ?d ?c t ?st)"
      using True by (simp add: turn_located l ctx u a(1,2))
    show ?thesis
    proof (cases "adv_state a = kReady")
      case True
      then show ?thesis using ready_observation [of ?d ?c ws ns "bu_subscribed st"] a(3) inv assms(2) turn
        by (auto simp: evidence_def)
    next
      case False
      then show ?thesis using act [of ?d ?c t st' r] assms(2) turn by auto
    qed
  qed
  then show "bu_inv st'" "r = Some (BroughtUp d ws ns) \<Longrightarrow> evidence address t st' d ws ns"
    "r = Some (GoProBleException s x txt) \<Longrightarrow> txt \<noteq> ''''" by blast+
qed

definition climb_ok :: "(nat \<Rightarrow> Turn) \<Rightarrow> nat \<Rightarrow> string option \<Rightarrow> nat \<Rightarrow> BringUp \<Rightarrow> BringUp \<times> BringUpResult \<Rightarrow> bool" where
  "climb_ok turns timeout address n st sr \<longleftrightarrow> (bu_inv st \<longrightarrow> bu_inv (fst sr) \<and>
     (\<forall>d ws ns. snd sr = BroughtUp d ws ns \<longrightarrow> (\<exists>m\<ge>n. evidence address (turns m) (fst sr) d ws ns)) \<and>
     (\<forall>s x txt. snd sr = GoProBleException s x txt \<longrightarrow> txt \<noteq> ''''))"

lemma bring_up_effect:
  assumes ret: "bring_up turns timeout address n st = Some sr"
  shows "climb_ok turns timeout address n st sr"
proof (rule bring_up.raw_induct [where P = climb_ok, OF _ ret])
  fix again turns timeout address n st sr
  assume IH: "\<And>turns timeout address n st sr. again turns timeout address n st = Some sr \<Longrightarrow> climb_ok turns timeout address n st sr"
    and body: "(case bring_up_turn timeout address (turns n) st of
      (st, None) \<Rightarrow> again turns timeout address (Suc n) st | (st, Some r) \<Rightarrow> Some (st, r)) = Some sr"
  obtain st1 r1 where t: "bring_up_turn timeout address (turns n) st = (st1, r1)" by fastforce
  show "climb_ok turns timeout address n st sr"
  proof (cases r1)
    case None
    then have "again turns timeout address (Suc n) st1 = Some sr" using body t by simp
    from IH [OF this] turn_effect(1) [OF _ t] show ?thesis by (auto simp: climb_ok_def) (meson Suc_leD)
  next
    case (Some r)
    then show ?thesis using body t turn_effect [OF _ t] by (auto simp: climb_ok_def)
  qed
qed

lemma start_inv: "bu_inv (bring_up_start (gopro_link_create 0 0 0 0 0 0))"
  by (simp add: bu_inv_def bring_up_start_def acknowledged_def gopro_link_create_config)

text \<open>A return with a channel of the control service among those subscribed first.\<close>

lemma required_subscribed:
  assumes "bu_inv st" "chars_complete ws (bu_notifies st)" "length characteristics \<le> length (bu_subscribed st)"
    and "BleNetwork \<notin> set (take 3 (bu_subscribed st))"
  shows "{BleCommand, BleSettings, BleQuery} \<subseteq> set (bu_subscribed st)"
proof -
  have "distinct (bu_subscribed st)" using assms(1) by (auto simp: bu_inv_def)
  then have d: "distinct (take 3 (bu_subscribed st))" by (rule distinct_take)
  have "length (take 3 (bu_subscribed st)) = 3" using assms(3) by (simp add: characteristics_def)
  with d have c: "card (set (take 3 (bu_subscribed st))) = 3" by (simp add: distinct_card)
  have "set (take 3 (bu_subscribed st)) \<subseteq> {BleCommand, BleSettings, BleQuery}"
    using assms(4) by (auto; metis BleChannel.exhaust)
  then have "set (take 3 (bu_subscribed st)) = {BleCommand, BleSettings, BleQuery}"
    using c by (intro card_subset_eq) auto
  then show ?thesis using set_take_subset [of 3 "bu_subscribed st"] by auto
qed

lemma bring_up_ends:
  assumes "timeout \<le> t_elapsed (turns m)" "n \<le> m"
  shows "\<exists>sr. bring_up turns timeout address n st = Some sr"
  using assms(2)
proof (induction "m - n" arbitrary: n st)
  case 0
  then have "turns n = turns m" by simp
  then show ?case using assms(1) by (subst bring_up.simps) (simp add: bring_up_turn_def not_less)
next
  case (Suc k)
  then have "k = m - Suc n" "Suc n \<le> m" by simp_all
  note IH = Suc.hyps(1) [OF this]
  show ?case by (subst bring_up.simps) (use IH in \<open>auto split: prod.splits option.splits\<close>)
qed

section \<open>Examples\<close>

text \<open>The first turns of a climb, as long as none of them leaves the loop.\<close>

fun turns_from :: "nat \<Rightarrow> string option \<Rightarrow> BringUp \<Rightarrow> Turn list \<Rightarrow> BringUp option" where
  "turns_from timeout address st [] = Some st"
| "turns_from timeout address st (t # ts) =
     (case bring_up_turn timeout address t st of
        (st, None) \<Rightarrow> turns_from timeout address st ts
      | (st, Some r) \<Rightarrow> None)"

lemma bring_up_skips:
  "turns_from timeout address st (map turns [n..<n + k]) = Some st' \<Longrightarrow>
   bring_up turns timeout address n st = bring_up turns timeout address (n + k) st'"
proof (induction k arbitrary: n st)
  case (Suc k)
  have "[n..<n + Suc k] = n # [Suc n..<Suc n + k]" by (simp add: upt_conv_Cons del: upt_Suc)
  with Suc.prems obtain st1 where "bring_up_turn timeout address (turns n) st = (st1, None)"
    "turns_from timeout address st1 (map turns [Suc n..<Suc n + k]) = Some st'"
    by (auto simp del: upt_Suc split: prod.splits option.splits)
  with Suc.IH show ?case by (subst bring_up.simps) simp
qed simp

lemma bring_up_returns:
  assumes "turns_from timeout address st (map turns [0..<k]) = Some st'"
    and "bring_up_turn timeout address (turns k) st' = (st'', Some r)"
  shows "bring_up turns timeout address 0 st = Some (st'', r)"
proof -
  have "bring_up turns timeout address k st' = Some (st'', r)" using assms(2) by (subst bring_up.simps) simp
  then show ?thesis using bring_up_skips [of timeout address st turns 0 k st'] assms(1) by simp
qed

text \<open>
  A paired and connected camera that exposes the channels \<open>cs\<close>; the calls of \<open>fails\<close> fail.
\<close>

definition chars_of :: "BleChannel list \<Rightarrow> GattChar list" where
  "chars_of cs = concat (map (\<lambda>c. case map_of (characteristics @ optionalChars) c of
     None \<Rightarrow> [] | Some (w, n) \<Rightarrow> [\<lparr>ch_path = w, ch_uuid = w\<rparr>, \<lparr>ch_path = n, ch_uuid = n\<rparr>]) cs)"

definition example_device :: "BleChannel list \<Rightarrow> BlueZDevice" where
  "example_device cs =
     \<lparr>dev_path = ''dev'', dev_address = ''C0'', dev_address_type = ''random'', dev_alias = ''GoPro'',
      dev_uuids = [controlQueryService], dev_connected = True, dev_paired = True, dev_chars = chars_of cs\<rparr>"

definition example_turn :: "nat \<Rightarrow> BleChannel list \<Rightarrow> BlueZCall list \<Rightarrow> Turn" where
  "example_turn elapsed cs fails =
     \<lparr>t_elapsed = elapsed, t_devices = [example_device cs], t_adapters = [], t_now_ms = 5, t_act_ms = 5,
      t_failed_ms = 5, t_notifying = (\<lambda>p. False), t_fails = (\<lambda>c. c \<in> set fails)\<rparr>"

lemma lower_uuids [simp]:
  "map lower_char (gp_uuid ''0072'') = gp_uuid ''0072''" "map lower_char (gp_uuid ''0073'') = gp_uuid ''0073''"
  "map lower_char (gp_uuid ''0074'') = gp_uuid ''0074''" "map lower_char (gp_uuid ''0075'') = gp_uuid ''0075''"
  "map lower_char (gp_uuid ''0076'') = gp_uuid ''0076''" "map lower_char (gp_uuid ''0077'') = gp_uuid ''0077''"
  "map lower_char (gp_uuid ''0091'') = gp_uuid ''0091''" "map lower_char (gp_uuid ''0092'') = gp_uuid ''0092''"
  "map lower_char controlQueryService = controlQueryService"
  by code_simp+

lemma gp_uuid_inject [simp]: "gp_uuid a = gp_uuid b \<longleftrightarrow> a = b"
  by (simp add: gp_uuid_def)

lemma example_device [simp]:
  "candidate None [example_device cs] = Some (example_device cs)" "classicLink [example_device cs] = None"
  "dev_connected (example_device cs)" "dev_paired (example_device cs)" "dev_chars (example_device cs) = chars_of cs"
  by (simp_all add: candidate_def classicLink_def is_camera_def example_device_def)

text \<open>The states of such climbs.\<close>

definition example_chars :: "(BleChannel \<times> string) list \<Rightarrow> ChannelMap" where
  "example_chars cs = map (\<lambda>(c, s). (c, \<lparr>ch_path = gp_uuid s, ch_uuid = gp_uuid s\<rparr>)) cs"

definition example_link :: "LinkState \<Rightarrow> bool \<Rightarrow> u32 \<Rightarrow> LinkContext" where
  "example_link s seen attempts =
     \<lparr>lc_machine = \<lparr>lm_cfg = created_config 0 0 0 0 0 0, lm_state = s, lm_state_since_ms = 5,
        lm_last_failure_ms = (if attempts = 0 then 0 else 5), lm_attempts = attempts,
        lm_seen_bonded_without_encryption = seen\<rparr>, lc_detail = '''', lc_retry_at_ms = 0\<rparr>"

definition example_advice :: "LinkState \<Rightarrow> LinkAction \<Rightarrow> LinkAdvice" where
  "example_advice s action =
     \<lparr>adv_state = s, adv_action = action, adv_stall = StallReason.kNone, adv_detail = '''', adv_retry_at_ms = 0\<rparr>"

abbreviation "few \<equiv> [BleCommand, BleSettings, BleNetwork]"
abbreviation "few_writes \<equiv> example_chars [(BleCommand, ''0072''), (BleSettings, ''0074''), (BleNetwork, ''0091'')]"
abbreviation "few_notifies \<equiv> example_chars [(BleCommand, ''0073''), (BleSettings, ''0075''), (BleNetwork, ''0092'')]"
abbreviation "late \<equiv> [BleCommand, BleSettings, BleNetwork, BleQuery]"
abbreviation "late_writes \<equiv>
  example_chars [(BleCommand, ''0072''), (BleSettings, ''0074''), (BleNetwork, ''0091''), (BleQuery, ''0076'')]"
abbreviation "late_notifies \<equiv>
  example_chars [(BleCommand, ''0073''), (BleSettings, ''0075''), (BleNetwork, ''0092''), (BleQuery, ''0077'')]"

lemmas locate_defs = located_def locate_chars_def chars_of_def characteristics_def optionalChars_def chars_complete_def
  Let_def

lemma locate_first:
  "bu_writes st = [] \<Longrightarrow> bu_notifies st = [] \<Longrightarrow> located None (example_turn n few fs) st = (few_writes, few_notifies)"
  by (simp add: locate_defs example_turn_def example_chars_def)

lemma locate_second:
  "bu_writes st = few_writes \<Longrightarrow> bu_notifies st = few_notifies \<Longrightarrow>
   located None (example_turn n late fs) st = (late_writes, late_notifies)"
  by (simp add: locate_defs example_turn_def example_chars_def)

lemma locate_later:
  "bu_writes st = late_writes \<Longrightarrow> bu_notifies st = late_notifies \<Longrightarrow> located None t st = (late_writes, late_notifies)"
  by (simp add: located_def split: option.split) (simp add: chars_complete_def characteristics_def example_chars_def)

lemma example_turn_step:
  assumes "n < 10" "located None (example_turn n cs fs) st = (ws, ns)"
    and "dart_link_update (bu_link st) (observe_turn (Some (example_device cs)) None ws ns (bu_subscribed st)) 5 = (l, Some adv)"
  shows "bring_up_turn 10 None (example_turn n cs fs) st =
    (let st = st\<lparr>bu_link := l, bu_writes := ws, bu_notifies := ns, bu_last := Some adv\<rparr> in
     if adv_state adv = kReady then (st, Some (BroughtUp (example_device cs) ws ns))
     else act adv (Some (example_device cs)) None (example_turn n cs fs) st)"
proof -
  have "t_elapsed (example_turn n cs fs) = n" "t_devices (example_turn n cs fs) = [example_device cs]"
    "t_now_ms (example_turn n cs fs) = 5" by (simp_all add: example_turn_def)
  then show ?thesis using assms by (simp add: turn_located Let_def)
qed

lemmas update_defs = dart_link_update_some wire_observation_def observe_turn_def link_update_def link_observe_def
  link_advise_def classify_def example_link_def example_advice_def created_config_def

lemma updates:
  "dart_link_update (gopro_link_create 0 0 0 0 0 0) (observe_turn (Some (example_device few)) None few_writes few_notifies []) 5 =
     (Some (example_link kConnected False 0), Some (example_advice kConnected kWaitForServices))"
  "dart_link_update (Some (example_link kConnected False 0)) (observe_turn (Some (example_device late)) None late_writes late_notifies []) 5 =
     (Some (example_link kServicesResolved True 0), Some (example_advice kServicesResolved kPair))"
  "dart_link_update (Some (example_link kServicesResolved True 0))
       (observe_turn (Some (example_device late)) None late_writes late_notifies [BleCommand]) 5 =
     (Some (example_link kEncrypted True 0), Some (example_advice kEncrypted kSubscribe))"
  "dart_link_update (Some (example_link kEncrypted True 1))
       (observe_turn (Some (example_device late)) None late_writes late_notifies [BleCommand, BleSettings, BleNetwork]) 5 =
     (Some (example_link kReady True 0), Some (example_advice kReady LinkAction.kNone))"
proof -
  have c: "chars_complete few_writes few_notifies = False" "chars_complete late_writes late_notifies"
    "length (chars_of few) = 6" "length (chars_of late) = 8" "length characteristics = 3"
    by (simp_all add: chars_complete_def characteristics_def optionalChars_def example_chars_def chars_of_def)
  show "dart_link_update (gopro_link_create 0 0 0 0 0 0) (observe_turn (Some (example_device few)) None few_writes few_notifies []) 5 =
     (Some (example_link kConnected False 0), Some (example_advice kConnected kWaitForServices))"
    by (simp add: gopro_link_create_config new_link_context_def new_link_def update_defs c Let_def)
  show "dart_link_update (Some (example_link kConnected False 0)) (observe_turn (Some (example_device late)) None late_writes late_notifies []) 5 =
     (Some (example_link kServicesResolved True 0), Some (example_advice kServicesResolved kPair))"
    by (simp add: update_defs c Let_def)
  show "dart_link_update (Some (example_link kServicesResolved True 0))
       (observe_turn (Some (example_device late)) None late_writes late_notifies [BleCommand]) 5 =
     (Some (example_link kEncrypted True 0), Some (example_advice kEncrypted kSubscribe))"
    by (simp add: update_defs c Let_def)
  show "dart_link_update (Some (example_link kEncrypted True 1))
       (observe_turn (Some (example_device late)) None late_writes late_notifies [BleCommand, BleSettings, BleNetwork]) 5 =
     (Some (example_link kReady True 0), Some (example_advice kReady LinkAction.kNone))"
    by (simp add: update_defs c Let_def)
qed

lemma example_advice_simps [simp]:
  "adv_state (example_advice s a) = s" "adv_action (example_advice s a) = a" "act_wait (example_advice s a) t = []"
  by (simp_all add: example_advice_def act_wait_def)

lemma example_acts:
  "act (example_advice s kWaitForServices) d c t st = (st\<lparr>bu_trace := bu_trace st @ [(Sleep 500, True)]\<rparr>, None)"
  "subscribe t (Some 1) 0 (bu_notifies st) (bu_subscribed st) = (subs, calls, False) \<Longrightarrow>
   act (example_advice s kPair) (Some (example_device cs)) c t st =
     (st\<lparr>bu_subscribed := subs, bu_trace := bu_trace st @ calls\<rparr>, None)"
  "subscribe t None 0 (bu_notifies st) (bu_subscribed st) = (subs, calls, False) \<Longrightarrow>
   act (example_advice s kSubscribe) d c t st = (st\<lparr>bu_subscribed := subs, bu_trace := bu_trace st @ calls\<rparr>, None)"
  "subscribe t None 0 (bu_notifies st) (bu_subscribed st) = (subs, calls, True) \<Longrightarrow>
   act (example_advice s kSubscribe) d c t st =
     (st\<lparr>bu_link := gopro_link_note_failure (bu_link st) (t_failed_ms t), bu_subscribed := subs,
         bu_trace := bu_trace st @ calls\<rparr>, None)"
  by (simp_all add: act_def act_calls_def)

lemmas turn_defs = updates Let_def

lemma first_turn:
  "bring_up_turn 10 None (example_turn 0 few []) (bring_up_start (gopro_link_create 0 0 0 0 0 0)) =
     (\<lparr>bu_link = Some (example_link kConnected False 0), bu_writes = few_writes, bu_notifies = few_notifies, bu_subscribed = [],
       bu_last = Some (example_advice kConnected kWaitForServices), bu_trace = [(Sleep 500, True)]\<rparr>, None)"
  by (subst example_turn_step [where l = "Some (example_link kConnected False 0)" and adv = "example_advice kConnected kWaitForServices", OF _ locate_first]) (simp_all add: bring_up_start_def turn_defs example_acts)

lemma second_turn:
  "bring_up_turn 10 None (example_turn 1 late []) \<lparr>bu_link = Some (example_link kConnected False 0), bu_writes = few_writes,
     bu_notifies = few_notifies, bu_subscribed = [], bu_last = a, bu_trace = tr\<rparr> =
     (\<lparr>bu_link = Some (example_link kServicesResolved True 0), bu_writes = late_writes, bu_notifies = late_notifies,
       bu_subscribed = [BleCommand], bu_last = Some (example_advice kServicesResolved kPair),
       bu_trace = tr @ [(StartNotify (gp_uuid ''0073''), True)]\<rparr>, None)"
proof -
  have "subscribe (example_turn 1 late []) (Some 1) 0 late_notifies [] =
      ([BleCommand], [(StartNotify (gp_uuid ''0073''), True)], False)"
    by (simp add: example_turn_def example_chars_def)
  then show ?thesis by (subst example_turn_step [where l = "Some (example_link kServicesResolved True 0)" and adv = "example_advice kServicesResolved kPair", OF _ locate_second]) (simp_all add: turn_defs example_acts)
qed

lemma third_turn:
  "bring_up_turn 10 None (example_turn 2 late [StartNotify (gp_uuid ''0077'')]) \<lparr>bu_link = Some (example_link kServicesResolved True 0),
     bu_writes = late_writes, bu_notifies = late_notifies, bu_subscribed = [BleCommand], bu_last = a, bu_trace = tr\<rparr> =
     (\<lparr>bu_link = Some (example_link kEncrypted True 1), bu_writes = late_writes, bu_notifies = late_notifies,
       bu_subscribed = few, bu_last = Some (example_advice kEncrypted kSubscribe),
       bu_trace = tr @ [(StartNotify (gp_uuid ''0075''), True), (StartNotify (gp_uuid ''0092''), True),
         (StartNotify (gp_uuid ''0077''), False)]\<rparr>, None)"
proof -
  have "subscribe (example_turn 2 late [StartNotify (gp_uuid ''0077'')]) None 0 late_notifies [BleCommand] =
     (few, [(StartNotify (gp_uuid ''0075''), True), (StartNotify (gp_uuid ''0092''), True),
       (StartNotify (gp_uuid ''0077''), False)], True)"
    by (simp add: example_turn_def example_chars_def)
  moreover have "gopro_link_note_failure (Some (example_link kEncrypted True 0)) 5 = Some (example_link kEncrypted True 1)"
    "t_failed_ms (example_turn 2 late [StartNotify (gp_uuid ''0077'')]) = 5"
    by (simp_all add: gopro_link_note_failure_def note_attempt_failed_def example_link_def example_turn_def)
  ultimately show ?thesis by (subst example_turn_step [where l = "Some (example_link kEncrypted True 0)" and adv = "example_advice kEncrypted kSubscribe", OF _ locate_later]) (simp_all add: turn_defs example_acts)
qed

definition deaf_turns :: "nat \<Rightarrow> Turn" where
  "deaf_turns n = (if n = 0 then example_turn 0 few []
     else example_turn n late (if n = 2 then [StartNotify (gp_uuid ''0077'')] else []))"

text \<open>
  A climb can end with a required channel deaf: the optional characteristics happen to appear
  before those of the query channel, whose \<open>StartNotify\<close> then fails. Three channels are subscribed,
  and the machine is told so.
\<close>

lemma deaf_query_channel:
  "\<exists>st. bring_up deaf_turns 10 None 0 (bring_up_start (gopro_link_create 0 0 0 0 0 0)) =
     Some (st, BroughtUp (example_device late) late_writes late_notifies) \<and> bu_subscribed st = few"
proof -
  have t: "deaf_turns 0 = example_turn 0 few []" "deaf_turns 1 = example_turn 1 late []"
    "deaf_turns 2 = example_turn 2 late [StartNotify (gp_uuid ''0077'')]" "deaf_turns 3 = example_turn 3 late []"
    by (simp_all add: deaf_turns_def)
  let ?st = "\<lparr>bu_link = Some (example_link kEncrypted True 1), bu_writes = late_writes, bu_notifies = late_notifies,
       bu_subscribed = few, bu_last = Some (example_advice kEncrypted kSubscribe),
       bu_trace = [(Sleep 500, True), (StartNotify (gp_uuid ''0073''), True), (StartNotify (gp_uuid ''0075''), True),
         (StartNotify (gp_uuid ''0092''), True), (StartNotify (gp_uuid ''0077''), False)]\<rparr>"
  have l: "[0..<3] = [0, 1, 2 :: nat]" by (simp add: upt_rec)
  have "turns_from 10 None (bring_up_start (gopro_link_create 0 0 0 0 0 0)) (map deaf_turns [0..<3]) = Some ?st"
    by (simp only: l list.map t turns_from.simps first_turn second_turn third_turn prod.case option.case append.simps)
  moreover have "bring_up_turn 10 None (deaf_turns 3) ?st =
      (?st\<lparr>bu_link := Some (example_link kReady True 0), bu_last := Some (example_advice kReady LinkAction.kNone)\<rparr>,
       Some (BroughtUp (example_device late) late_writes late_notifies))"
    unfolding t by (subst example_turn_step [where l = "Some (example_link kReady True 0)" and adv = "example_advice kReady LinkAction.kNone", OF _ locate_later]) (simp_all add: turn_defs)
  ultimately have "bring_up deaf_turns 10 None 0 (bring_up_start (gopro_link_create 0 0 0 0 0 0)) =
      Some (?st\<lparr>bu_link := Some (example_link kReady True 0), bu_last := Some (example_advice kReady LinkAction.kNone)\<rparr>,
        BroughtUp (example_device late) late_writes late_notifies)" by (rule bring_up_returns)
  then show ?thesis by auto
qed

text \<open>
  A climb in which all goes well: the three required channels are there from the first turn and
  are all subscribed.
\<close>

abbreviation "required \<equiv> [BleCommand, BleSettings, BleQuery]"
abbreviation "required_writes \<equiv> example_chars [(BleCommand, ''0072''), (BleSettings, ''0074''), (BleQuery, ''0076'')]"
abbreviation "required_notifies \<equiv> example_chars [(BleCommand, ''0073''), (BleSettings, ''0075''), (BleQuery, ''0077'')]"

definition good_turns :: "nat \<Rightarrow> Turn" where
  "good_turns n = example_turn n required []"

lemma locate_required:
  "bu_writes st = [] \<Longrightarrow> bu_notifies st = [] \<Longrightarrow>
   located None (good_turns n) st = (required_writes, required_notifies)"
  "bu_writes st = required_writes \<Longrightarrow> bu_notifies st = required_notifies \<Longrightarrow>
   located None t st = (required_writes, required_notifies)"
  by (simp add: good_turns_def locate_defs example_turn_def example_chars_def)
     (simp add: located_def chars_complete_def characteristics_def example_chars_def split: option.split)

lemma good_updates:
  "dart_link_update (gopro_link_create 0 0 0 0 0 0) (observe_turn (Some (example_device required)) None required_writes required_notifies []) 5 =
     (Some (example_link kServicesResolved True 0), Some (example_advice kServicesResolved kPair))"
  "dart_link_update (Some (example_link kServicesResolved True 0))
       (observe_turn (Some (example_device required)) None required_writes required_notifies [BleCommand]) 5 =
     (Some (example_link kEncrypted True 0), Some (example_advice kEncrypted kSubscribe))"
  "dart_link_update (Some (example_link kEncrypted True 0))
       (observe_turn (Some (example_device required)) None required_writes required_notifies [BleCommand, BleSettings, BleQuery]) 5 =
     (Some (example_link kReady True 0), Some (example_advice kReady LinkAction.kNone))"
proof -
  have c: "chars_complete required_writes required_notifies" "length (chars_of required) = 6" "length characteristics = 3"
    by (simp_all add: chars_complete_def characteristics_def optionalChars_def example_chars_def chars_of_def)
  show "dart_link_update (gopro_link_create 0 0 0 0 0 0) (observe_turn (Some (example_device required)) None required_writes required_notifies []) 5 =
     (Some (example_link kServicesResolved True 0), Some (example_advice kServicesResolved kPair))"
    by (simp add: gopro_link_create_config new_link_context_def new_link_def update_defs c Let_def)
  show "dart_link_update (Some (example_link kServicesResolved True 0))
       (observe_turn (Some (example_device required)) None required_writes required_notifies [BleCommand]) 5 =
     (Some (example_link kEncrypted True 0), Some (example_advice kEncrypted kSubscribe))"
    by (simp add: update_defs c Let_def)
  show "dart_link_update (Some (example_link kEncrypted True 0))
       (observe_turn (Some (example_device required)) None required_writes required_notifies [BleCommand, BleSettings, BleQuery]) 5 =
     (Some (example_link kReady True 0), Some (example_advice kReady LinkAction.kNone))"
    by (simp add: update_defs c Let_def)
qed

lemma good_turn:
  assumes "n < 10" "located None (good_turns n) st = (required_writes, required_notifies)"
    and "dart_link_update (bu_link st) (observe_turn (Some (example_device required)) None required_writes required_notifies (bu_subscribed st)) 5 =
      (l, Some adv)"
  shows "bring_up_turn 10 None (good_turns n) st =
    (let st = st\<lparr>bu_link := l, bu_writes := required_writes, bu_notifies := required_notifies, bu_last := Some adv\<rparr> in
     if adv_state adv = kReady then (st, Some (BroughtUp (example_device required) required_writes required_notifies))
     else act adv (Some (example_device required)) None (good_turns n) st)"
  using assms unfolding good_turns_def by (rule example_turn_step)

lemma good_subscribes:
  "subscribe (good_turns n) (Some 1) 0 required_notifies [] = ([BleCommand], [(StartNotify (gp_uuid ''0073''), True)], False)"
  "subscribe (good_turns n) None 0 required_notifies [BleCommand] =
     ([BleCommand, BleSettings, BleQuery], [(StartNotify (gp_uuid ''0075''), True), (StartNotify (gp_uuid ''0077''), True)], False)"
  by (simp_all add: good_turns_def example_turn_def example_chars_def)

lemma good_climb:
  "\<exists>st. bring_up good_turns 10 None 0 (bring_up_start (gopro_link_create 0 0 0 0 0 0)) =
     Some (st, BroughtUp (example_device required) required_writes required_notifies) \<and> bu_subscribed st = [BleCommand, BleSettings, BleQuery]"
proof -
  let ?bu = "\<lambda>l subs a tr. \<lparr>bu_link = Some l, bu_writes = required_writes, bu_notifies = required_notifies,
       bu_subscribed = subs, bu_last = Some a, bu_trace = tr\<rparr>"
  let ?tr1 = "[(StartNotify (gp_uuid ''0073''), True)]"
  let ?tr2 = "?tr1 @ [(StartNotify (gp_uuid ''0075''), True), (StartNotify (gp_uuid ''0077''), True)]"
  let ?st1 = "?bu (example_link kServicesResolved True 0) [BleCommand] (example_advice kServicesResolved kPair) ?tr1"
  let ?st2 = "?bu (example_link kEncrypted True 0) [BleCommand, BleSettings, BleQuery] (example_advice kEncrypted kSubscribe) ?tr2"
  let ?st3 = "?bu (example_link kReady True 0) [BleCommand, BleSettings, BleQuery] (example_advice kReady LinkAction.kNone) ?tr2"
  have t0: "bring_up_turn 10 None (good_turns 0) (bring_up_start (gopro_link_create 0 0 0 0 0 0)) = (?st1, None)"
    by (subst good_turn [where l = "Some (example_link kServicesResolved True 0)" and adv = "example_advice kServicesResolved kPair"])
       (simp_all add: bring_up_start_def locate_required good_updates example_acts good_subscribes [unfolded One_nat_def] Let_def)
  have t1: "bring_up_turn 10 None (good_turns 1) ?st1 = (?st2, None)"
    by (subst good_turn [where l = "Some (example_link kEncrypted True 0)" and adv = "example_advice kEncrypted kSubscribe"])
       (simp_all add: locate_required good_updates example_acts good_subscribes Let_def)
  have t2: "bring_up_turn 10 None (good_turns 2) ?st2 =
      (?st3, Some (BroughtUp (example_device required) required_writes required_notifies))"
    by (subst good_turn [where l = "Some (example_link kReady True 0)" and adv = "example_advice kReady LinkAction.kNone"])
       (simp_all add: locate_required good_updates Let_def)
  have l: "[0..<2] = [0, 1 :: nat]" by (simp add: upt_rec)
  have "turns_from 10 None (bring_up_start (gopro_link_create 0 0 0 0 0 0)) (map good_turns [0..<2]) = Some ?st2"
    by (simp only: l list.map turns_from.simps t0 t1 prod.case option.case)
  from bring_up_returns [OF this t2] show ?thesis by auto
qed

section \<open>Properties\<close>

text \<open>
  C9. Bring-up returns only on evidence: the device it returns was the candidate of the
  turn, connected, with every required characteristic located; at least as many channels are
  subscribed as are required, each by a \<open>StartNotify\<close> that succeeded in this climb, in the order
  they were located; and they include the three required ones unless the optional channel was
  located among the first three.
\<close>

theorem bring_up_returns_on_evidence:
  assumes "bring_up turns timeout address 0 (bring_up_start (gopro_link_create 0 0 0 0 0 0)) = Some (st, BroughtUp d ws ns)"
  shows "\<exists>m pre rest. candidate address (t_devices (turns m)) = Some d \<and> dev_connected d \<and> chars_complete ws ns \<and>
    length characteristics \<le> length pre \<and> ns = pre @ rest \<and> bu_subscribed st = map fst pre \<and>
    (\<forall>e\<in>set pre. (StartNotify (ch_path (snd e)), True) \<in> set (bu_trace st)) \<and>
    ({BleCommand, BleSettings, BleQuery} \<subseteq> fst ` set pre \<or> BleNetwork \<in> fst ` set (take 3 pre))"
proof -
  from bring_up_effect [OF assms] start_inv obtain m where inv: "bu_inv st"
    and ev: "evidence address (turns m) st d ws ns" by (auto simp: climb_ok_def)
  then obtain pre rest where p: "ns = pre @ rest" "bu_subscribed st = map fst pre" "acknowledged (bu_trace st) pre"
    by (auto simp: bu_inv_def evidence_def)
  moreover have "{BleCommand, BleSettings, BleQuery} \<subseteq> fst ` set pre \<or> BleNetwork \<in> fst ` set (take 3 pre)"
    using required_subscribed [OF inv, of ws] ev p(2) by (auto simp: evidence_def take_map)
  moreover have "length characteristics \<le> length pre" using ev p(2) by (simp add: evidence_def)
  moreover have last_turn: "candidate address (t_devices (turns m)) = Some d" "dev_connected d" "chars_complete ws ns"
    using ev unfolding evidence_def by blast+
  ultimately have "candidate address (t_devices (turns m)) = Some d \<and> dev_connected d \<and> chars_complete ws ns \<and>
    length characteristics \<le> length pre \<and> ns = pre @ rest \<and> bu_subscribed st = map fst pre \<and>
    (\<forall>e\<in>set pre. (StartNotify (ch_path (snd e)), True) \<in> set (bu_trace st)) \<and>
    ({BleCommand, BleSettings, BleQuery} \<subseteq> fst ` set pre \<or> BleNetwork \<in> fst ` set (take 3 pre))"
    using last_turn by (simp only: acknowledged_def)
  then show ?thesis by blast
qed

theorem bring_up_returns_on_evidence_witness:
  "\<exists>(st :: BringUp) m pre rest. candidate None (t_devices (deaf_turns m)) = Some (example_device late) \<and>
    length characteristics \<le> length pre \<and> late_notifies = pre @ rest \<and> bu_subscribed st = map fst pre \<and>
    (\<forall>e\<in>set pre. (StartNotify (ch_path (snd e)), True) \<in> set (bu_trace st)) \<and> BleNetwork \<in> fst ` set (take 3 pre)"
proof -
  obtain st where st: "bring_up deaf_turns 10 None 0 (bring_up_start (gopro_link_create 0 0 0 0 0 0)) =
      Some (st, BroughtUp (example_device late) late_writes late_notifies)" "bu_subscribed st = few"
    using deaf_query_channel by blast
  have deaf: "BleQuery \<notin> fst ` set pre" if "bu_subscribed st = map fst pre" for pre :: ChannelMap
  proof -
    have "fst ` set pre = set few" using that st(2) by (metis set_map)
    then show ?thesis by simp
  qed
  obtain m pre rest where c: "candidate None (t_devices (deaf_turns m)) = Some (example_device late)"
    "length characteristics \<le> length pre" "late_notifies = pre @ rest" "bu_subscribed st = map fst pre"
    "\<forall>e\<in>set pre. (StartNotify (ch_path (snd e)), True) \<in> set (bu_trace st)"
    "{BleCommand, BleSettings, BleQuery} \<subseteq> fst ` set pre \<or> BleNetwork \<in> fst ` set (take 3 pre)"
    using bring_up_returns_on_evidence [OF st(1)] by blast
  from deaf [OF c(4)] c(6) have "BleNetwork \<in> fst ` set (take 3 pre)" by blast
  with c(1-5) show ?thesis by blast
qed

text \<open>
  C29. A failed connection says why: whenever \<open>connect\<close> throws, the exception carries a non-empty
  explanation, whatever stage was reached and whatever failed.
\<close>

theorem connect_failure_explained:
  assumes "transport_connect turns timeout address mtu port ka rc now = Some (Inl (s, r, d))"
  shows "d \<noteq> ''''"
proof -
  obtain st where "bring_up turns timeout address 0 (bring_up_start (gopro_link_create 0 0 0 0 0 0)) =
      Some (st, GoProBleException s r d)"
    using assms by (auto simp: transport_connect_def split: option.splits BringUpResult.splits)
  from bring_up_effect [OF this] start_inv show ?thesis by (simp add: climb_ok_def)
qed

theorem connect_failure_explained_witness:
  "transport_connect deaf_turns 0 None (\<lambda>c. 23) 7 0 False 0 = Some (Inl (kAbsent, kNoAdvertisement, timedOutAt kAbsent)) \<and>
   timedOutAt kAbsent \<noteq> ''''"
proof -
  let ?st = "bring_up_start (gopro_link_create 0 0 0 0 0 0)"
  have "bring_up_turn 0 None (deaf_turns 0) ?st = (?st, Some (timed_out (bu_last ?st)))" by (simp add: bring_up_turn_def)
  moreover have "timed_out (bu_last ?st) = GoProBleException kAbsent kNoAdvertisement (timedOutAt kAbsent)"
    by (simp add: timed_out_def bring_up_start_def)
  ultimately have "bring_up deaf_turns 0 None 0 ?st = Some (?st, GoProBleException kAbsent kNoAdvertisement (timedOutAt kAbsent))"
    using bring_up_returns [of 0 None ?st deaf_turns 0 ?st] by simp
  then have c: "transport_connect deaf_turns 0 None (\<lambda>c. 23) 7 0 False 0 = Some (Inl (kAbsent, kNoAdvertisement, timedOutAt kAbsent))"
    by (simp add: transport_connect_def)
  with connect_failure_explained [OF c] show ?thesis by blast
qed

text \<open>
  C28. Connecting ends: if the stopwatch reaches the timeout in some turn, \<open>connect\<close> returns a
  camera or throws, whatever BlueZ shows and whichever of its calls fail.
\<close>

theorem connect_ends:
  assumes "timeout \<le> t_elapsed (turns m)"
  shows "\<exists>r. transport_connect turns timeout address mtu port ka rc now = Some r"
proof -
  obtain st r where b: "bring_up turns timeout address 0 (bring_up_start (gopro_link_create 0 0 0 0 0 0)) = Some (st, r)"
    using bring_up_ends [where turns = turns and m = m and n = 0, OF assms] by fastforce
  from bring_up_effect [OF b] start_inv have "bu_link st \<noteq> None" by (simp add: climb_ok_def bu_inv_def)
  then show ?thesis by (auto simp: transport_connect_def b split: BringUpResult.split)
qed

theorem connect_ends_witness:
  "\<exists>r. transport_connect deaf_turns 10 None (\<lambda>c. 23) 7 0 False 0 = Some r"
  by (rule connect_ends [where m = 10]) (simp add: deaf_turns_def example_turn_def)

text \<open>
  C27. What \<open>connect\<close> hands over is complete: a camera it returns is up; it has the write
  characteristic of each of the three required channels and is subscribed to the stream of
  values of each; its commands are accounted for on the native side and its handles are live;
  and the status query that opens the ready gate is pending and in flight, and the first event
  delivered writes it to the query characteristic. For which channels BlueZ has acknowledged
  \<open>StartNotify\<close> is C9, not this property.
\<close>

theorem connected_camera_ready:
  assumes "transport_connect turns timeout address mtu port ka rc now = Some (Inr cam)"
  shows "gc_state cam = LinkIsUp \<and> {BleCommand, BleSettings, BleQuery} \<subseteq> set (gc_writes cam) \<inter> {c. (c, True) \<in> set (gc_subs cam)} \<and>
    up_inv cam \<and> close_inv cam \<and> gc_pending cam = [(0x213, 0)] \<and>
    (\<exists>ctx. gc_session cam = Some ctx \<and> is_in_flight (s_queue (bc_session ctx)) 0x213) \<and>
    snd (cam_step cam CEvent) = [GattWrite BleQuery status_query_packet]"
proof -
  obtain st d ws ns link where b: "bring_up turns timeout address 0 (bring_up_start (gopro_link_create 0 0 0 0 0 0)) =
      Some (st, BroughtUp d ws ns)" and cam: "cam = camera_connect link port ka rc (attached_of mtu ws ns) now"
    using assms by (auto simp: transport_connect_def split: option.splits BringUpResult.splits)
  have "chars_complete ws ns" using bring_up_effect [OF b] start_inv by (auto simp: climb_ok_def evidence_def)
  then have req: "{BleCommand, BleSettings, BleQuery} \<subseteq> fst ` set ws \<inter> fst ` set ns"
    by (simp add: chars_complete_def characteristics_def)
  have w: "set (gc_writes cam) = fst ` set ws" and n: "{c. (c, True) \<in> set (gc_subs cam)} = fst ` set ns"
    by (simp add: cam connect_frame attached_of_def image_image split_beta) (force simp: cam connect_frame attached_of_def)
  have "BleQuery \<in> set (gc_writes cam)" using req w by auto
  then have "snd (cam_step cam CEvent) = [GattWrite BleQuery status_query_packet]"
    by (simp add: cam fresh_attach on_event_def decode_encode kChannelCount_def dart_channel_def BleChannel_values_def del: encode_event.simps)
  moreover have "gc_state cam = LinkIsUp" by (simp add: cam connect_frame)
  moreover have "\<exists>ctx. gc_session cam = Some ctx \<and> is_in_flight (s_queue (bc_session ctx)) 0x213"
    using fresh_attach(4) [of link port ka rc "attached_of mtu ws ns" now] by (auto simp: cam is_in_flight_def)
  ultimately show ?thesis using req connect_up connect_close_inv by (simp add: cam fresh_attach w [unfolded cam] n [unfolded cam])
qed

text \<open>A climb that shows all three channels at once and in which every call succeeds.\<close>

theorem connected_camera_ready_witness:
  "\<exists>st cam. bring_up good_turns 10 None 0 (bring_up_start (gopro_link_create 0 0 0 0 0 0)) =
       Some (st, BroughtUp (example_device required) required_writes required_notifies) \<and>
     bu_subscribed st = [BleCommand, BleSettings, BleQuery] \<and>
     transport_connect good_turns 10 None (\<lambda>c. 23) 7 0 False 0 = Some (Inr cam) \<and> gc_state cam = LinkIsUp \<and>
     {BleCommand, BleSettings, BleQuery} \<subseteq> set (gc_writes cam) \<inter> {c. (c, True) \<in> set (gc_subs cam)} \<and>
     snd (cam_step cam CEvent) = [GattWrite BleQuery status_query_packet]"
proof -
  obtain st where b: "bring_up good_turns 10 None 0 (bring_up_start (gopro_link_create 0 0 0 0 0 0)) =
      Some (st, BroughtUp (example_device required) required_writes required_notifies)"
    "bu_subscribed st = [BleCommand, BleSettings, BleQuery]"
    using good_climb by blast
  from bring_up_effect [OF b(1)] start_inv obtain link where "bu_link st = Some link" by (auto simp: climb_ok_def bu_inv_def)
  then obtain cam where c: "transport_connect good_turns 10 None (\<lambda>c. 23) 7 0 False 0 = Some (Inr cam)"
    by (simp add: transport_connect_def b)
  with b connected_camera_ready [OF c] show ?thesis by blast
qed

end
