(* ===== verification/Pairing_Agent.thy ===== *)
theory Pairing_Agent
  imports Bring_Up
begin

text \<open>
  The rest of \<open>GoProBleTransport\<close> and \<open>GoProBleCamera\<close> of \<open>lib/src/ble_transport.dart\<close>: the pairing agent
  that \<open>start\<close> registers and \<open>close\<close> gives up, the field \<open>_pairing\<close> it is guided by, and
  \<open>readCharacteristic\<close>. BlueZ delivers requests at any time; whether another agent already holds
  the bus name is an argument.

  One transport serves any number of climbs, first ones and reconnections, that run
  concurrently, so the pairings of several devices may overlap. The lemmas show whom the agent
  accepts, and that a single field is not enough when they do.
\<close>

section \<open>The agent\<close>

record Transport =
  tr_agent :: bool
  tr_pairing :: "string option"

definition registerAgent :: "bool \<Rightarrow> Transport \<Rightarrow> Transport" where
  "registerAgent refused t = (if refused then t else t\<lparr>tr_agent := True\<rparr>)"

definition transport_start :: "bool \<Rightarrow> Transport" where
  "transport_start refused = registerAgent refused \<lparr>tr_agent = False, tr_pairing = None\<rparr>"

definition transport_close :: "Transport \<Rightarrow> Transport" where
  "transport_close t = t\<lparr>tr_agent := False\<rparr>"

text \<open>An answer: the id of the request and whether it is accepted.\<close>

definition agent_request :: "nat \<Rightarrow> string \<Rightarrow> Transport \<Rightarrow> (nat \<times> bool) list" where
  "agent_request requestId devicePath t =
     (if tr_agent t then
        (let ours = tr_pairing t \<noteq> None \<and> Some devicePath = tr_pairing t in [(requestId, ours)])
      else [])"

text \<open>Around \<open>pair\<close>: the field is set before the call and cleared however it ends.\<close>

definition pair_begin :: "string \<Rightarrow> Transport \<Rightarrow> Transport" where
  "pair_begin objectPath t = t\<lparr>tr_pairing := Some objectPath\<rparr>"

definition pair_end :: "Transport \<Rightarrow> Transport" where
  "pair_end t = t\<lparr>tr_pairing := None\<rparr>"

datatype AgentLabel =
    PairBegin string
  | PairEnd string
  | AgentRequest nat string
  | TransportClose

fun agent_step :: "Transport \<Rightarrow> AgentLabel \<Rightarrow> Transport \<times> (nat \<times> bool) list" where
  "agent_step t (PairBegin p) = (pair_begin p t, [])"
| "agent_step t (PairEnd p) = (pair_end t, [])"
| "agent_step t (AgentRequest i p) = (t, agent_request i p t)"
| "agent_step t TransportClose = (transport_close t, [])"

lemmas agent_defs = pair_begin_def pair_end_def transport_close_def agent_request_def

section \<open>Reading a characteristic\<close>

datatype ReadRefusal = CameraLinkIs CameraLink | NoSuchCharacteristic string

definition readCharacteristic :: "string \<Rightarrow> CameraLink \<Rightarrow> BlueZDevice \<Rightarrow> ReadRefusal + GattChar" where
  "readCharacteristic uuid state device =
     (if state \<noteq> LinkIsUp then Inl (CameraLinkIs state)
      else
        (let want = map lower_char uuid in
         case List.find (\<lambda>c. map lower_char (ch_uuid c) = want) (dev_chars device) of
           Some c \<Rightarrow> Inr c
         | None \<Rightarrow> Inl (NoSuchCharacteristic uuid)))"

lemma readCharacteristic_result:
  "readCharacteristic uuid state device = Inr c \<Longrightarrow>
     state = LinkIsUp \<and> c \<in> set (dev_chars device) \<and> map lower_char (ch_uuid c) = map lower_char uuid"
  "readCharacteristic uuid LinkIsUp device = Inl e \<longleftrightarrow>
     e = NoSuchCharacteristic uuid \<and> (\<forall>c\<in>set (dev_chars device). map lower_char (ch_uuid c) \<noteq> map lower_char uuid)"
  by (auto simp: readCharacteristic_def Let_def find_Some_iff find_None_iff split: if_splits option.splits)

section \<open>Whom the agent accepts\<close>

text \<open>The pairings begun and not ended, by the labels alone.\<close>

fun pairing_now :: "AgentLabel \<Rightarrow> string list \<Rightarrow> string list" where
  "pairing_now (PairBegin p) ps = p # ps"
| "pairing_now (PairEnd p) ps = remove1 p ps"
| "pairing_now _ ps = ps"

text \<open>The labels that touch the field.\<close>

fun touches_pairing :: "AgentLabel \<Rightarrow> bool" where
  "touches_pairing (PairBegin p) = True"
| "touches_pairing (PairEnd p) = True"
| "touches_pairing _ = False"

text \<open>
  What the field says, against the pairings under way: it names one of them, or nothing.
\<close>

definition field_ok :: "Transport \<Rightarrow> string list \<Rightarrow> bool" where
  "field_ok t ps \<longleftrightarrow> (case tr_pairing t of None \<Rightarrow> True | Some p \<Rightarrow> p \<in> set ps)"

lemma agent_step_field:
  "field_ok t ps \<Longrightarrow> field_ok (fst (agent_step t l)) (pairing_now l ps)"
  by (cases l) (auto simp: field_ok_def agent_defs split: option.splits)

interpretation agent: refined_machine agent_step "transport_start refused" field_ok pairing_now "[]"
  for refused
proof unfold_locales
  show "field_ok (transport_start refused) []"
    by (simp add: field_ok_def transport_start_def registerAgent_def)
qed (rule agent_step_field)

text \<open>
  Two overlapping pairings: the one that began first is refused while the other is under way,
  and the other is refused as soon as the first has ended, though both are the host's own.
\<close>

lemma overlapping_pairings_refused:
  assumes "a \<noteq> b"
  shows "snd (run agent_step (transport_start False)
      [PairBegin a, PairBegin b, AgentRequest 0 a, PairEnd a, AgentRequest 1 b]) = [(0, False), (1, False)]"
  using assms by (simp add: transport_start_def registerAgent_def agent_defs)

section \<open>Properties\<close>

lemma field_is_last:
  "tr_pairing (fst (run agent_step t ls)) =
     (case find touches_pairing (rev ls) of None \<Rightarrow> tr_pairing t | Some (PairBegin p) \<Rightarrow> Some p | Some l \<Rightarrow> None)"
proof (induction ls rule: rev_induct)
  case (snoc l ls)
  then show ?case by (cases l) (simp_all add: run_append split_beta Let_def agent_defs)
qed simp

lemma agent_held:
  "tr_agent (fst (run agent_step t ls)) \<longleftrightarrow> tr_agent t \<and> TransportClose \<notin> set ls"
proof (induction ls arbitrary: t)
  case (Cons l ls)
  from Cons.IH [of "fst (agent_step t l)"] show ?case
    by (cases l) (auto simp: split_beta Let_def agent_defs)
qed simp

text \<open>
  C30. The agent bonds the host to nothing it is not pairing with, and to what it is: whatever
  requests come while any number of climbs pair and finish, one is accepted exactly if the
  transport holds the agent and the latest start or end of a pairing was the start of its own
  device's, which is then under way.
\<close>

theorem agent_accepts_only_own_pairing:
  "let t = fst (run agent_step (transport_start refused) ls) in
   ((i, True) \<in> set (agent_request i path t) \<longleftrightarrow>
     \<not> refused \<and> TransportClose \<notin> set ls \<and> find touches_pairing (rev ls) = Some (PairBegin path)) \<and>
   ((i, True) \<in> set (agent_request i path t) \<longrightarrow> path \<in> set (fold pairing_now ls []))"
proof -
  let ?t = "fst (run agent_step (transport_start refused) ls)"
  have accepted: "(i, True) \<in> set (agent_request i path ?t) \<longleftrightarrow> tr_agent ?t \<and> tr_pairing ?t = Some path"
    by (auto simp: agent_request_def)
  have "tr_pairing ?t = Some path \<longleftrightarrow> find touches_pairing (rev ls) = Some (PairBegin path)"
    by (auto simp: field_is_last transport_start_def registerAgent_def split: option.splits AgentLabel.splits)
  moreover have "tr_agent ?t \<longleftrightarrow> \<not> refused \<and> TransportClose \<notin> set ls"
    by (simp add: agent_held transport_start_def registerAgent_def)
  moreover have "tr_pairing ?t = Some path \<Longrightarrow> path \<in> set (fold pairing_now ls [])"
    using agent.rel_run [of refused ls] by (simp add: field_ok_def)
  ultimately show ?thesis unfolding Let_def accepted by blast
qed

theorem agent_accepts_only_own_pairing_witness:
  "(2, True) \<in> set (agent_request 2 ''/a'' (fst (run agent_step (transport_start False) [PairBegin ''/a'', AgentRequest 1 ''/b'']))) \<and>
   ''/a'' \<in> set (fold pairing_now [PairBegin ''/a'', AgentRequest 1 ''/b''] [])"
  using agent_accepts_only_own_pairing [of False "[PairBegin ''/a'', AgentRequest 1 ''/b'']" 2 "''/a''"]
  by (simp add: Let_def)

end
