(* ===== verification/Gopro_Usb.thy ===== *)
theory Gopro_Usb
  imports Gp_Prelude "HOL-Library.Sublist"
begin

text \<open>
  USB discovery: \<open>native/include/gopro_usb.h\<close> and \<open>native/src/gopro_usb.cpp\<close>. What the file
  system, the network stack and libusb answer is the environment, an argument of every
  function that asks: a record of functions, one per call the source makes. The directory
  order, which is unspecified, is whatever the environment lists. Locks and the freeing of
  handles and lists have no effect on the values and are left out.

  The lemmas show what an address or a device name is derived from, that the scan for the
  network interface misses none, what the rename diagnostics mean, what readiness depends on,
  that waiting ends, and what a departure event recalls.
\<close>

section \<open>Data\<close>

definition kGoProVid :: u16 where "kGoProVid = 0x2672"

datatype SerialSource = kNone | kDescriptor | kSysfs

datatype Readiness = kAbsent | kUsbPresent | kNetdevBound | kHostAddressed | kL3Ready

fun readiness_to_string :: "Readiness \<Rightarrow> string" where
  "readiness_to_string kAbsent = ''absent''"
| "readiness_to_string kUsbPresent = ''usb-present''"
| "readiness_to_string kNetdevBound = ''netdev-bound''"
| "readiness_to_string kHostAddressed = ''host-addressed''"
| "readiness_to_string kL3Ready = ''l3-ready''"

record Camera =
  c_vid :: u16
  c_pid :: u16
  c_bus :: u8
  c_address :: u8
  c_ports :: bytes
  c_sysfs_name :: string
  c_serial :: string
  c_serial_source :: SerialSource
  c_ip :: string
  c_netdev :: string
  c_netdev_first_seen :: string
  c_netdev_renamed :: bool
  c_link_state :: string
  c_host_ip :: string
  c_readiness :: Readiness
  c_has_cdc_interface :: bool

definition new_camera :: Camera where
  "new_camera = \<lparr>c_vid = 0, c_pid = 0, c_bus = 0, c_address = 0, c_ports = [], c_sysfs_name = '''',
     c_serial = '''', c_serial_source = kNone, c_ip = '''', c_netdev = '''', c_netdev_first_seen = '''',
     c_netdev_renamed = False, c_link_state = '''', c_host_ip = '''', c_readiness = kAbsent,
     c_has_cdc_interface = False\<rparr>"

section \<open>The environment\<close>

text \<open>An entry of \<open>getifaddrs\<close>: its name, its address family if it has an address, and what
  \<open>inet_ntop\<close> prints for it.\<close>

record IfAddr =
  ifa_name :: "string option"
  ifa_family :: "nat option"
  ifa_text :: "string option"

datatype ConnectResult = Connected | InProgress | ConnectError

record Env =
  fs_is_directory :: "string \<Rightarrow> bool"
  fs_exists :: "string \<Rightarrow> bool"
  fs_list :: "string \<Rightarrow> string list"
  fs_read :: "string \<Rightarrow> string option"
  ifaddrs :: "IfAddr list option"
  inet_pton_ok :: "string \<Rightarrow> bool"
  socket_ok :: bool
  connect_to :: "string \<Rightarrow> u16 \<Rightarrow> ConnectResult"
  poll_writable :: "string \<Rightarrow> u16 \<Rightarrow> int \<Rightarrow> bool"
  socket_error :: "string \<Rightarrow> u16 \<Rightarrow> int option"

definition kAfInet :: nat where "kAfInet = 2"

text \<open>\<open>operator/\<close> of \<open>std::filesystem::path\<close> on POSIX.\<close>

definition path_join :: "string \<Rightarrow> string \<Rightarrow> string" where
  "path_join a b =
     (if b \<noteq> '''' \<and> hd b = CHR ''/'' then b
      else if a = '''' \<or> last a = CHR ''/'' then a @ b
      else a @ ''/'' @ b)"

text \<open>\<open>std::getline\<close>, then the trimming of trailing line ends.\<close>

definition read_sysfs_line :: "Env \<Rightarrow> string \<Rightarrow> string" where
  "read_sysfs_line env p =
     (case fs_read env p of
        None \<Rightarrow> ''''
      | Some content \<Rightarrow>
          rev (dropWhile (\<lambda>c. c = CHR 0x0A \<or> c = CHR 0x0D)
            (rev (takeWhile (\<lambda>c. c \<noteq> CHR 0x0A) content))))"

definition is_cdc_class :: "u8 \<Rightarrow> bool" where
  "is_cdc_class cls \<longleftrightarrow> cls = 0x02 \<or> cls = 0x0a \<or> cls = 0xef"

section \<open>Pure helpers\<close>

definition is_digit :: "char \<Rightarrow> bool" where
  "is_digit c \<longleftrightarrow> c \<in> set ''0123456789''"

definition derive_ip :: "string \<Rightarrow> string option" where
  "derive_ip serial =
     (if length serial < 3 then None
      else
        (let tail = drop (length serial - 3) serial in
         if list_ex (\<lambda>c. \<not> is_digit c) tail then None
         else Some (''172.2'' @ [tail ! 0] @ ''.1'' @ [tail ! 1] @ [tail ! 2] @ ''.51'')))"

definition digit :: "nat \<Rightarrow> char" where
  "digit d = (''0123456789abcdef'' ! d)"

text \<open>\<open>std::format\<close> of an unsigned integer in decimal, and in hexadecimal of width four.\<close>

fun dec :: "nat \<Rightarrow> string" where
  "dec n = (if n < 10 then [digit n] else dec (n div 10) @ [digit (n mod 10)])"

declare dec.simps [simp del]

definition hex4 :: "u16 \<Rightarrow> string" where
  "hex4 w = map (\<lambda>i. digit (unat (drop_bit (4 * i) w AND 0xF))) [3, 2, 1, 0]"

definition sysfs_name :: "u8 \<Rightarrow> bytes \<Rightarrow> string" where
  "sysfs_name bus ports =
     (case ports of
        [] \<Rightarrow> ''usb'' @ dec (unat bus)
      | p # ps \<Rightarrow>
          dec (unat bus) @ ''-'' @ dec (unat p) @ concat (map (\<lambda>p. ''.'' @ dec (unat p)) ps))"

definition describe :: "Camera \<Rightarrow> string" where
  "describe c =
     hex4 (c_vid c) @ '':'' @ hex4 (c_pid c) @ '' bus '' @ dec (unat (c_bus c)) @ '' addr '' @
       dec (unat (c_address c)) @ '' at '' @ c_sysfs_name c @
     [CHR 0x0A] @ ''    serial : '' @ (if c_serial c = '''' then ''<unavailable>'' else c_serial c) @
       (if c_serial_source c = kSysfs then '' (sysfs)''
        else if c_serial_source c = kDescriptor then '' (descriptor)'' else '''') @
     [CHR 0x0A] @ ''    ip     : '' @ (if c_ip c = '''' then ''<underivable>'' else c_ip c) @
     [CHR 0x0A] @ ''    netdev : '' @ (if c_netdev c = '''' then ''<not bound>'' else c_netdev c) @
       (if c_netdev_renamed c
        then ''  (RENAMED from '' @ [CHR 0x27] @ c_netdev_first_seen c @ [CHR 0x27] @ '' -- see DEBUG NOTE)''
        else '''') @
     [CHR 0x0A] @ ''    link   : '' @ (if c_link_state c = '''' then ''-'' else c_link_state c) @
     [CHR 0x0A] @ ''    host ip: '' @ (if c_host_ip c = '''' then ''<no lease>'' else c_host_ip c) @
     [CHR 0x0A] @ ''    cdc    : '' @ (if c_has_cdc_interface c then ''yes'' else ''no'') @
     [CHR 0x0A] @ ''    state  : '' @ readiness_to_string (c_readiness c)"

section \<open>The network interface\<close>

definition sysfs_root :: string where "sysfs_root = ''/sys/bus/usb/devices''"

text \<open>The loop over the entries of the device directory.\<close>

fun find_netdev_loop :: "Env \<Rightarrow> string \<Rightarrow> string \<Rightarrow> string list \<Rightarrow> string" where
  "find_netdev_loop env dev_dir pfx [] = ''''"
| "find_netdev_loop env dev_dir pfx (name # names) =
     (if \<not> prefix pfx name then find_netdev_loop env dev_dir pfx names
      else
        (let net_dir = path_join (path_join dev_dir name) ''net'' in
         if \<not> fs_is_directory env net_dir then find_netdev_loop env dev_dir pfx names
         else case fs_list env net_dir of
                [] \<Rightarrow> find_netdev_loop env dev_dir pfx names
              | n # _ \<Rightarrow> n))"

definition find_netdev :: "Env \<Rightarrow> string \<Rightarrow> string \<Rightarrow> string" where
  "find_netdev env sysfs root =
     (let dev_dir = path_join root sysfs in
      if \<not> fs_is_directory env dev_dir then ''''
      else find_netdev_loop env dev_dir (sysfs @ '':'') (fs_list env dev_dir))"

definition resolve_netdev :: "Env \<Rightarrow> Camera \<Rightarrow> string \<Rightarrow> Camera" where
  "resolve_netdev env c root =
     (let now = find_netdev env (c_sysfs_name c) root in
      if now = '''' then c
      else
        (let c1 = (if c_netdev_first_seen c = '''' then c\<lparr>c_netdev_first_seen := now\<rparr>
                   else if c_netdev_first_seen c \<noteq> now then c\<lparr>c_netdev_renamed := True\<rparr>
                   else c)
         in c1\<lparr>c_netdev := now\<rparr>))"

fun host_ipv4_loop :: "string \<Rightarrow> IfAddr list \<Rightarrow> string" where
  "host_ipv4_loop netdev [] = ''''"
| "host_ipv4_loop netdev (p # ps) =
     (if ifa_family p = None \<or> ifa_name p = None then host_ipv4_loop netdev ps
      else if ifa_family p \<noteq> Some kAfInet then host_ipv4_loop netdev ps
      else if ifa_name p \<noteq> Some netdev then host_ipv4_loop netdev ps
      else (case ifa_text p of None \<Rightarrow> '''' | Some s \<Rightarrow> s))"

definition host_ipv4 :: "Env \<Rightarrow> string \<Rightarrow> string" where
  "host_ipv4 env netdev =
     (if netdev = '''' then ''''
      else case ifaddrs env of None \<Rightarrow> '''' | Some ifa \<Rightarrow> host_ipv4_loop netdev ifa)"

definition link_state :: "Env \<Rightarrow> string \<Rightarrow> string" where
  "link_state env netdev =
     (if netdev = '''' then ''''
      else read_sysfs_line env (path_join (path_join ''/sys/class/net'' netdev) ''operstate''))"

section \<open>Readiness\<close>

definition probe_tcp :: "Env \<Rightarrow> string \<Rightarrow> u16 \<Rightarrow> int \<Rightarrow> bool" where
  "probe_tcp env ip port timeout_ms =
     (if \<not> inet_pton_ok env ip then False
      else if \<not> socket_ok env then False
      else
        (case connect_to env ip port of
           Connected \<Rightarrow> True
         | InProgress \<Rightarrow> poll_writable env ip port timeout_ms \<and> socket_error env ip port = Some 0
         | ConnectError \<Rightarrow> False))"

definition advance_readiness :: "Env \<Rightarrow> Camera \<Rightarrow> u16 \<Rightarrow> int \<Rightarrow> Camera" where
  "advance_readiness env c probe_port probe_timeout_ms =
     (if \<not> fs_exists env (path_join sysfs_root (c_sysfs_name c)) then c\<lparr>c_readiness := kAbsent\<rparr>
      else
        (let c = resolve_netdev env (c\<lparr>c_readiness := kUsbPresent\<rparr>) sysfs_root in
         if c_netdev c = '''' then c
         else
           (let c = c\<lparr>c_link_state := link_state env (c_netdev c), c_readiness := kNetdevBound\<rparr>;
                c = c\<lparr>c_host_ip := host_ipv4 env (c_netdev c)\<rparr>
            in if c_host_ip c = '''' then c
               else
                 (let c = c\<lparr>c_readiness := kHostAddressed\<rparr> in
                  if probe_port = 0 \<or> c_ip c = '''' then c
                  else if probe_tcp env (c_ip c) probe_port probe_timeout_ms
                  then c\<lparr>c_readiness := kL3Ready\<rparr> else c))))"

text \<open>
  The polling loop. Attempt \<open>i\<close> sees the environment \<open>envs i\<close> and reads the clock \<open>clock i\<close>
  after it; the loop need not end, so not returning is \<open>None\<close>.
\<close>

partial_function (option) wait_loop ::
  "(nat \<Rightarrow> Env) \<Rightarrow> (nat \<Rightarrow> int) \<Rightarrow> int \<Rightarrow> int \<Rightarrow> u16 \<Rightarrow> nat \<Rightarrow> Camera \<Rightarrow> Camera option" where
  "wait_loop envs clock deadline poll_ms probe_port i c =
     (let c = advance_readiness (envs i) c probe_port (min (poll_ms * 4) 500) in
      if c_readiness c = kL3Ready then Some c
      else if clock i \<ge> deadline then Some c
      else wait_loop envs clock deadline poll_ms probe_port (Suc i) c)"

definition wait_until_ready ::
  "(nat \<Rightarrow> Env) \<Rightarrow> (nat \<Rightarrow> int) \<Rightarrow> int \<Rightarrow> Camera \<Rightarrow> int \<Rightarrow> int \<Rightarrow> u16 \<Rightarrow> Camera option" where
  "wait_until_ready envs clock start c timeout_ms poll_ms probe_port =
     wait_loop envs clock (start + timeout_ms) poll_ms probe_port 0 c"

section \<open>Device names\<close>

lemma digit_cases: "d < 10 \<Longrightarrow> d \<in> {0, 1, 2, 3, 4, 5, 6, 7, 8, 9 :: nat}"
  by auto

definition digit_value :: "char \<Rightarrow> nat" where
  "digit_value c = of_char c - 48"

lemma digit_value_digit: "d < 10 \<Longrightarrow> digit_value (digit d) = d \<and> is_digit (digit d)"
  using digit_cases [of d] by (auto simp: digit_value_def digit_def is_digit_def)

definition undec :: "string \<Rightarrow> nat" where
  "undec s = foldl (\<lambda>a c. a * 10 + digit_value c) 0 s"

lemma undec_dec: "undec (dec n) = n"
proof (induction n rule: dec.induct)
  case (1 n)
  show ?case
  proof (cases "n < 10")
    case True
    then show ?thesis by (subst dec.simps) (simp add: undec_def digit_value_digit)
  next
    case False
    have "undec (dec n) = undec (dec (n div 10)) * 10 + digit_value (digit (n mod 10))"
      using False by (subst dec.simps) (simp add: undec_def)
    also have "\<dots> = n div 10 * 10 + n mod 10" using 1 [OF False] by (simp add: digit_value_digit)
    finally show ?thesis by simp
  qed
qed

lemma dec_inject: "dec m = dec n \<longleftrightarrow> m = n"
  by (metis undec_dec)

lemma dec_digits: "list_all is_digit (dec n)"
proof (induction n rule: dec.induct)
  case (1 n)
  have "is_digit (digit (n mod 10))" "n < 10 \<Longrightarrow> is_digit (digit n)" by (simp_all add: digit_value_digit)
  then show ?case using 1 by (cases "n < 10") (simp_all add: dec.simps [of n])
qed

lemma dec_nonempty: "dec n \<noteq> []"
  by (simp add: dec.simps [of n])

lemma takeWhile_dec: "\<not> is_digit c \<Longrightarrow> takeWhile is_digit (dec n @ c # rest) = dec n"
  "takeWhile is_digit (dec n) = dec n"
  using dec_digits [of n] by (simp_all add: takeWhile_append takeWhile_eq_all_conv list_all_iff)

definition port_tail :: "bytes \<Rightarrow> string" where
  "port_tail ps = concat (map (\<lambda>p. ''.'' @ dec (unat p)) ps)"

lemma takeWhile_port: "takeWhile is_digit (dec n @ port_tail ps) = dec n"
  by (cases ps) (simp_all add: port_tail_def takeWhile_dec is_digit_def)

lemma port_path_inject:
  "dec (unat (p :: u8)) @ port_tail ps = dec (unat (p' :: u8)) @ port_tail ps' \<longleftrightarrow> p = p' \<and> ps = ps'"
proof (induction ps arbitrary: p p' ps')
  case Nil
  show ?case
  proof
    assume eq: "dec (unat p) @ port_tail [] = dec (unat p') @ port_tail ps'"
    then have "dec (unat p) = dec (unat p')" using takeWhile_port by metis
    with eq show "p = p' \<and> [] = ps'"
      by (cases ps') (simp_all add: port_tail_def dec_inject word_unat_eq_iff)
  qed simp
next
  case (Cons q qs)
  show ?case
  proof
    assume eq: "dec (unat p) @ port_tail (q # qs) = dec (unat p') @ port_tail ps'"
    then have p: "dec (unat p) = dec (unat p')" using takeWhile_port by metis
    then have "port_tail (q # qs) = port_tail ps'" using eq by simp
    then obtain q' qs' where ps': "ps' = q' # qs'" by (cases ps') (simp_all add: port_tail_def)
    with \<open>port_tail (q # qs) = port_tail ps'\<close> have "dec (unat q) @ port_tail qs = dec (unat q') @ port_tail qs'"
      by (simp add: port_tail_def)
    then have "q = q' \<and> qs = qs'" by (rule Cons.IH [THEN iffD1])
    with p ps' show "p = p' \<and> q # qs = ps'" by (simp add: dec_inject word_unat_eq_iff)
  qed simp
qed

lemma sysfs_name_inject: "sysfs_name b ps = sysfs_name b' ps' \<longleftrightarrow> b = b' \<and> ps = ps'"
proof -
  have bus: "takeWhile is_digit (dec n @ ''-'' @ rest) = dec n" for n rest
    by (simp add: takeWhile_dec is_digit_def)
  have usb: "dec n @ rest \<noteq> ''usb'' @ s" for n rest s
  proof
    assume "dec n @ rest = ''usb'' @ s"
    then have "hd (dec n) = CHR ''u''" using dec_nonempty [of n] by (cases "dec n") simp_all
    moreover have "is_digit (hd (dec n))" using dec_digits [of n] dec_nonempty [of n] by (cases "dec n") simp_all
    ultimately show False by (simp add: is_digit_def)
  qed
  show ?thesis
  proof (cases ps; cases ps')
    fix p qs p' qs'
    assume c: "ps = p # qs" "ps' = p' # qs'"
    show ?thesis
    proof
      assume "sysfs_name b ps = sysfs_name b' ps'"
      then have eq: "dec (unat b) @ ''-'' @ dec (unat p) @ port_tail qs = dec (unat b') @ ''-'' @ dec (unat p') @ port_tail qs'"
        by (simp add: c sysfs_name_def port_tail_def)
      then have "dec (unat b) = dec (unat b')" using bus by metis
      with eq show "b = b' \<and> ps = ps'" by (simp add: c port_path_inject) (simp add: dec_inject word_unat_eq_iff)
    qed simp
  qed (use usb in \<open>auto simp: sysfs_name_def dec_inject word_unat_eq_iff dest: sym\<close>)
qed

section \<open>Finding the interface\<close>

lemma find_netdev_loop_sound:
  "find_netdev_loop env d pfx names = n \<Longrightarrow> n \<noteq> '''' \<Longrightarrow>
   \<exists>name\<in>set names. prefix pfx name \<and> n \<in> set (fs_list env (path_join (path_join d name) ''net''))"
  by (induction env d pfx names rule: find_netdev_loop.induct)
     (auto simp: Let_def split: if_splits list.splits)

lemma find_netdev_loop_complete:
  assumes "name \<in> set names" "prefix pfx name" "fs_is_directory env (path_join (path_join d name) ''net'')"
    and "fs_list env (path_join (path_join d name) ''net'') \<noteq> []"
    and "\<And>p. '''' \<notin> set (fs_list env p)"
  shows "find_netdev_loop env d pfx names \<noteq> ''''"
  using assms
proof (induction env d pfx names rule: find_netdev_loop.induct)
  case (2 env d pfx x xs)
  show ?case
  proof (cases "name = x")
    case True
    with 2 have "hd (fs_list env (path_join (path_join d x) ''net'')) \<noteq> ''''" by (metis list.set_sel(1))
    with 2 True show ?thesis by (auto simp: Let_def split: list.splits)
  next
    case False
    have "\<And>p n ns. fs_list env p = n # ns \<Longrightarrow> n \<noteq> ''''" using "2.prems"(5) by (metis list.set_intros(1))
    with False 2 show ?thesis by (auto simp: Let_def split: list.splits)
  qed
qed simp

section \<open>The rename diagnostics\<close>

text \<open>What the camera's three fields should be after a series of scans.\<close>

definition seen :: "string list \<Rightarrow> string list" where
  "seen names = filter (\<lambda>n. n \<noteq> '''') names"

definition resolve_all :: "Env list \<Rightarrow> Camera \<Rightarrow> string \<Rightarrow> Camera" where
  "resolve_all envs c root = foldl (\<lambda>c env. resolve_netdev env c root) c envs"

lemma resolve_netdev_frame [simp]:
  "c_sysfs_name (resolve_netdev env c root) = c_sysfs_name c" "c_ip (resolve_netdev env c root) = c_ip c"
  "c_readiness (resolve_netdev env c root) = c_readiness c"
  by (simp_all add: resolve_netdev_def Let_def)

lemma resolve_all_fields:
  assumes "c_netdev c = ''''" "c_netdev_first_seen c = ''''" "\<not> c_netdev_renamed c"
    and "names = seen (map (\<lambda>env. find_netdev env (c_sysfs_name c) root) envs)"
  shows "c_netdev (resolve_all envs c root) = (if names = [] then '''' else last names) \<and>
    c_netdev_first_seen (resolve_all envs c root) = (if names = [] then '''' else hd names) \<and>
    (c_netdev_renamed (resolve_all envs c root) \<longleftrightarrow> \<not> list_all (\<lambda>n. n = hd names) names) \<and>
    c_sysfs_name (resolve_all envs c root) = c_sysfs_name c"
  using assms
proof (induction envs arbitrary: names rule: rev_induct)
  case Nil
  then show ?case by (simp add: resolve_all_def seen_def)
next
  case (snoc env envs)
  let ?c = "resolve_all envs c root" and ?n = "find_netdev env (c_sysfs_name c) root"
  let ?names = "seen (map (\<lambda>env. find_netdev env (c_sysfs_name c) root) envs)"
  note IH = snoc.IH [OF snoc.prems(1-3) refl]
  have ne: "\<forall>n\<in>set ?names. n \<noteq> ''''" by (simp add: seen_def)
  have r: "resolve_all (envs @ [env]) c root = resolve_netdev env ?c root" by (simp add: resolve_all_def)
  have names: "names = (if ?n = '''' then ?names else ?names @ [?n])" by (simp add: snoc.prems(4) seen_def)
  show ?case
  proof (cases "?n = ''''")
    case True
    then show ?thesis using IH by (simp add: r names resolve_netdev_def)
  next
    case False
    show ?thesis
    proof (cases "?names = []")
      case True
      then show ?thesis using IH False by (simp add: r names resolve_netdev_def Let_def)
    next
      case names': False
      then have "hd ?names \<noteq> ''''" using ne by simp
      then show ?thesis using IH False names' by (auto simp: r names resolve_netdev_def Let_def)
    qed
  qed
qed

section \<open>Readiness\<close>

lemma resolve_netdev_cong:
  "find_netdev env (c_sysfs_name c) root = find_netdev env' (c_sysfs_name c) root \<Longrightarrow>
   resolve_netdev env c root = resolve_netdev env' c root"
  by (simp add: resolve_netdev_def)

lemma find_netdev_loop_cong:
  "fs_is_directory env' = fs_is_directory env \<Longrightarrow> fs_list env' = fs_list env \<Longrightarrow>
   find_netdev_loop env' d pfx names = find_netdev_loop env d pfx names"
  by (induction env d pfx names rule: find_netdev_loop.induct) (auto simp: Let_def split: list.splits)

lemma find_netdev_cong:
  "fs_is_directory env' = fs_is_directory env \<Longrightarrow> fs_list env' = fs_list env \<Longrightarrow>
   find_netdev env' s root = find_netdev env s root"
  by (simp add: find_netdev_def Let_def find_netdev_loop_cong [of env' env])

text \<open>The camera after attempts \<open>i\<close> to \<open>i + n\<close>.\<close>

fun attempts_from :: "(nat \<Rightarrow> Env) \<Rightarrow> int \<Rightarrow> u16 \<Rightarrow> nat \<Rightarrow> Camera \<Rightarrow> nat \<Rightarrow> Camera" where
  "attempts_from envs poll_ms port i c 0 = advance_readiness (envs i) c port (min (poll_ms * 4) 500)"
| "attempts_from envs poll_ms port i c (Suc n) =
     attempts_from envs poll_ms port (Suc i) (advance_readiness (envs i) c port (min (poll_ms * 4) 500)) n"

lemma wait_loop_returns:
  assumes "clock (i + n) \<ge> deadline"
  shows "\<exists>j\<le>n. wait_loop envs clock deadline poll_ms port i c = Some (attempts_from envs poll_ms port i c j) \<and>
    (c_readiness (attempts_from envs poll_ms port i c j) = kL3Ready \<or> clock (i + j) \<ge> deadline)"
  using assms
proof (induction n arbitrary: i c)
  case 0
  then show ?case by (subst wait_loop.simps) (simp add: Let_def)
next
  case (Suc n)
  let ?c = "advance_readiness (envs i) c port (min (poll_ms * 4) 500)"
  show ?case
  proof (cases "c_readiness ?c = kL3Ready \<or> clock i \<ge> deadline")
    case True
    then show ?thesis by (intro exI [of _ 0]) (subst wait_loop.simps, auto simp: Let_def)
  next
    case False
    then have w: "wait_loop envs clock deadline poll_ms port i c = wait_loop envs clock deadline poll_ms port (Suc i) ?c"
      by (subst wait_loop.simps) (simp add: Let_def)
    have "clock (Suc i + n) \<ge> deadline" using Suc.prems by simp
    from Suc.IH [OF this, of ?c] obtain j where "j \<le> n"
      "wait_loop envs clock deadline poll_ms port (Suc i) ?c = Some (attempts_from envs poll_ms port (Suc i) ?c j)"
      "c_readiness (attempts_from envs poll_ms port (Suc i) ?c j) = kL3Ready \<or> clock (Suc i + j) \<ge> deadline"
      by blast
    then show ?thesis by (intro exI [of _ "Suc j"]) (simp add: w)
  qed
qed

section \<open>Properties\<close>

text \<open>
  A device name identifies the port: two devices have the same \<open>/sys/bus/usb/devices\<close> name
  exactly when bus and port path are the same, so the arrival cache and the pending list,
  which are keyed by it, never confuse two cameras.
\<close>

lemma sysfs_name_identifies_port:
  "sysfs_name b ps = sysfs_name b' ps' \<longleftrightarrow> b = b' \<and> ps = ps'"
  by (rule sysfs_name_inject)

text \<open>
  The scan misses no interface and invents none: whatever order the directories are listed
  in, a name is returned exactly when some interface directory of the device has a network
  entry, and it is such an entry.
\<close>

lemma find_netdev_exact:
  assumes "\<And>p. '''' \<notin> set (fs_list env p)" "\<And>p. \<not> fs_is_directory env p \<Longrightarrow> fs_list env p = []"
  shows "(find_netdev env s root \<noteq> '''' \<longleftrightarrow>
      (\<exists>name\<in>set (fs_list env (path_join root s)). prefix (s @ '':'') name \<and>
         fs_list env (path_join (path_join (path_join root s) name) ''net'') \<noteq> [])) \<and>
    (find_netdev env s root \<noteq> '''' \<longrightarrow>
      (\<exists>name\<in>set (fs_list env (path_join root s)). prefix (s @ '':'') name \<and>
         find_netdev env s root \<in> set (fs_list env (path_join (path_join (path_join root s) name) ''net''))))"
proof -
  have sound: "\<exists>name\<in>set (fs_list env (path_join root s)). prefix (s @ '':'') name \<and>
      find_netdev env s root \<in> set (fs_list env (path_join (path_join (path_join root s) name) ''net''))"
    if "find_netdev env s root \<noteq> ''''"
    using that find_netdev_loop_sound [OF refl, of env "path_join root s" "s @ '':''" "fs_list env (path_join root s)"]
    by (simp add: find_netdev_def Let_def split: if_splits)
  have "find_netdev env s root \<noteq> ''''"
    if n: "name \<in> set (fs_list env (path_join root s))" "prefix (s @ '':'') name"
      "fs_list env (path_join (path_join (path_join root s) name) ''net'') \<noteq> []" for name
  proof -
    have "fs_is_directory env (path_join root s)" using n(1) assms(2) by (metis empty_iff list.set(1))
    moreover have "fs_is_directory env (path_join (path_join (path_join root s) name) ''net'')" using n(3) assms(2) by blast
    ultimately show ?thesis
      using find_netdev_loop_complete [OF n(1,2) _ n(3) assms(1)] by (simp add: find_netdev_def Let_def)
  qed
  with sound show ?thesis by (metis empty_iff list.set(1))
qed

definition demo_env :: Env where
  "demo_env = \<lparr>fs_is_directory = (\<lambda>p. p \<in> {''/d/2-1'', ''/d/2-1/2-1:1.0/net''}), fs_exists = (\<lambda>p. True),
     fs_list = (\<lambda>p. if p = ''/d/2-1'' then [''power'', ''2-1:1.1'', ''2-1:1.0'']
                    else if p = ''/d/2-1/2-1:1.0/net'' then [''gopro0''] else []),
     fs_read = (\<lambda>p. None), ifaddrs = None, inet_pton_ok = (\<lambda>s. True), socket_ok = True,
     connect_to = (\<lambda>s p. ConnectError), poll_writable = (\<lambda>s p t. False), socket_error = (\<lambda>s p. None)\<rparr>"

text \<open>
  The rename diagnostics mean what they say: after any series of scans of a new camera, the
  name is the last one found, the first-seen name is the first one found, and the renamed
  flag is set exactly when some scan found a name other than the first; a scan that finds
  nothing changes none of them.
\<close>

lemma rename_diagnostics_exact:
  "let c = resolve_all envs (new_camera\<lparr>c_sysfs_name := s\<rparr>) root;
       names = seen (map (\<lambda>env. find_netdev env s root) envs) in
   c_netdev c = (if names = [] then '''' else last names) \<and>
   c_netdev_first_seen c = (if names = [] then '''' else hd names) \<and>
   (c_netdev_renamed c \<longleftrightarrow> \<not> list_all (\<lambda>n. n = hd names) names)"
  using resolve_all_fields [of "new_camera\<lparr>c_sysfs_name := s\<rparr>" _ root envs]
  by (simp add: Let_def new_camera_def)

text \<open>
  C35. A camera is reported ready exactly when the device is there, an interface is bound, the
  host holds an address on it, probing is asked for, an address could be derived and the
  camera answers; and what the kernel says about the link never makes a difference to the
  stage, the interface or the host address.
\<close>

theorem readiness_exactly_on_evidence:
  "(c_readiness (advance_readiness env c port t) = kL3Ready \<longleftrightarrow>
      fs_exists env (path_join sysfs_root (c_sysfs_name c)) \<and>
      c_netdev (resolve_netdev env c sysfs_root) \<noteq> '''' \<and>
      host_ipv4 env (c_netdev (resolve_netdev env c sysfs_root)) \<noteq> '''' \<and>
      port \<noteq> 0 \<and> c_ip c \<noteq> '''' \<and> probe_tcp env (c_ip c) port t) \<and>
   (let c1 = advance_readiness env c port t; c2 = advance_readiness (env\<lparr>fs_read := files\<rparr>) c port t in
    c_readiness c1 = c_readiness c2 \<and> c_netdev c1 = c_netdev c2 \<and> c_host_ip c1 = c_host_ip c2)"
proof
  have r: "resolve_netdev env (c\<lparr>c_readiness := s\<rparr>) root = (resolve_netdev env c root)\<lparr>c_readiness := s\<rparr>" for s root
    by (simp add: resolve_netdev_def Let_def)
  show "c_readiness (advance_readiness env c port t) = kL3Ready \<longleftrightarrow>
      fs_exists env (path_join sysfs_root (c_sysfs_name c)) \<and>
      c_netdev (resolve_netdev env c sysfs_root) \<noteq> '''' \<and>
      host_ipv4 env (c_netdev (resolve_netdev env c sysfs_root)) \<noteq> '''' \<and>
      port \<noteq> 0 \<and> c_ip c \<noteq> '''' \<and> probe_tcp env (c_ip c) port t"
    by (simp add: advance_readiness_def Let_def r)
  have "resolve_netdev (env\<lparr>fs_read := files\<rparr>) c' root = resolve_netdev env c' root" for c' root
    by (rule resolve_netdev_cong) (rule find_netdev_cong; simp)
  moreover have "host_ipv4 (env\<lparr>fs_read := files\<rparr>) n = host_ipv4 env n" for n by (simp add: host_ipv4_def)
  moreover have "probe_tcp (env\<lparr>fs_read := files\<rparr>) i p t = probe_tcp env i p t" for i p by (simp add: probe_tcp_def cong: ConnectResult.case_cong)
  ultimately show "let c1 = advance_readiness env c port t; c2 = advance_readiness (env\<lparr>fs_read := files\<rparr>) c port t in
    c_readiness c1 = c_readiness c2 \<and> c_netdev c1 = c_netdev c2 \<and> c_host_ip c1 = c_host_ip c2"
    by (simp add: advance_readiness_def Let_def)
qed

text \<open>
  C38. Waiting for a camera ends: once the clock has passed the deadline at some attempt, the
  call has returned by that attempt, with the camera as its last attempt left it, either
  ready or past the deadline, however the environment changes between attempts.
\<close>

theorem wait_until_ready_returns:
  assumes "clock n \<ge> start + timeout_ms"
  shows "\<exists>j\<le>n. wait_until_ready envs clock start c timeout_ms poll_ms port =
      Some (attempts_from envs poll_ms port 0 c j) \<and>
    (c_readiness (attempts_from envs poll_ms port 0 c j) = kL3Ready \<or> clock j \<ge> start + timeout_ms)"
  using wait_loop_returns [where i = 0 and n = n and clock = clock and deadline = "start + timeout_ms"] assms
  by (simp add: wait_until_ready_def)

theorem wait_until_ready_returns_witness:
  "int 40 * 50 \<ge> 0 + 2000 \<and>
   (\<exists>j\<le>40. wait_until_ready (\<lambda>i. demo_env) (\<lambda>i. int i * 50) 0 new_camera 2000 50 8080 =
      Some (attempts_from (\<lambda>i. demo_env) 50 8080 0 new_camera j) \<and>
    (c_readiness (attempts_from (\<lambda>i. demo_env) 50 8080 0 new_camera j) = kL3Ready \<or> int j * 50 \<ge> 0 + 2000))"
  using wait_until_ready_returns [where n = 40 and clock = "\<lambda>i. int i * 50" and start = 0 and timeout_ms = 2000]
  by simp

end
