(* ===== verification/Glaze_Meta.thy ===== *)
theory Glaze_Meta
  imports Gp_Prelude "HOL-Library.Monad_Syntax"
begin

text \<open>
  The binary struct encoding: \<open>native/include/glaze_meta.h\<close>. Encoders append to a buffer, so
  each is the bytes it appends; \<open>write_bytes\<close> of an integer copies its memory, which is
  little-endian on the targets. Decoders read at an offset of a raw buffer; a read past the
  end of the buffer, undefined in the source, is \<open>None\<close>. The overloads of \<open>encode_field\<close> and
  \<open>decode_field\<close> are named by their type. A \<open>std::map\<close> is its entries in key order.

  The lemmas give one contract, a locale, for a type's encoder and decoder: what is encoded is
  decoded in place, whatever surrounds it, and the offset returned is just past it. Every
  primitive satisfies it, and containers satisfy it whenever their elements do.
\<close>

section \<open>Characters\<close>

definition byte_of_char :: "char \<Rightarrow> u8" where
  "byte_of_char c = of_nat (of_char c)"

definition char_of_byte :: "u8 \<Rightarrow> char" where
  "char_of_byte b = char_of (unat b)"

lemma char_of_byte_of_char [simp]: "char_of_byte (byte_of_char c) = c"
  by (simp add: char_of_byte_def byte_of_char_def unat_of_nat)

section \<open>Encoding\<close>

definition encode_u8 :: "u8 \<Rightarrow> bytes" where "encode_u8 v = [v]"
definition encode_bool :: "bool \<Rightarrow> bytes" where "encode_bool v = [if v then 1 else 0]"
definition encode_i16 :: "16 word \<Rightarrow> bytes" where "encode_i16 v = le_bytes 2 v"
definition encode_u16 :: "u16 \<Rightarrow> bytes" where "encode_u16 v = le_bytes 2 v"
definition encode_u32 :: "u32 \<Rightarrow> bytes" where "encode_u32 v = le_bytes 4 v"
definition encode_u64 :: "u64 \<Rightarrow> bytes" where "encode_u64 v = le_bytes 8 v"

definition encode_string :: "string \<Rightarrow> bytes" where
  "encode_string s = (let len = of_nat (length s) :: u32 in le_bytes 4 len @ map byte_of_char s)"

definition encode_strings :: "string list \<Rightarrow> bytes" where
  "encode_strings v =
     (let count = of_nat (length v) :: u32 in le_bytes 4 count @ concat (map encode_string v))"

definition encode_blob :: "bytes \<Rightarrow> bytes" where
  "encode_blob v = (let count = of_nat (length v) :: u32 in le_bytes 4 count @ v)"

text \<open>A vector of structs, given the struct's encoder.\<close>

definition encode_structs :: "('a \<Rightarrow> bytes) \<Rightarrow> 'a list \<Rightarrow> bytes" where
  "encode_structs encode_struct v =
     (let count = of_nat (length v) :: u32 in le_bytes 4 count @ concat (map encode_struct v))"

definition encode_map :: "(string \<times> bytes) list \<Rightarrow> bytes" where
  "encode_map m =
     (let count = of_nat (length m) :: u32
      in le_bytes 4 count @ concat (map (\<lambda>(key, val). encode_string key @ encode_blob val) m))"

section \<open>Decoding\<close>

definition read_bytes :: "bytes \<Rightarrow> nat \<Rightarrow> nat \<Rightarrow> (bytes \<times> nat) option" where
  "read_bytes buf off n = (if off + n \<le> length buf then Some (take n (drop off buf), off + n) else None)"

definition decode_u8 :: "bytes \<Rightarrow> nat \<Rightarrow> (u8 \<times> nat) option" where
  "decode_u8 buf off = (if off < length buf then Some (buf ! off, off + 1) else None)"

definition decode_bool :: "bytes \<Rightarrow> nat \<Rightarrow> (bool \<times> nat) option" where
  "decode_bool buf off = (if off < length buf then Some (buf ! off \<noteq> 0, off + 1) else None)"

definition decode_i16 :: "bytes \<Rightarrow> nat \<Rightarrow> (16 word \<times> nat) option" where
  "decode_i16 buf off = do { (bs, off) \<leftarrow> read_bytes buf off 2; Some (le_word bs, off) }"

definition decode_u16 :: "bytes \<Rightarrow> nat \<Rightarrow> (u16 \<times> nat) option" where
  "decode_u16 buf off = do { (bs, off) \<leftarrow> read_bytes buf off 2; Some (le_word bs, off) }"

definition decode_u32 :: "bytes \<Rightarrow> nat \<Rightarrow> (u32 \<times> nat) option" where
  "decode_u32 buf off = do { (bs, off) \<leftarrow> read_bytes buf off 4; Some (le_word bs, off) }"

definition decode_u64 :: "bytes \<Rightarrow> nat \<Rightarrow> (u64 \<times> nat) option" where
  "decode_u64 buf off = do { (bs, off) \<leftarrow> read_bytes buf off 8; Some (le_word bs, off) }"

definition decode_string :: "bytes \<Rightarrow> nat \<Rightarrow> (string \<times> nat) option" where
  "decode_string buf off =
     do { (bs, off) \<leftarrow> read_bytes buf off 4;
          (s, off) \<leftarrow> read_bytes buf off (unat (le_word bs :: u32));
          Some (map char_of_byte s, off) }"

definition decode_blob :: "bytes \<Rightarrow> nat \<Rightarrow> (bytes \<times> nat) option" where
  "decode_blob buf off =
     do { (bs, off) \<leftarrow> read_bytes buf off 4; read_bytes buf off (unat (le_word bs :: u32)) }"

text \<open>The counted loops over a decoder.\<close>

fun decode_n :: "(bytes \<Rightarrow> nat \<Rightarrow> ('a \<times> nat) option) \<Rightarrow> nat \<Rightarrow> bytes \<Rightarrow> nat \<Rightarrow> ('a list \<times> nat) option" where
  "decode_n dec 0 buf off = Some ([], off)"
| "decode_n dec (Suc n) buf off =
     do { (v, off) \<leftarrow> dec buf off; (vs, off) \<leftarrow> decode_n dec n buf off; Some (v # vs, off) }"

definition decode_structs ::
  "(bytes \<Rightarrow> nat \<Rightarrow> ('a \<times> nat) option) \<Rightarrow> bytes \<Rightarrow> nat \<Rightarrow> ('a list \<times> nat) option" where
  "decode_structs dec buf off =
     do { (bs, off) \<leftarrow> read_bytes buf off 4; decode_n dec (unat (le_word bs :: u32)) buf off }"

definition decode_strings :: "bytes \<Rightarrow> nat \<Rightarrow> (string list \<times> nat) option" where
  "decode_strings buf off =
     do { (bs, off) \<leftarrow> read_bytes buf off 4; decode_n decode_string (unat (le_word bs :: u32)) buf off }"

text \<open>\<open>m[key] = val\<close> on a map kept in key order; keys compare as byte strings.\<close>

fun bytes_less :: "bytes \<Rightarrow> bytes \<Rightarrow> bool" where
  "bytes_less xs [] = False"
| "bytes_less [] (y # ys) = True"
| "bytes_less (x # xs) (y # ys) = (x < y \<or> x = y \<and> bytes_less xs ys)"

definition key_less :: "string \<Rightarrow> string \<Rightarrow> bool" where
  "key_less a b = bytes_less (map byte_of_char a) (map byte_of_char b)"

fun map_assign :: "string \<Rightarrow> bytes \<Rightarrow> (string \<times> bytes) list \<Rightarrow> (string \<times> bytes) list" where
  "map_assign key val [] = [(key, val)]"
| "map_assign key val ((k, v) # m) =
     (if key = k then (key, val) # m
      else if key_less key k then (key, val) # (k, v) # m
      else (k, v) # map_assign key val m)"

fun decode_map_n :: "nat \<Rightarrow> bytes \<Rightarrow> nat \<Rightarrow> (string \<times> bytes) list \<Rightarrow> ((string \<times> bytes) list \<times> nat) option" where
  "decode_map_n 0 buf off m = Some (m, off)"
| "decode_map_n (Suc n) buf off m =
     do { (key, off) \<leftarrow> decode_string buf off;
          (val, off) \<leftarrow> decode_blob buf off;
          decode_map_n n buf off (map_assign key val m) }"

definition decode_map :: "bytes \<Rightarrow> nat \<Rightarrow> ((string \<times> bytes) list \<times> nat) option" where
  "decode_map buf off =
     do { (bs, off) \<leftarrow> read_bytes buf off 4; decode_map_n (unat (le_word bs :: u32)) buf off [] }"

section \<open>The contract of a field type\<close>

lemma read_bytes_mid:
  "off = length pre \<Longrightarrow> n = length bs \<Longrightarrow> read_bytes (pre @ bs @ post) off n = Some (bs, off + n)"
  by (simp add: read_bytes_def)

lemma read_prefix:
  assumes "n < 2 ^ 32"
  shows "do { (bs, off) \<leftarrow> read_bytes (pre @ le_bytes 4 (of_nat n :: u32) @ post) (length pre) 4;
              f (unat (le_word bs :: u32)) off } = f n (length pre + 4)"
  using assms read_bytes_mid [of "length pre" pre 4 "le_bytes 4 (of_nat n :: u32)" post]
  by (simp add: le_word_le_bytes_full unat_of_nat)

locale field_codec =
  fixes enc :: "'a \<Rightarrow> bytes"
    and dec :: "bytes \<Rightarrow> nat \<Rightarrow> ('a \<times> nat) option"
    and ok :: "'a \<Rightarrow> bool"
  assumes decode_encode:
    "ok v \<Longrightarrow> off = length pre \<Longrightarrow> dec (pre @ enc v @ post) off = Some (v, off + length (enc v))"
begin

lemma decode_n_encode:
  "list_all ok vs \<Longrightarrow>
   decode_n dec (length vs) (pre @ concat (map enc vs) @ post) (length pre) =
     Some (vs, length pre + length (concat (map enc vs)))"
proof (induction vs arbitrary: pre)
  case (Cons v vs)
  have "dec (pre @ enc v @ concat (map enc vs) @ post) (length pre) = Some (v, length pre + length (enc v))"
    using Cons.prems by (intro decode_encode) simp_all
  moreover have "decode_n dec (length vs) ((pre @ enc v) @ concat (map enc vs) @ post) (length (pre @ enc v)) =
      Some (vs, length (pre @ enc v) + length (concat (map enc vs)))"
    using Cons.prems by (intro Cons.IH) simp
  ultimately show ?case by (simp add: add.assoc)
qed simp

lemma decode_structs_encode:
  assumes "list_all ok vs" "length vs < 2 ^ 32" "off = length pre"
  shows "decode_structs dec (pre @ encode_structs enc vs @ post) off = Some (vs, off + length (encode_structs enc vs))"
proof -
  let ?p = "le_bytes 4 (of_nat (length vs) :: u32)"
  have "decode_n dec (length vs) ((pre @ ?p) @ concat (map enc vs) @ post) (length (pre @ ?p)) =
      Some (vs, length (pre @ ?p) + length (concat (map enc vs)))"
    by (rule decode_n_encode [OF assms(1)])
  then show ?thesis
    using read_prefix [OF assms(2), of pre "concat (map enc vs) @ post" "\<lambda>n off. decode_n dec n _ off"]
    by (simp add: decode_structs_def encode_structs_def Let_def assms(3) add.assoc)
qed

end

interpretation u8_codec: field_codec encode_u8 decode_u8 "\<lambda>v. True"
  by unfold_locales (simp add: encode_u8_def decode_u8_def nth_append)

interpretation bool_codec: field_codec encode_bool decode_bool "\<lambda>v. True"
  by unfold_locales (simp add: encode_bool_def decode_bool_def nth_append)

interpretation i16_codec: field_codec encode_i16 decode_i16 "\<lambda>v. True"
  by unfold_locales (simp add: encode_i16_def decode_i16_def read_bytes_mid le_word_le_bytes_full)

interpretation u16_codec: field_codec encode_u16 decode_u16 "\<lambda>v. True"
  by unfold_locales (simp add: encode_u16_def decode_u16_def read_bytes_mid le_word_le_bytes_full)

interpretation u32_codec: field_codec encode_u32 decode_u32 "\<lambda>v. True"
  by unfold_locales (simp add: encode_u32_def decode_u32_def read_bytes_mid le_word_le_bytes_full)

interpretation u64_codec: field_codec encode_u64 decode_u64 "\<lambda>v. True"
  by unfold_locales (simp add: encode_u64_def decode_u64_def read_bytes_mid le_word_le_bytes_full)

interpretation blob_codec: field_codec encode_blob decode_blob "\<lambda>v. length v < 2 ^ 32"
proof unfold_locales
  fix v :: bytes and pre post off
  assume "length v < 2 ^ 32" "off = length (pre :: bytes)"
  then show "decode_blob (pre @ encode_blob v @ post) off = Some (v, off + length (encode_blob v))"
    using read_prefix [of "length v" pre "v @ post" "\<lambda>n off. read_bytes _ off n"]
      read_bytes_mid [of "length pre + 4" "pre @ le_bytes 4 (of_nat (length v) :: u32)" "length v" v post]
    by (simp add: decode_blob_def encode_blob_def Let_def)
qed

interpretation string_codec: field_codec encode_string decode_string "\<lambda>s. length s < 2 ^ 32"
proof unfold_locales
  fix s :: string and pre post off
  assume s: "length s < 2 ^ 32" and off: "off = length (pre :: bytes)"
  let ?p = "le_bytes 4 (of_nat (length s) :: u32)"
  let ?buf = "pre @ ?p @ map byte_of_char s @ post"
  have 1: "read_bytes ?buf (length pre) 4 = Some (?p, length pre + 4)"
    by (rule read_bytes_mid) simp_all
  have 2: "read_bytes ((pre @ ?p) @ map byte_of_char s @ post) (length pre + 4) (length s) =
      Some (map byte_of_char s, length pre + 4 + length s)"
    by (rule read_bytes_mid) simp_all
  have 3: "unat (le_word ?p :: u32) = length s"
    using s by (simp add: le_word_le_bytes_full unat_of_nat)
  have "decode_string ?buf (length pre) = Some (s, length pre + 4 + length s)"
    using 2 by (simp add: decode_string_def 1 3 comp_def)
  then show "decode_string (pre @ encode_string s @ post) off = Some (s, off + length (encode_string s))"
    by (simp add: encode_string_def Let_def off add.assoc)
qed

lemma encode_strings_structs: "encode_strings = encode_structs encode_string"
  "decode_strings = decode_structs decode_string"
  by (simp_all add: fun_eq_iff encode_strings_def encode_structs_def decode_strings_def decode_structs_def)

interpretation strings_codec: field_codec encode_strings decode_strings
  "\<lambda>v. list_all (\<lambda>s. length s < 2 ^ 32) v \<and> length v < 2 ^ 32"
  by unfold_locales (simp only: encode_strings_structs string_codec.decode_structs_encode)

section \<open>Maps\<close>

text \<open>Assigning keys in increasing order appends.\<close>

lemma bytes_less_trans: "bytes_less a b \<Longrightarrow> bytes_less b c \<Longrightarrow> bytes_less a c"
proof (induction a b arbitrary: c rule: bytes_less.induct)
  case (2 y ys)
  then show ?case by (cases c) auto
next
  case (3 x xs y ys)
  then show ?case by (cases c) auto
qed simp

lemma bytes_less_irrefl: "\<not> bytes_less a a"
  by (induction a) auto

lemma key_less_trans: "key_less a b \<Longrightarrow> key_less b c \<Longrightarrow> key_less a c"
  using bytes_less_trans by (auto simp: key_less_def)

lemma key_less_asym: "key_less a b \<Longrightarrow> a \<noteq> b \<and> \<not> key_less b a"
  using key_less_trans [of a b a] bytes_less_irrefl by (auto simp: key_less_def)

lemma map_assign_append: "list_all (\<lambda>(k, v). key_less k key) m \<Longrightarrow> map_assign key val m = m @ [(key, val)]"
  by (induction m) (auto dest: key_less_asym)

definition map_ok :: "(string \<times> bytes) list \<Rightarrow> bool" where
  "map_ok m \<longleftrightarrow> sorted_wrt key_less (map fst m) \<and> length m < 2 ^ 32 \<and>
     list_all (\<lambda>(k, v). length k < 2 ^ 32 \<and> length v < 2 ^ 32) m"

lemma decode_map_n_encode:
  assumes "sorted_wrt key_less (map fst (acc @ m))"
    and "list_all (\<lambda>(k, v). length k < 2 ^ 32 \<and> length v < 2 ^ 32) m"
  shows "decode_map_n (length m) (pre @ concat (map (\<lambda>(k, v). encode_string k @ encode_blob v) m) @ post) (length pre) acc =
    Some (acc @ m, length pre + length (concat (map (\<lambda>(k, v). encode_string k @ encode_blob v) m)))"
  using assms
proof (induction m arbitrary: acc pre)
  case (Cons kv m)
  obtain k v where kv: "kv = (k, v)" by (cases kv)
  let ?rest = "concat (map (\<lambda>(k, v). encode_string k @ encode_blob v) m) @ post"
  have "decode_string (pre @ encode_string k @ (encode_blob v @ ?rest)) (length pre) =
      Some (k, length pre + length (encode_string k))"
    using Cons.prems(2) kv by (intro string_codec.decode_encode) simp_all
  moreover have "decode_blob ((pre @ encode_string k) @ encode_blob v @ ?rest) (length pre + length (encode_string k)) =
      Some (v, length pre + length (encode_string k) + length (encode_blob v))"
    using Cons.prems(2) kv by (intro blob_codec.decode_encode) simp_all
  moreover have "map_assign k v acc = acc @ [(k, v)]"
    using Cons.prems(1) kv by (intro map_assign_append) (auto simp: sorted_wrt_append list_all_iff)
  moreover have "decode_map_n (length m) ((pre @ encode_string k @ encode_blob v) @ ?rest)
      (length (pre @ encode_string k @ encode_blob v)) (acc @ [(k, v)]) =
      Some ((acc @ [(k, v)]) @ m, length (pre @ encode_string k @ encode_blob v) +
        length (concat (map (\<lambda>(k, v). encode_string k @ encode_blob v) m)))"
    using Cons.prems kv by (intro Cons.IH) simp_all
  ultimately show ?case by (simp add: kv add.assoc)
qed simp

interpretation map_codec: field_codec encode_map decode_map map_ok
proof unfold_locales
  fix m :: "(string \<times> bytes) list" and pre post off
  assume m: "map_ok m" and off: "off = length (pre :: bytes)"
  let ?p = "le_bytes 4 (of_nat (length m) :: u32)"
  let ?es = "concat (map (\<lambda>(k, v). encode_string k @ encode_blob v) m)"
  have "decode_map_n (length m) ((pre @ ?p) @ ?es @ post) (length (pre @ ?p)) [] =
      Some ([] @ m, length (pre @ ?p) + length ?es)"
    using m by (intro decode_map_n_encode) (simp_all add: map_ok_def)
  moreover have "length m < 2 ^ 32" using m by (simp add: map_ok_def)
  ultimately show "decode_map (pre @ encode_map m @ post) off = Some (m, off + length (encode_map m))"
    using read_prefix [of "length m" pre "?es @ post" "\<lambda>n off. decode_map_n n _ off []"]
    by (simp add: decode_map_def encode_map_def Let_def off add.assoc)
qed

end
