(* ===== verification/Usb_Discovery.thy ===== *)
theory Usb_Discovery
  imports Gopro_Usb Glaze_Meta "HOL-Library.Signed_Division"
begin

text \<open>
  The \<open>Discovery\<close> class of \<open>native/src/gopro_usb.cpp\<close>: building a camera from a libusb device,
  enumerating, and the hotplug callback with its arrival cache. A libusb device is what libusb
  answers about it; the hotplug registration's result and capability are arguments. The order
  in which libusb delivers events is the order of the event list.

  The lemmas show that a departure event recalls exactly what the arrival recorded, and that
  neither building nor enumerating ever claims a camera is ready.
\<close>

section \<open>Devices\<close>

record UsbDescriptor =
  idVendor :: u16
  idProduct :: u16
  iSerialNumber :: u8

text \<open>
  A device: its descriptor if it can be read, its place on the bus, the interface classes of
  the active configuration (by interface, then alternate setting) if it can be read, and the
  serial string descriptor if \<open>libusb_open\<close> succeeds and the descriptor is not empty.
\<close>

record UsbDevice =
  dev_descriptor :: "UsbDescriptor option"
  dev_bus :: u8
  dev_address :: u8
  dev_ports :: "bytes option"
  dev_interfaces :: "bytes list option"
  dev_serial :: "string option"

definition build_identity :: "UsbDevice \<Rightarrow> Camera" where
  "build_identity dev =
     (let c = new_camera;
          c = (case dev_descriptor dev of
                 None \<Rightarrow> c | Some desc \<Rightarrow> c\<lparr>c_vid := idVendor desc, c_pid := idProduct desc\<rparr>);
          c = c\<lparr>c_bus := dev_bus dev, c_address := dev_address dev\<rparr>;
          c = (case dev_ports dev of None \<Rightarrow> c | Some ports \<Rightarrow> c\<lparr>c_ports := take 8 ports\<rparr>)
      in c\<lparr>c_sysfs_name := sysfs_name (c_bus c) (c_ports c)\<rparr>)"

definition build :: "Env \<Rightarrow> UsbDevice \<Rightarrow> bool \<Rightarrow> Camera" where
  "build env dev readable =
     (let c = build_identity dev in
      if \<not> readable then c
      else
        (let c = (case dev_interfaces dev of
                    None \<Rightarrow> c
                  | Some itfs \<Rightarrow> if list_ex (list_ex is_cdc_class) itfs then c\<lparr>c_has_cdc_interface := True\<rparr> else c);
             iserial = (case dev_descriptor dev of None \<Rightarrow> 0 | Some desc \<Rightarrow> iSerialNumber desc);
             c = (if iserial \<noteq> 0 then
                    (case dev_serial dev of
                       None \<Rightarrow> c
                     | Some s \<Rightarrow> if s \<noteq> '''' then c\<lparr>c_serial := s, c_serial_source := kDescriptor\<rparr> else c)
                  else c);
             c = (if c_serial c = '''' then
                    (let s = read_sysfs_line env (path_join (path_join sysfs_root (c_sysfs_name c)) ''serial'')
                     in if s \<noteq> '''' then c\<lparr>c_serial := s, c_serial_source := kSysfs\<rparr> else c)
                  else c);
             c = (case derive_ip (c_serial c) of None \<Rightarrow> c | Some ip \<Rightarrow> c\<lparr>c_ip := ip\<rparr>)
         in advance_readiness env c 0 500))"

section \<open>Discovery\<close>

record Discovery =
  di_vid :: u16
  di_watching :: bool
  di_has_cb :: bool
  di_cache :: "string \<rightharpoonup> Camera"

definition discovery_create :: "u16 \<Rightarrow> bool \<Rightarrow> Discovery option" where
  "discovery_create vid libusb_init_ok =
     (if \<not> libusb_init_ok then None
      else Some \<lparr>di_vid = vid, di_watching = False, di_has_cb = False, di_cache = (\<lambda>s. None)\<rparr>)"

text \<open>The device list; a device whose descriptor cannot be read is skipped.\<close>

fun enumerate_loop :: "Env \<Rightarrow> UsbDevice list \<Rightarrow> Discovery \<Rightarrow> Discovery \<times> Camera list" where
  "enumerate_loop env [] d = (d, [])"
| "enumerate_loop env (dev # devs) d =
     (case dev_descriptor dev of
        None \<Rightarrow> enumerate_loop env devs d
      | Some desc \<Rightarrow>
          (if idVendor desc \<noteq> di_vid d then enumerate_loop env devs d
           else
             (let c = build env dev True;
                  (d, cs) = enumerate_loop env devs (d\<lparr>di_cache := (di_cache d)(c_sysfs_name c \<mapsto> c)\<rparr>)
              in (d, c # cs))))"

definition discovery_enumerate :: "Env \<Rightarrow> UsbDevice list option \<Rightarrow> Discovery \<Rightarrow> Discovery \<times> Camera list" where
  "discovery_enumerate env devices d = (case devices of None \<Rightarrow> (d, []) | Some devs \<Rightarrow> enumerate_loop env devs d)"

text \<open>What a departure recovers from the arrival cache.\<close>

definition recall :: "Camera \<Rightarrow> Camera \<Rightarrow> Camera" where
  "recall prev c = c\<lparr>c_vid := c_vid prev, c_pid := c_pid prev, c_serial := c_serial prev,
     c_serial_source := c_serial_source prev, c_ip := c_ip prev, c_netdev := c_netdev prev,
     c_has_cdc_interface := c_has_cdc_interface prev\<rparr>"

text \<open>The hotplug callback: the new state, and the call of the client's callback if there is one.\<close>

definition trampoline :: "Env \<Rightarrow> UsbDevice \<Rightarrow> bool \<Rightarrow> Discovery \<Rightarrow> Discovery \<times> (Camera \<times> bool) list" where
  "trampoline env dev arrived d =
     (let c = build env dev arrived;
          (c, cache) =
            (if arrived then (c, (di_cache d)(c_sysfs_name c \<mapsto> c))
             else case di_cache d (c_sysfs_name c) of
                    None \<Rightarrow> (c, di_cache d)
                  | Some prev \<Rightarrow> (recall prev c, (di_cache d)(c_sysfs_name c := None)))
      in (d\<lparr>di_cache := cache\<rparr>, if di_has_cb d then [(c, arrived)] else []))"

definition hotplug_supported :: "nat \<Rightarrow> bool" where
  "hotplug_supported capability = (capability \<noteq> 0)"

definition discovery_watch :: "nat \<Rightarrow> int \<Rightarrow> Discovery \<Rightarrow> Discovery \<times> bool" where
  "discovery_watch capability register_result d =
     (if \<not> hotplug_supported capability then (d, False)
      else
        (let d = d\<lparr>di_has_cb := True\<rparr> in
         if register_result \<noteq> 0 then (d, False) else (d\<lparr>di_watching := True\<rparr>, True)))"

text \<open>What the destructor asks of libusb; the context is never null once \<open>create\<close> has returned.\<close>

datatype LibusbCall = DeregisterCallback | ExitContext

definition discovery_destroy :: "Discovery \<Rightarrow> LibusbCall list" where
  "discovery_destroy d = (if di_watching d then [DeregisterCallback] else []) @ [ExitContext]"

text \<open>The timeout \<open>pump\<close> passes to libusb, in seconds and microseconds.\<close>

definition pump_timeval :: "int \<Rightarrow> int \<times> int" where
  "pump_timeval timeout_ms = (timeout_ms sdiv 1000, (timeout_ms smod 1000) * 1000)"

lemma destroy_deregisters:
  "discovery_create vid True = Some d0 \<Longrightarrow> discovery_watch capability r d0 = (d, ok) \<Longrightarrow>
   discovery_destroy d = (if ok then [DeregisterCallback, ExitContext] else [ExitContext])"
  by (auto simp: discovery_create_def discovery_watch_def discovery_destroy_def Let_def split: if_splits)

section \<open>Building\<close>

lemma advance_readiness_frame [simp]:
  "c_vid (advance_readiness env c p t) = c_vid c" "c_pid (advance_readiness env c p t) = c_pid c"
  "c_sysfs_name (advance_readiness env c p t) = c_sysfs_name c" "c_serial (advance_readiness env c p t) = c_serial c"
  "c_serial_source (advance_readiness env c p t) = c_serial_source c" "c_ip (advance_readiness env c p t) = c_ip c"
  "c_has_cdc_interface (advance_readiness env c p t) = c_has_cdc_interface c"
  by (simp_all add: advance_readiness_def resolve_netdev_def Let_def)

lemma advance_no_probe: "c_readiness (advance_readiness env c 0 t) \<noteq> kL3Ready"
  by (simp add: advance_readiness_def Let_def)

definition device_name :: "UsbDevice \<Rightarrow> string" where
  "device_name dev = sysfs_name (dev_bus dev) (case dev_ports dev of None \<Rightarrow> [] | Some ports \<Rightarrow> take 8 ports)"

lemma build_identity_name [simp]: "c_sysfs_name (build_identity dev) = device_name dev"
  by (simp add: build_identity_def device_name_def Let_def new_camera_def split: option.splits)

lemma build_name [simp]: "c_sysfs_name (build env dev readable) = device_name dev"
  by (simp add: build_def Let_def split: option.splits)

lemma build_not_ready: "c_readiness (build env dev readable) \<noteq> kL3Ready"
proof (cases readable)
  case False
  then show ?thesis
    by (simp add: build_def build_identity_def Let_def new_camera_def split: option.splits)
next
  case True
  then show ?thesis by (simp add: build_def Let_def advance_no_probe)
qed

lemma enumerate_loop_not_ready:
  "\<forall>c\<in>set (snd (enumerate_loop env devs d)). c_readiness c \<noteq> kL3Ready"
  by (induction env devs d rule: enumerate_loop.induct)
     (auto simp: Let_def build_not_ready split: option.splits prod.splits)

lemma enumerate_never_ready:
  "\<forall>c\<in>set (snd (discovery_enumerate env devices d)). c_readiness c \<noteq> kL3Ready"
  using enumerate_loop_not_ready by (simp add: discovery_enumerate_def split: option.splits)

section \<open>The arrival cache\<close>

datatype HotplugEvent = Hotplug Env UsbDevice bool

fun hotplug_step :: "Discovery \<Rightarrow> HotplugEvent \<Rightarrow> Discovery \<times> (Camera \<times> bool) list" where
  "hotplug_step d (Hotplug env dev arrived) = trampoline env dev arrived d"

fun event_name :: "HotplugEvent \<Rightarrow> string" where
  "event_name (Hotplug env dev arrived) = device_name dev"

lemma recall_name [simp]: "c_sysfs_name (recall prev c) = c_sysfs_name c"
  by (simp add: recall_def)

lemma hotplug_step_frame:
  "event_name e \<noteq> n \<Longrightarrow> di_cache (fst (hotplug_step d e)) n = di_cache d n"
  "di_has_cb (fst (hotplug_step d e)) = di_has_cb d"
  by (cases e; auto simp: trampoline_def Let_def split: option.splits prod.splits)+

lemma run_hotplug_frame:
  "list_all (\<lambda>e. event_name e \<noteq> n) es \<Longrightarrow> di_cache (fst (run hotplug_step d es)) n = di_cache d n"
  "di_has_cb (fst (run hotplug_step d es)) = di_has_cb d"
proof -
  show "di_cache (fst (run hotplug_step d es)) n = di_cache d n" if "list_all (\<lambda>e. event_name e \<noteq> n) es"
    using that
  proof (induction es arbitrary: d)
    case (Cons e es)
    then show ?case using hotplug_step_frame(1) [of e n d] by (simp add: Let_def split_beta)
  qed simp
  show "di_has_cb (fst (run hotplug_step d es)) = di_has_cb d"
    by (rule run_invariant [where I = "\<lambda>s. di_has_cb s = di_has_cb d"]) (simp_all add: hotplug_step_frame(2))
qed

section \<open>Properties\<close>

text \<open>
  A departure recalls the arrival: when a device arrives and later leaves, with any events
  of other ports in between, the camera reported as gone has the vendor and product, serial
  and its source, derived address, interface name and network class that the arrival recorded,
  although the device can no longer be read, and the cache has forgotten the port afterwards.
\<close>

lemma departure_recalls_arrival:
  assumes "di_has_cb d" "device_name gone = device_name dev"
    and "list_all (\<lambda>e. event_name e \<noteq> device_name dev) es"
  shows "let d1 = fst (run hotplug_step d (Hotplug env dev True # es)); c = build env dev True;
             (d2, calls) = trampoline env' gone False d1 in
    calls = [(recall c (build_identity gone), False)] \<and> di_cache d2 (device_name dev) = None"
proof -
  let ?d0 = "fst (hotplug_step d (Hotplug env dev True))"
  have d1: "fst (run hotplug_step d (Hotplug env dev True # es)) = fst (run hotplug_step ?d0 es)"
    by (simp add: Let_def split_beta)
  have "di_cache ?d0 (device_name dev) = Some (build env dev True)" by (simp add: trampoline_def Let_def)
  then have "di_cache (fst (run hotplug_step ?d0 es)) (device_name dev) = Some (build env dev True)"
    by (simp only: run_hotplug_frame(1) [OF assms(3)])
  moreover have "di_has_cb (fst (run hotplug_step ?d0 es))"
    using assms(1) by (simp only: run_hotplug_frame(2) hotplug_step_frame(2))
  moreover have "build env' gone False = build_identity gone" by (simp add: build_def)
  ultimately show ?thesis using assms(2)
    by (simp only: d1 Let_def trampoline_def) (simp add: split_beta)
qed

definition demo_device :: UsbDevice where
  "demo_device = \<lparr>dev_descriptor = Some \<lparr>idVendor = kGoProVid, idProduct = 0x59, iSerialNumber = 3\<rparr>,
     dev_bus = 2, dev_address = 7, dev_ports = Some [1], dev_interfaces = Some [[2], [10]],
     dev_serial = Some ''C3461324500123''\<rparr>"

end
