(* ===== verification/Gopro_Types.thy ===== *)
theory Gopro_Types
  imports Glaze_Meta
begin

text \<open>
  The event payload record and its field list, \<open>native/include/gopro_types.h\<close>, and the Dart
  reader of the same bytes, \<open>lib/src/ffi/codec.dart\<close>. The fold over \<open>glz::meta\<close>'s field tuple
  is the sequence of field codecs in declaration order. In Dart a read past the end raises a
  \<open>RangeError\<close> and a string length past the end a \<open>StateError\<close>; \<open>utf8.decode\<close> is a parameter.

  The lemmas show that both readers give back the record that was encoded, and that the native
  and the Dart reader agree.
\<close>

section \<open>The record\<close>

datatype EventKind = kSentinel | kUpdate | kLeft

fun event_kind_value :: "EventKind \<Rightarrow> u8" where
  "event_kind_value kSentinel = 0x00" | "event_kind_value kUpdate = 0x01" | "event_kind_value kLeft = 0x02"

record CameraRecord =
  r_vid :: u16
  r_pid :: u16
  r_bus :: u8
  r_address :: u8
  r_sysfsName :: string
  r_serial :: string
  r_serialSource :: u8
  r_ip :: string
  r_netdev :: string
  r_netdevFirstSeen :: string
  r_netdevRenamed :: bool
  r_linkState :: string
  r_hostIp :: string
  r_readiness :: u8
  r_hasCdc :: bool
  r_elapsedMs :: u32

text \<open>\<open>glz::encode\<close> and \<open>glz::decode\<close> at this type: each field in declaration order.\<close>

definition encode_camera :: "CameraRecord \<Rightarrow> bytes" where
  "encode_camera r =
     encode_u16 (r_vid r) @ encode_u16 (r_pid r) @ encode_u8 (r_bus r) @ encode_u8 (r_address r) @
     encode_string (r_sysfsName r) @ encode_string (r_serial r) @ encode_u8 (r_serialSource r) @
     encode_string (r_ip r) @ encode_string (r_netdev r) @ encode_string (r_netdevFirstSeen r) @
     encode_bool (r_netdevRenamed r) @ encode_string (r_linkState r) @ encode_string (r_hostIp r) @
     encode_u8 (r_readiness r) @ encode_bool (r_hasCdc r) @ encode_u32 (r_elapsedMs r)"

definition decode_camera :: "bytes \<Rightarrow> nat \<Rightarrow> (CameraRecord \<times> nat) option" where
  "decode_camera buf off =
     do { (vid, off) \<leftarrow> decode_u16 buf off;
          (pid, off) \<leftarrow> decode_u16 buf off;
          (bus, off) \<leftarrow> decode_u8 buf off;
          (address, off) \<leftarrow> decode_u8 buf off;
          (sysfsName, off) \<leftarrow> decode_string buf off;
          (serial, off) \<leftarrow> decode_string buf off;
          (serialSource, off) \<leftarrow> decode_u8 buf off;
          (ip, off) \<leftarrow> decode_string buf off;
          (netdev, off) \<leftarrow> decode_string buf off;
          (netdevFirstSeen, off) \<leftarrow> decode_string buf off;
          (netdevRenamed, off) \<leftarrow> decode_bool buf off;
          (linkState, off) \<leftarrow> decode_string buf off;
          (hostIp, off) \<leftarrow> decode_string buf off;
          (readiness, off) \<leftarrow> decode_u8 buf off;
          (hasCdc, off) \<leftarrow> decode_bool buf off;
          (elapsedMs, off) \<leftarrow> decode_u32 buf off;
          Some (\<lparr>r_vid = vid, r_pid = pid, r_bus = bus, r_address = address, r_sysfsName = sysfsName,
                 r_serial = serial, r_serialSource = serialSource, r_ip = ip, r_netdev = netdev,
                 r_netdevFirstSeen = netdevFirstSeen, r_netdevRenamed = netdevRenamed,
                 r_linkState = linkState, r_hostIp = hostIp, r_readiness = readiness,
                 r_hasCdc = hasCdc, r_elapsedMs = elapsedMs\<rparr>, off) }"

section \<open>The Dart reader\<close>

datatype ReadError = RangeError | StateError

type_synonym 'a reader = "bytes \<Rightarrow> nat \<Rightarrow> ReadError + 'a \<times> nat"

definition read_bind :: "'a reader \<Rightarrow> ('a \<Rightarrow> 'b reader) \<Rightarrow> 'b reader" where
  "read_bind r f data off = (case r data off of Inl e \<Rightarrow> Inl e | Inr (v, off) \<Rightarrow> f v data off)"

definition readUint8 :: "u8 reader" where
  "readUint8 data off = (if off < length data then Inr (data ! off, off + 1) else Inl RangeError)"

definition readBool :: "bool reader" where
  "readBool data off = (if off < length data then Inr (data ! off \<noteq> 0, off + 1) else Inl RangeError)"

text \<open>\<open>ByteData.getUint16\<close> and \<open>getUint32\<close>, little-endian.\<close>

definition readUint16 :: "u16 reader" where
  "readUint16 data off =
     (if off + 2 \<le> length data then Inr (le_word (take 2 (drop off data)), off + 2) else Inl RangeError)"

definition readUint32 :: "u32 reader" where
  "readUint32 data off =
     (if off + 4 \<le> length data then Inr (le_word (take 4 (drop off data)), off + 4) else Inl RangeError)"

definition readString :: "(bytes \<Rightarrow> 's) \<Rightarrow> 's \<Rightarrow> 's reader" where
  "readString utf8 nostr =
     read_bind readUint32 (\<lambda>len data off.
       if len = 0 then Inr (nostr, off)
       else if off + unat len > length data then Inl StateError
       else Inr (utf8 (take (unat len) (drop off data)), off + unat len))"

datatype DartSerialSource = ssNone | ssDescriptor | ssSysfs

definition SerialSource_values :: "DartSerialSource list" where
  "SerialSource_values = [ssNone, ssDescriptor, ssSysfs]"

datatype DartReadiness = rAbsent | rUsbPresent | rNetdevBound | rHostAddressed | rL3Ready

definition Readiness_values :: "DartReadiness list" where
  "Readiness_values = [rAbsent, rUsbPresent, rNetdevBound, rHostAddressed, rL3Ready]"

definition dart_serialSource :: "u8 \<Rightarrow> DartSerialSource" where
  "dart_serialSource v =
     (if unat v < length SerialSource_values then SerialSource_values ! unat v else ssNone)"

definition dart_readiness :: "u8 \<Rightarrow> DartReadiness" where
  "dart_readiness v = (if unat v < length Readiness_values then Readiness_values ! unat v else rAbsent)"

record 's GoProCamera =
  d_vid :: u16
  d_pid :: u16
  d_bus :: u8
  d_address :: u8
  d_sysfsName :: 's
  d_serial :: 's
  d_serialSource :: DartSerialSource
  d_ip :: 's
  d_netdev :: 's
  d_netdevFirstSeen :: 's
  d_netdevRenamed :: bool
  d_linkState :: 's
  d_hostIp :: 's
  d_readiness :: DartReadiness
  d_hasCdc :: bool
  d_elapsed_ms :: u32

definition readCamera :: "(bytes \<Rightarrow> 's) \<Rightarrow> 's \<Rightarrow> 's GoProCamera reader" where
  "readCamera utf8 nostr =
     read_bind readUint16 (\<lambda>vid. read_bind readUint16 (\<lambda>pid.
     read_bind readUint8 (\<lambda>bus. read_bind readUint8 (\<lambda>address.
     read_bind (readString utf8 nostr) (\<lambda>sysfsName. read_bind (readString utf8 nostr) (\<lambda>serial.
     read_bind readUint8 (\<lambda>serialSource. read_bind (readString utf8 nostr) (\<lambda>ip.
     read_bind (readString utf8 nostr) (\<lambda>netdev. read_bind (readString utf8 nostr) (\<lambda>netdevFirstSeen.
     read_bind readBool (\<lambda>netdevRenamed. read_bind (readString utf8 nostr) (\<lambda>linkState.
     read_bind (readString utf8 nostr) (\<lambda>hostIp. read_bind readUint8 (\<lambda>readiness.
     read_bind readBool (\<lambda>hasCdc. read_bind readUint32 (\<lambda>elapsed data off.
       Inr (\<lparr>d_vid = vid, d_pid = pid, d_bus = bus, d_address = address, d_sysfsName = sysfsName,
             d_serial = serial, d_serialSource = dart_serialSource serialSource, d_ip = ip,
             d_netdev = netdev, d_netdevFirstSeen = netdevFirstSeen, d_netdevRenamed = netdevRenamed,
             d_linkState = linkState, d_hostIp = hostIp, d_readiness = dart_readiness readiness,
             d_hasCdc = hasCdc, d_elapsed_ms = elapsed\<rparr>, off)))))))))))))))))"

definition event_kind_from_byte :: "u8 \<Rightarrow> EventKind option" where
  "event_kind_from_byte b = List.find (\<lambda>k. event_kind_value k = b) [kSentinel, kUpdate, kLeft]"

text \<open>\<open>decodeEvent\<close>: no event, the kind with its camera, or the error that was thrown.\<close>

definition decodeEvent ::
  "(bytes \<Rightarrow> 's) \<Rightarrow> 's \<Rightarrow> bytes \<Rightarrow> ReadError + (EventKind \<times> 's GoProCamera option) option" where
  "decodeEvent utf8 nostr data =
     (if data = [] then Inr None
      else case event_kind_from_byte (data ! 0) of
             None \<Rightarrow> Inr None
           | Some kind \<Rightarrow>
               (if kind = kSentinel then Inr (Some (kSentinel, None))
                else case readCamera utf8 nostr data 1 of
                       Inl e \<Rightarrow> Inl e
                     | Inr (camera, _) \<Rightarrow> Inr (Some (kind, Some camera))))"

section \<open>Reading in place\<close>

text \<open>What is left of a buffer at an offset.\<close>

definition at :: "bytes \<Rightarrow> nat \<Rightarrow> bytes \<Rightarrow> bool" where
  "at buf off rest \<longleftrightarrow> off \<le> length buf \<and> drop off buf = rest"

lemma at_split: "at buf off (xs @ rest) \<Longrightarrow> buf = take off buf @ xs @ rest \<and> length (take off buf) = off"
  by (metis append_take_drop_id at_def length_take min.absorb2)

lemma at_advance: "at buf off (xs @ rest) \<Longrightarrow> at buf (off + length xs) rest"
proof -
  assume a: "at buf off (xs @ rest)"
  then have "length buf - off = length xs + length rest" by (metis at_def length_append length_drop)
  moreover have "drop (off + length xs) buf = drop (length xs) (drop off buf)" by (simp add: add.commute)
  then have "drop (off + length xs) buf = rest" using a by (simp only: at_def append_eq_conv_conj drop_append) simp
  moreover have "off \<le> length buf" using a by (simp add: at_def)
  ultimately show ?thesis by (auto simp: at_def)
qed

text \<open>A decoder returns a value and stops where a given rest begins.\<close>

definition yields :: "bytes \<Rightarrow> 'a \<Rightarrow> bytes \<Rightarrow> ('a \<times> nat) option \<Rightarrow> bool" where
  "yields buf v rest res \<longleftrightarrow> (\<exists>off. res = Some (v, off) \<and> at buf off rest)"

context field_codec
begin

lemma decode_at:
  assumes "at buf off (enc v @ rest)" "ok v"
  shows "dec buf off = Some (v, off + length (enc v))"
proof -
  have "dec (take off buf @ enc v @ rest) off = Some (v, off + length (enc v))"
    using at_split [OF assms(1)] assms(2) by (intro decode_encode) simp_all
  then show ?thesis using at_split [OF assms(1)] by simp
qed

lemma step:
  assumes "at buf off (enc v @ rest)" "ok v"
    and "\<And>off. at buf off rest \<Longrightarrow> yields buf w post (f v off)"
  shows "yields buf w post (dec buf off \<bind> (\<lambda>(x, off). f x off))"
  using decode_at [OF assms(1,2)] assms(3) [OF at_advance [OF assms(1)]] by simp

end

definition camera_ok :: "CameraRecord \<Rightarrow> bool" where
  "camera_ok r \<longleftrightarrow> list_all (\<lambda>s. length s < 2 ^ 32)
     [r_sysfsName r, r_serial r, r_ip r, r_netdev r, r_netdevFirstSeen r, r_linkState r, r_hostIp r]"

lemma decode_camera_yields:
  assumes "camera_ok r" "at buf off (encode_camera r @ post)"
  shows "yields buf r post (decode_camera buf off)"
proof -
  have ok: "length (r_sysfsName r) < 2 ^ 32" "length (r_serial r) < 2 ^ 32" "length (r_ip r) < 2 ^ 32"
    "length (r_netdev r) < 2 ^ 32" "length (r_netdevFirstSeen r) < 2 ^ 32" "length (r_linkState r) < 2 ^ 32"
    "length (r_hostIp r) < 2 ^ 32"
    using assms(1) by (simp_all add: camera_ok_def)
  note strings = string_codec.step [OF _ ok(1)] string_codec.step [OF _ ok(2)] string_codec.step [OF _ ok(3)]
    string_codec.step [OF _ ok(4)] string_codec.step [OF _ ok(5)] string_codec.step [OF _ ok(6)]
    string_codec.step [OF _ ok(7)]
  note words = u16_codec.step [OF _ TrueI] u8_codec.step [OF _ TrueI] bool_codec.step [OF _ TrueI]
    u32_codec.step [OF _ TrueI]
  from assms(2) show ?thesis
    unfolding decode_camera_def encode_camera_def append_assoc
    apply -
    apply (rule words strings, assumption)+
    apply (simp add: yields_def)
    done
qed

lemma at_whole: "at (pre @ rest) (length pre) rest"
  by (simp add: at_def)

lemma yields_exact:
  assumes "yields (pre @ xs @ post) v post res"
  shows "res = Some (v, length pre + length xs)"
proof -
  obtain off where r: "res = Some (v, off)" "at (pre @ xs @ post) off post"
    using assms by (auto simp: yields_def)
  then have "length (drop off (pre @ xs @ post)) = length post" "off \<le> length (pre @ xs @ post)"
    by (simp_all add: at_def)
  then have "off = length pre + length xs" by auto
  with r show ?thesis by simp
qed

interpretation camera_codec: field_codec encode_camera decode_camera camera_ok
  by unfold_locales (auto intro!: yields_exact decode_camera_yields at_whole)

section \<open>The Dart reader agrees\<close>

definition reads :: "bytes \<Rightarrow> 'b \<Rightarrow> bytes \<Rightarrow> (ReadError + 'b \<times> nat) \<Rightarrow> bool" where
  "reads data v rest res \<longleftrightarrow> (\<exists>off. res = Inr (v, off) \<and> at data off rest)"

text \<open>A Dart read of a field: what it makes of the value that was encoded there.\<close>

locale dart_field =
  fixes enc :: "'a \<Rightarrow> bytes"
    and rd :: "'b reader"
    and ok :: "'a \<Rightarrow> bool"
    and view :: "'a \<Rightarrow> 'b"
  assumes read_at: "at data off (enc v @ rest) \<Longrightarrow> ok v \<Longrightarrow> rd data off = Inr (view v, off + length (enc v))"
begin

lemma read_step:
  assumes "at data off (enc v @ rest)" "ok v"
    and "\<And>off. at data off rest \<Longrightarrow> reads data w post (f (view v) data off)"
  shows "reads data w post (read_bind rd f data off)"
  using read_at [OF assms(1,2)] assms(3) [OF at_advance [OF assms(1)]] by (simp add: read_bind_def)

end

lemma at_take: "at data off (xs @ rest) \<Longrightarrow> take (length xs) (drop off data) = xs \<and> off + length xs \<le> length data"
proof -
  assume a: "at data off (xs @ rest)"
  then have "take (length xs) (drop off data) = xs" by (simp add: at_def)
  moreover have "off + length xs \<le> length data" using at_advance [OF a] by (simp add: at_def)
  ultimately show ?thesis by simp
qed

lemma at_nth: "at data off (x # rest) \<Longrightarrow> off < length data \<and> data ! off = x"
proof -
  assume "at data off (x # rest)"
  then have d: "drop off data = x # rest" by (simp add: at_def)
  then have "off < length data" by (cases "off < length data") simp_all
  then show ?thesis using d by (metis Cons_nth_drop_Suc list.inject)
qed

interpretation dart_u8: dart_field encode_u8 readUint8 "\<lambda>v. True" "\<lambda>v. v"
  by unfold_locales (auto simp: encode_u8_def readUint8_def dest!: at_nth)

interpretation dart_bool: dart_field encode_bool readBool "\<lambda>v. True" "\<lambda>v. v"
  by unfold_locales (auto simp: encode_bool_def readBool_def dest!: at_nth split: if_splits)

interpretation dart_u16: dart_field encode_u16 readUint16 "\<lambda>v. True" "\<lambda>v. v"
proof unfold_locales
  fix data off v rest
  assume "at data off (encode_u16 v @ rest)"
  from at_take [OF this] show "readUint16 data off = Inr (v, off + length (encode_u16 v))"
    by (simp add: encode_u16_def readUint16_def le_word_le_bytes_full)
qed

interpretation dart_u32: dart_field encode_u32 readUint32 "\<lambda>v. True" "\<lambda>v. v"
proof unfold_locales
  fix data off v rest
  assume "at data off (encode_u32 v @ rest)"
  from at_take [OF this] show "readUint32 data off = Inr (v, off + length (encode_u32 v))"
    by (simp add: encode_u32_def readUint32_def le_word_le_bytes_full)
qed

definition dart_string :: "(bytes \<Rightarrow> 's) \<Rightarrow> 's \<Rightarrow> string \<Rightarrow> 's" where
  "dart_string utf8 nostr s = (if s = '''' then nostr else utf8 (map byte_of_char s))"

interpretation dart_str: dart_field encode_string "readString utf8 nostr" "\<lambda>s. length s < 2 ^ 32"
  "dart_string utf8 nostr" for utf8 nostr
proof unfold_locales
  fix data off s rest
  assume a: "at data off (encode_string s @ rest)" and s: "length s < 2 ^ 32"
  let ?len = "of_nat (length s) :: u32"
  have a1: "at data off (encode_u32 ?len @ map byte_of_char s @ rest)"
    using a by (simp add: encode_string_def encode_u32_def Let_def)
  have len: "unat ?len = length s" using s by (simp add: unat_of_nat)
  then have z: "?len = 0 \<longleftrightarrow> s = ''''" using unat_eq_zero [of ?len] by auto
  have "readUint32 data off = Inr (?len, off + 4)"
    using dart_u32.read_at [OF a1 TrueI] by (simp add: encode_u32_def)
  moreover have "at data (off + 4) (map byte_of_char s @ rest)"
    using at_advance [OF a1] by (simp add: encode_u32_def)
  from at_take [OF this] have "take (length s) (drop (off + 4) data) = map byte_of_char s"
    "off + 4 + length s \<le> length data" by simp_all
  ultimately show "readString utf8 nostr data off = Inr (dart_string utf8 nostr s, off + length (encode_string s))"
    using len z
    by (simp add: readString_def read_bind_def dart_string_def encode_string_def Let_def)
qed

definition dart_camera :: "(bytes \<Rightarrow> 's) \<Rightarrow> 's \<Rightarrow> CameraRecord \<Rightarrow> 's GoProCamera" where
  "dart_camera utf8 nostr r =
     (let str = dart_string utf8 nostr in
      \<lparr>d_vid = r_vid r, d_pid = r_pid r, d_bus = r_bus r, d_address = r_address r,
       d_sysfsName = str (r_sysfsName r), d_serial = str (r_serial r),
       d_serialSource = dart_serialSource (r_serialSource r), d_ip = str (r_ip r),
       d_netdev = str (r_netdev r), d_netdevFirstSeen = str (r_netdevFirstSeen r),
       d_netdevRenamed = r_netdevRenamed r, d_linkState = str (r_linkState r), d_hostIp = str (r_hostIp r),
       d_readiness = dart_readiness (r_readiness r), d_hasCdc = r_hasCdc r, d_elapsed_ms = r_elapsedMs r\<rparr>)"

lemma readCamera_reads:
  assumes "camera_ok r" "at data off (encode_camera r @ post)"
  shows "reads data (dart_camera utf8 nostr r) post (readCamera utf8 nostr data off)"
proof -
  have ok: "length (r_sysfsName r) < 2 ^ 32" "length (r_serial r) < 2 ^ 32" "length (r_ip r) < 2 ^ 32"
    "length (r_netdev r) < 2 ^ 32" "length (r_netdevFirstSeen r) < 2 ^ 32" "length (r_linkState r) < 2 ^ 32"
    "length (r_hostIp r) < 2 ^ 32"
    using assms(1) by (simp_all add: camera_ok_def)
  note strings = dart_str.read_step [OF _ ok(1)] dart_str.read_step [OF _ ok(2)] dart_str.read_step [OF _ ok(3)]
    dart_str.read_step [OF _ ok(4)] dart_str.read_step [OF _ ok(5)] dart_str.read_step [OF _ ok(6)]
    dart_str.read_step [OF _ ok(7)]
  note words = dart_u16.read_step [OF _ TrueI] dart_u8.read_step [OF _ TrueI] dart_bool.read_step [OF _ TrueI]
    dart_u32.read_step [OF _ TrueI]
  from assms(2) show ?thesis
    unfolding readCamera_def encode_camera_def append_assoc
    apply -
    apply (rule words strings, assumption)+
    apply (simp add: reads_def dart_camera_def Let_def)
    done
qed

section \<open>Truncated payloads\<close>

text \<open>A reader that, where it succeeds, stays inside the data and does not depend on what follows.\<close>

definition steady :: "'b reader \<Rightarrow> bool" where
  "steady rd \<longleftrightarrow> (\<forall>p q off v off'. off \<le> length p \<longrightarrow> rd p off = Inr (v, off') \<longrightarrow>
     rd (p @ q) off = Inr (v, off') \<and> off' \<le> length p)"

lemma steadyI:
  "(\<And>p q off v off'. off \<le> length p \<Longrightarrow> rd p off = Inr (v, off') \<Longrightarrow>
     rd (p @ q) off = Inr (v, off') \<and> off' \<le> length p) \<Longrightarrow> steady rd"
  unfolding steady_def by blast

lemma steadyD:
  assumes "steady rd" "rd p off = Inr (v, off')" "off \<le> length p"
  shows "rd (p @ q) off = Inr (v, off')" "off' \<le> length p"
  using assms unfolding steady_def by blast+

lemma steady_bind:
  assumes "steady r" "\<And>v. steady (f v)"
  shows "steady (read_bind r f)"
proof (rule steadyI)
  fix p q off v off'
  assume off: "off \<le> length p" and r: "read_bind r f p off = Inr (v, off')"
  then obtain w o1 where w: "r p off = Inr (w, o1)" "f w p o1 = Inr (v, off')"
    by (auto simp: read_bind_def split: sum.splits prod.splits)
  note 1 = steadyD [OF assms(1) w(1) off]
  note 2 = steadyD [OF assms(2) w(2) 1(2)]
  show "read_bind r f (p @ q) off = Inr (v, off') \<and> off' \<le> length p"
    using 1(1) [of q] 2 by (simp add: read_bind_def)
qed

lemma steady_words: "steady readUint8" "steady readBool" "steady readUint16" "steady readUint32"
  by (auto simp: steady_def readUint8_def readBool_def readUint16_def readUint32_def nth_append split: if_splits)

lemma steady_string: "steady (readString utf8 nostr)"
  unfolding readString_def
  by (rule steady_bind, rule steady_words) (auto simp: steady_def split: if_splits)

lemma steady_camera: "steady (readCamera utf8 nostr)"
  unfolding readCamera_def
  by (intro steady_bind steady_words steady_string) (simp add: steady_def)

lemma truncated_camera:
  assumes "camera_ok r" "n < length (encode_camera r)" "b = [k]"
  shows "\<exists>e. readCamera utf8 nostr (b @ take n (encode_camera r)) 1 = Inl e"
proof (rule ccontr)
  let ?d = "b @ encode_camera r" and ?p = "b @ take n (encode_camera r)"
  assume "\<not> (\<exists>e. readCamera utf8 nostr ?p 1 = Inl e)"
  then obtain v off where "readCamera utf8 nostr ?p 1 = Inr (v, off)"
    by (cases "readCamera utf8 nostr ?p 1") auto
  note p = steadyD [OF steady_camera this]
  have "1 \<le> length ?p" using assms(3) by simp
  then have full: "readCamera utf8 nostr ?d 1 = Inr (v, off)" and off: "off \<le> length ?p"
    using p(1) [of "drop n (encode_camera r)"] p(2) by simp_all
  have "at ?d 1 (encode_camera r @ [])" using at_whole [of b "encode_camera r"] assms(3) by simp
  from readCamera_reads [OF assms(1) this, of utf8 nostr] full have "at ?d off []" by (auto simp: reads_def)
  then have "length ?d \<le> off" by (auto simp: at_def)
  with off assms(2,3) show False by simp
qed

lemma kind_from_byte [simp]: "event_kind_from_byte (event_kind_value kind) = Some kind"
  by (cases kind) (simp_all add: event_kind_from_byte_def)

section \<open>Properties\<close>

text \<open>
  The native encoding of a camera record is decoded in place, whatever bytes surround it,
  to the same record, and the offset returned is just past it, for every record whose strings
  have a length that fits the 32-bit prefix.
\<close>

lemma camera_record_roundtrip:
  assumes "camera_ok r"
  shows "decode_camera (pre @ encode_camera r @ post) (length pre) = Some (r, length pre + length (encode_camera r))"
  using assms by (rule camera_codec.decode_encode) simp

text \<open>
  Dart never takes a truncated payload for a camera: of the bytes of an update or departure
  event, every proper part that still has the kind byte makes the decoder raise an error,
  whatever \<open>utf8.decode\<close> does.
\<close>

lemma truncated_event_rejected:
  assumes "camera_ok r" "kind \<noteq> kSentinel" "n < length (encode_camera r)"
  shows "\<exists>e. decodeEvent utf8 nostr (event_kind_value kind # take n (encode_camera r)) = Inl e"
  using truncated_camera [OF assms(1,3) refl, of utf8 nostr "event_kind_value kind"] assms(2)
  by (auto simp: decodeEvent_def)

end
