(* ===== verification/Dart_Api_Dl.thy ===== *)
theory Dart_Api_Dl
  imports Gp_Prelude
begin

text \<open>
  Binding the functions of the Dart VM: \<open>native/src/dart_api_dl.c\<close> with the symbol lists of
  \<open>dart_api_dl.h\<close>, the table types of \<open>internal/dart_api_dl_impl.h\<close> and the version of
  \<open>dart_version.h\<close>. The table is what the VM hands over. A function pointer is an address, null
  is 0; the \<open>_DL\<close> variables are a map from the symbol's name to its address.

  The lemmas show which variables are bound to what after initialisation.
\<close>

type_synonym fn_ptr = "64 word"

text \<open>A table entry; the one whose name is null ends the table.\<close>

record DartApiEntry =
  e_name :: "string option"
  e_function :: fn_ptr

record DartApi =
  api_major :: int
  api_minor :: int
  api_functions :: "DartApiEntry list"

definition DART_API_DL_MAJOR_VERSION :: int where "DART_API_DL_MAJOR_VERSION = 2"

definition DART_NATIVE_API_DL_SYMBOLS :: "string list" where
  "DART_NATIVE_API_DL_SYMBOLS =
     [''Dart_PostCObject'', ''Dart_PostInteger'', ''Dart_NewNativePort'', ''Dart_CloseNativePort'']"

definition DART_API_DL_SYMBOLS :: "string list" where
  "DART_API_DL_SYMBOLS =
     [''Dart_IsError'', ''Dart_IsApiError'', ''Dart_IsUnhandledExceptionError'', ''Dart_IsCompilationError'',
      ''Dart_IsFatalError'', ''Dart_GetError'', ''Dart_ErrorHasException'', ''Dart_ErrorGetException'',
      ''Dart_ErrorGetStackTrace'', ''Dart_NewApiError'', ''Dart_NewCompilationError'',
      ''Dart_NewUnhandledExceptionError'', ''Dart_PropagateError'',
      ''Dart_HandleFromPersistent'', ''Dart_HandleFromWeakPersistent'', ''Dart_NewPersistentHandle'',
      ''Dart_SetPersistentHandle'', ''Dart_DeletePersistentHandle'', ''Dart_NewWeakPersistentHandle'',
      ''Dart_DeleteWeakPersistentHandle'', ''Dart_NewFinalizableHandle'', ''Dart_DeleteFinalizableHandle'',
      ''Dart_CurrentIsolate'', ''Dart_ExitIsolate'', ''Dart_EnterIsolate'',
      ''Dart_GetMainPortId'', ''Dart_Post'', ''Dart_NewSendPort'', ''Dart_NewSendPortEx'',
      ''Dart_SendPortGetId'', ''Dart_SendPortGetIdEx'', ''Dart_GetCurrentThreadOwnsIsolate'',
      ''Dart_EnterScope'', ''Dart_ExitScope'', ''Dart_IsNull'', ''Dart_Null'']"

definition DART_API_ALL_DL_SYMBOLS :: "string list" where
  "DART_API_ALL_DL_SYMBOLS = DART_NATIVE_API_DL_SYMBOLS @ DART_API_DL_SYMBOLS"

definition DART_API_DEPRECATED_DL_SYMBOLS :: "string list" where
  "DART_API_DEPRECATED_DL_SYMBOLS = [''Dart_UpdateExternalSize'', ''Dart_UpdateFinalizableExternalSize'']"

text \<open>The \<open>_DL\<close> variables as they are before initialisation: all null.\<close>

definition dl_definitions :: "string \<rightharpoonup> fn_ptr" where
  "dl_definitions = map_of (map (\<lambda>name. (name, 0)) (DART_API_ALL_DL_SYMBOLS @ DART_API_DEPRECATED_DL_SYMBOLS))"

text \<open>The scan; \<open>None\<close> is reading past the end of a table that nothing ends.\<close>

fun FindFunctionPointer :: "DartApiEntry list \<Rightarrow> string \<Rightarrow> fn_ptr option" where
  "FindFunctionPointer [] name = None"
| "FindFunctionPointer (entry # entries) name =
     (case e_name entry of
        None \<Rightarrow> Some 0
      | Some n \<Rightarrow> if n = name then Some (e_function entry) else FindFunctionPointer entries name)"

fun dl_init :: "DartApiEntry list \<Rightarrow> string list \<Rightarrow> (string \<rightharpoonup> fn_ptr) \<Rightarrow> (string \<rightharpoonup> fn_ptr) option" where
  "dl_init fns [] vars = Some vars"
| "dl_init fns (name # names) vars =
     (case FindFunctionPointer fns name of
        None \<Rightarrow> None | Some f \<Rightarrow> dl_init fns names (vars(name \<mapsto> f)))"

text \<open>
  The whole initialisation: the variables and the result. The addresses of the two deprecated
  functions, which only print, are a parameter.
\<close>

definition Dart_InitializeApiDL ::
  "(string \<Rightarrow> fn_ptr) \<Rightarrow> DartApi \<Rightarrow> (string \<rightharpoonup> fn_ptr) \<Rightarrow> ((string \<rightharpoonup> fn_ptr) \<times> int) option" where
  "Dart_InitializeApiDL deprecated dart_api_data vars =
     (if api_major dart_api_data \<noteq> DART_API_DL_MAJOR_VERSION then Some (vars, -1)
      else
        (case dl_init (api_functions dart_api_data) DART_API_ALL_DL_SYMBOLS vars of
           None \<Rightarrow> None
         | Some vars \<Rightarrow>
             Some (fold (\<lambda>name vars. vars(name \<mapsto> deprecated name)) DART_API_DEPRECATED_DL_SYMBOLS vars, 0)))"

section \<open>Lookup\<close>

definition terminated :: "DartApiEntry list \<Rightarrow> bool" where
  "terminated fns \<longleftrightarrow> list_ex (\<lambda>e. e_name e = None) fns"

text \<open>What the table says about a name: the entries before the one that ends it, as a map.\<close>

definition table :: "DartApiEntry list \<Rightarrow> string \<rightharpoonup> fn_ptr" where
  "table fns = map_of (map (\<lambda>e. (the (e_name e), e_function e)) (takeWhile (\<lambda>e. e_name e \<noteq> None) fns))"

lemma find_terminated:
  "terminated fns \<Longrightarrow> FindFunctionPointer fns name = Some (case table fns name of None \<Rightarrow> 0 | Some f \<Rightarrow> f)"
  by (induction fns name rule: FindFunctionPointer.induct)
     (auto simp: terminated_def table_def split: option.splits)

lemma dl_init_terminated:
  "terminated fns \<Longrightarrow> dl_init fns names vars =
    Some (\<lambda>name. if name \<in> set names then FindFunctionPointer fns name else vars name)"
proof (induction names arbitrary: vars)
  case (Cons n names)
  then obtain f where f: "FindFunctionPointer fns n = Some f" using find_terminated by blast
  have "(\<lambda>name. if name \<in> set names then FindFunctionPointer fns name else (vars(n \<mapsto> f)) name) =
    (\<lambda>name. if name \<in> set (n # names) then FindFunctionPointer fns name else vars name)"
    using f by auto
  with Cons.IH [OF Cons.prems, of "vars(n \<mapsto> f)"] f show ?case by (simp only: dl_init.simps option.case)
qed simp

lemma deprecated_symbols_disjoint: "set DART_API_DEPRECATED_DL_SYMBOLS \<inter> set DART_API_ALL_DL_SYMBOLS = {}"
  by (simp add: DART_API_DEPRECATED_DL_SYMBOLS_def DART_API_ALL_DL_SYMBOLS_def DART_NATIVE_API_DL_SYMBOLS_def
      DART_API_DL_SYMBOLS_def)

lemma fold_assign:
  "fold (\<lambda>name vars. vars(name \<mapsto> g name)) names vars n = (if n \<in> set names then Some (g n) else vars n)"
  by (induction names arbitrary: vars) auto

lemma mismatch_leaves_unbound:
  "api_major api \<noteq> DART_API_DL_MAJOR_VERSION \<Longrightarrow>
   Dart_InitializeApiDL deprecated api dl_definitions = Some (dl_definitions, -1) \<and>
   dl_definitions ''Dart_PostCObject'' = Some 0"
  by (simp add: Dart_InitializeApiDL_def dl_definitions_def DART_API_ALL_DL_SYMBOLS_def DART_NATIVE_API_DL_SYMBOLS_def)

section \<open>Properties\<close>

text \<open>
  With a VM of the same major version and a table that is ended as it should be,
  initialisation reads nothing past the table and succeeds, every symbol of the interface is
  bound to the first function the table has for it, a symbol an older VM lacks is null, and the
  deprecated symbols are bound to the local functions whatever the table says.
\<close>

lemma initialize_binds_every_symbol:
  assumes "api_major api = 2" "terminated (api_functions api)"
  shows "\<exists>vars. Dart_InitializeApiDL deprecated api dl_definitions = Some (vars, 0) \<and>
    (\<forall>name\<in>set DART_API_ALL_DL_SYMBOLS.
       vars name = Some (case table (api_functions api) name of None \<Rightarrow> 0 | Some f \<Rightarrow> f)) \<and>
    (\<forall>name\<in>set DART_API_DEPRECATED_DL_SYMBOLS. vars name = Some (deprecated name))"
proof -
  obtain vars where v: "dl_init (api_functions api) DART_API_ALL_DL_SYMBOLS dl_definitions = Some vars"
    "\<And>name. vars name = (if name \<in> set DART_API_ALL_DL_SYMBOLS
       then FindFunctionPointer (api_functions api) name else dl_definitions name)"
    using dl_init_terminated [OF assms(2)] by blast
  show ?thesis using assms v deprecated_symbols_disjoint
    by (intro exI conjI) (auto simp: Dart_InitializeApiDL_def DART_API_DL_MAJOR_VERSION_def fold_assign find_terminated)
qed

end
