(* ===== verification/Gopro_Bridge.thy ===== *)
theory Gopro_Bridge
  imports Usb_Discovery Gopro_Types Dart_Api_Dl
begin

text \<open>
  The discovery bridge, \<open>native/src/gopro_bridge.cpp\<close>: the hotplug callback, the worker thread
  that settles arrived cameras towards readiness, and the C functions Dart calls. What is
  posted to the Dart port is the output of each operation; the events that libusb fires, the
  device list and what the system answers at each look are inputs. A time point is a number of
  nanoseconds of the steady clock.

  The worker and the Dart thread share three atomics only (\<open>stop\<close>, \<open>rescan\<close>, \<open>timeout_ms\<close>), each
  of which the worker reads once per pass; the pending list is touched by the worker alone
  once it runs. So the threads are a step relation between the atomic sections of the worker
  and the calls of the client, and every interleaving is a run of it.

  The lemmas show what a pass reports and drops, that a camera that left is not reported
  again, that the worker stops, and that Dart decodes every event to the camera behind it.
\<close>

section \<open>State\<close>

record Pending =
  p_cam :: Camera
  p_arrived :: int
  p_last :: Readiness

text \<open>Where the worker thread is between its atomic sections.\<close>

datatype WorkerPc = WStart | WCheck | WPump | WRescan | WSettle | WDone

record BridgeContext =
  b_disco :: Discovery
  b_events_port :: "64 word"
  b_worker :: WorkerPc
  b_stop :: bool
  b_timeout_ms :: "32 word"
  b_rescan :: bool
  b_pending :: "Pending list"

definition new_context :: "64 word \<Rightarrow> Discovery \<Rightarrow> BridgeContext" where
  "new_context events_port disco =
     \<lparr>b_disco = disco, b_events_port = events_port, b_worker = WStart, b_stop = False,
      b_timeout_ms = 10000, b_rescan = False, b_pending = []\<rparr>"

definition ms_since :: "int \<Rightarrow> int \<Rightarrow> u32" where
  "ms_since now t = word_of_int ((now - t) sdiv 1000000)"

section \<open>Records and posts\<close>

fun serial_source_value :: "SerialSource \<Rightarrow> u8" where
  "serial_source_value kNone = 0" | "serial_source_value kDescriptor = 1" | "serial_source_value kSysfs = 2"

fun readiness_value :: "Readiness \<Rightarrow> u8" where
  "readiness_value kAbsent = 0" | "readiness_value kUsbPresent = 1" | "readiness_value kNetdevBound = 2"
| "readiness_value kHostAddressed = 3" | "readiness_value kL3Ready = 4"

definition to_record :: "Camera \<Rightarrow> u32 \<Rightarrow> CameraRecord" where
  "to_record c elapsed_ms =
     \<lparr>r_vid = c_vid c, r_pid = c_pid c, r_bus = c_bus c, r_address = c_address c,
      r_sysfsName = c_sysfs_name c, r_serial = c_serial c,
      r_serialSource = serial_source_value (c_serial_source c), r_ip = c_ip c, r_netdev = c_netdev c,
      r_netdevFirstSeen = c_netdev_first_seen c, r_netdevRenamed = c_netdev_renamed c,
      r_linkState = c_link_state c, r_hostIp = c_host_ip c,
      r_readiness = readiness_value (c_readiness c), r_hasCdc = c_has_cdc_interface c,
      r_elapsedMs = elapsed_ms\<rparr>"

text \<open>A post: the port, the kind, and the record if there is one; and the bytes it carries.\<close>

record Post =
  post_port :: "64 word"
  post_kind :: EventKind
  post_rec :: "CameraRecord option"

definition post :: "64 word \<Rightarrow> EventKind \<Rightarrow> CameraRecord option \<Rightarrow> Post" where
  "post port kind rec = \<lparr>post_port = port, post_kind = kind, post_rec = rec\<rparr>"

definition post_bytes :: "Post \<Rightarrow> bytes" where
  "post_bytes p = event_kind_value (post_kind p) #
     (case post_rec p of None \<Rightarrow> [] | Some rec \<Rightarrow> encode_camera rec)"

section \<open>The hotplug callback\<close>

definition hotplug_callback :: "int \<Rightarrow> BridgeContext \<Rightarrow> Camera \<times> bool \<Rightarrow> BridgeContext \<times> Post list" where
  "hotplug_callback now ctx call =
     (let (c, arrived) = call in
      if arrived then
        (ctx\<lparr>b_pending := b_pending ctx @ [\<lparr>p_cam = c, p_arrived = now, p_last = c_readiness c\<rparr>]\<rparr>,
         [post (b_events_port ctx) kUpdate (Some (to_record c 0))])
      else
        (ctx\<lparr>b_pending := filter (\<lambda>p. \<not> c_sysfs_name (p_cam p) = c_sysfs_name c) (b_pending ctx)\<rparr>,
         [post (b_events_port ctx) kLeft (Some (to_record c 0))]))"

text \<open>One event fired by libusb: the trampoline, then the callback if it is called.\<close>

definition on_hotplug :: "Env \<Rightarrow> int \<Rightarrow> UsbDevice \<Rightarrow> bool \<Rightarrow> BridgeContext \<Rightarrow> BridgeContext \<times> Post list" where
  "on_hotplug env now dev arrived ctx =
     (let (disco, calls) = trampoline env dev arrived (b_disco ctx)
      in run (hotplug_callback now) (ctx\<lparr>b_disco := disco\<rparr>) calls)"

section \<open>The worker\<close>

definition rescan_section :: "Env \<Rightarrow> UsbDevice list option \<Rightarrow> BridgeContext \<Rightarrow> BridgeContext \<times> Post list" where
  "rescan_section env devices ctx =
     (if b_rescan ctx then
        (let (disco, cams) = discovery_enumerate env devices (b_disco ctx)
         in (ctx\<lparr>b_rescan := False, b_disco := disco\<rparr>,
             map (\<lambda>c. post (b_events_port ctx) kUpdate (Some (to_record c 0))) cams))
      else (ctx, []))"

text \<open>
  One entry of the pending list: the entry that stays, if it stays, and what is posted.
  The look is the environment that \<open>advance_readiness\<close> sees and the clock read after it.
\<close>

definition settle :: "64 word \<Rightarrow> u32 \<Rightarrow> Env \<times> int \<Rightarrow> Pending \<Rightarrow> Pending option \<times> Post list" where
  "settle port budget look it =
     (let (env, now) = look;
          before = p_last it;
          it = it\<lparr>p_cam := advance_readiness env (p_cam it) 8080 500\<rparr>;
          after = c_readiness (p_cam it);
          elapsed = ms_since now (p_arrived it);
          update = post port kUpdate (Some (to_record (p_cam it) elapsed));
          (it, out) = (if after \<noteq> before then (it\<lparr>p_last := after\<rparr>, [update]) else (it, []));
          done = after = kL3Ready \<or> after = kAbsent \<or> elapsed > budget
      in if done then (None, out @ (if after = before \<and> after \<noteq> kL3Ready then [update] else []))
         else (Some it, out))"

fun settle_loop ::
  "64 word \<Rightarrow> u32 \<Rightarrow> (nat \<Rightarrow> Env \<times> int) \<Rightarrow> nat \<Rightarrow> Pending list \<Rightarrow> Pending list \<times> Post list" where
  "settle_loop port budget looks i [] = ([], [])"
| "settle_loop port budget looks i (it # its) =
     (let (kept, out) = settle port budget (looks i) it;
          (rest, outs) = settle_loop port budget looks (Suc i) its
      in ((case kept of None \<Rightarrow> rest | Some it \<Rightarrow> it # rest), out @ outs))"

definition settle_section :: "(nat \<Rightarrow> Env \<times> int) \<Rightarrow> BridgeContext \<Rightarrow> BridgeContext \<times> Post list" where
  "settle_section looks ctx =
     (let (pending, out) = settle_loop (b_events_port ctx) (b_timeout_ms ctx) looks 0 (b_pending ctx)
      in (ctx\<lparr>b_pending := pending\<rparr>, out))"

section \<open>The C functions\<close>

text \<open>\<open>gopro_bridge_init\<close> drops the result of the initialisation.\<close>

definition gopro_bridge_init ::
  "(string \<Rightarrow> fn_ptr) \<Rightarrow> DartApi \<Rightarrow> (string \<rightharpoonup> fn_ptr) \<Rightarrow> (string \<rightharpoonup> fn_ptr) option" where
  "gopro_bridge_init deprecated dart_api_dl_data vars =
     map_option fst (Dart_InitializeApiDL deprecated dart_api_dl_data vars)"

definition gopro_discovery_rescan :: "BridgeContext option \<Rightarrow> BridgeContext option" where
  "gopro_discovery_rescan handle = map_option (\<lambda>ctx. ctx\<lparr>b_rescan := True\<rparr>) handle"

definition gopro_discovery_set_timeout :: "BridgeContext option \<Rightarrow> 32 word \<Rightarrow> BridgeContext option" where
  "gopro_discovery_set_timeout handle timeout_ms =
     map_option (\<lambda>ctx. ctx\<lparr>b_timeout_ms := timeout_ms\<rparr>) handle"

text \<open>The first half of \<open>gopro_discovery_destroy\<close>; the join that follows waits for \<open>WDone\<close>.\<close>

definition gopro_discovery_stop :: "BridgeContext option \<Rightarrow> BridgeContext option" where
  "gopro_discovery_stop handle = map_option (\<lambda>ctx. ctx\<lparr>b_stop := True\<rparr>) handle"

text \<open>
  \<open>gopro_discovery_create\<close>. Registering the callback fires it for the devices that are already
  attached; the list of these, and whether \<open>libusb_init\<close>, the capability query and the
  registration succeed, are what libusb answers.
\<close>

fun fire_attached :: "(Env \<times> int \<times> UsbDevice) list \<Rightarrow> BridgeContext \<Rightarrow> BridgeContext \<times> Post list" where
  "fire_attached [] ctx = (ctx, [])"
| "fire_attached ((env, now, dev) # rest) ctx =
     (let (ctx, out) = on_hotplug env now dev True ctx; (ctx, outs) = fire_attached rest ctx
      in (ctx, out @ outs))"

definition gopro_discovery_create ::
  "bool \<Rightarrow> nat \<Rightarrow> int \<Rightarrow> (Env \<times> int \<times> UsbDevice) list \<Rightarrow> 64 word \<Rightarrow> u16 \<Rightarrow> BridgeContext option \<times> Post list" where
  "gopro_discovery_create libusb_init_ok capability register_result attached events_port vid =
     (case discovery_create (if vid = 0 then kGoProVid else vid) libusb_init_ok of
        None \<Rightarrow> (None, [])
      | Some disco \<Rightarrow>
          (if \<not> hotplug_supported capability then (None, [])
           else
             (let (disco, ok) = discovery_watch capability register_result disco;
                  (ctx, out) = fire_attached attached (new_context events_port disco)
              in (if ok then Some ctx else None, out))))"

section \<open>The threads\<close>

text \<open>
  A step of either thread, labelled with what it needs from outside. The client's calls can
  happen at any point; the worker's sections follow the loop.
\<close>

datatype BridgeLabel =
    LStart
  | LCheck
  | LHotplug Env int UsbDevice bool
  | LPumped
  | LRescan Env "UsbDevice list option"
  | LSettle "nat \<Rightarrow> Env \<times> int"
  | LClientRescan
  | LClientTimeout "32 word"
  | LClientStop

inductive bridge_step :: "BridgeContext \<Rightarrow> BridgeLabel \<Rightarrow> Post list \<Rightarrow> BridgeContext \<Rightarrow> bool" where
  start: "b_worker ctx = WStart \<Longrightarrow>
    bridge_step ctx LStart [post (b_events_port ctx) kSentinel None] (ctx\<lparr>b_worker := WCheck\<rparr>)"
| check: "b_worker ctx = WCheck \<Longrightarrow>
    bridge_step ctx LCheck [] (ctx\<lparr>b_worker := (if b_stop ctx then WDone else WPump)\<rparr>)"
| hotplug: "b_worker ctx = WPump \<Longrightarrow> on_hotplug env now dev arrived ctx = (ctx', out) \<Longrightarrow>
    bridge_step ctx (LHotplug env now dev arrived) out ctx'"
| pumped: "b_worker ctx = WPump \<Longrightarrow> bridge_step ctx LPumped [] (ctx\<lparr>b_worker := WRescan\<rparr>)"
| rescan: "b_worker ctx = WRescan \<Longrightarrow> rescan_section env devices ctx = (ctx', out) \<Longrightarrow>
    bridge_step ctx (LRescan env devices) out (ctx'\<lparr>b_worker := WSettle\<rparr>)"
| settle: "b_worker ctx = WSettle \<Longrightarrow> settle_section looks ctx = (ctx', out) \<Longrightarrow>
    bridge_step ctx (LSettle looks) out (ctx'\<lparr>b_worker := WCheck\<rparr>)"
| client_rescan: "gopro_discovery_rescan (Some ctx) = Some ctx' \<Longrightarrow> bridge_step ctx LClientRescan [] ctx'"
| client_timeout: "gopro_discovery_set_timeout (Some ctx) t = Some ctx' \<Longrightarrow>
    bridge_step ctx (LClientTimeout t) [] ctx'"
| client_stop: "gopro_discovery_stop (Some ctx) = Some ctx' \<Longrightarrow> bridge_step ctx LClientStop [] ctx'"

inductive bridge_run :: "BridgeContext \<Rightarrow> BridgeLabel list \<Rightarrow> Post list \<Rightarrow> BridgeContext \<Rightarrow> bool" where
  empty: "bridge_run ctx [] [] ctx"
| step: "bridge_step ctx l out ctx1 \<Longrightarrow> bridge_run ctx1 ls outs ctx2 \<Longrightarrow>
    bridge_run ctx (l # ls) (out @ outs) ctx2"

inductive_cases bridge_stepE: "bridge_step ctx l out ctx'"
inductive_simps bridge_run_Nil [simp]: "bridge_run ctx [] outs ctx'"
inductive_cases bridge_runE: "bridge_run ctx (l # ls) outs ctx'"

lemmas client_defs = gopro_discovery_rescan_def gopro_discovery_set_timeout_def gopro_discovery_stop_def

section \<open>What a pass does\<close>

text \<open>An entry as the loop keeps it: its last stage is the camera's, and not yet the final one.\<close>

definition p_ok :: "Pending \<Rightarrow> bool" where
  "p_ok p \<longleftrightarrow> p_last p = c_readiness (p_cam p) \<and> p_last p \<noteq> kL3Ready"

definition b_inv :: "BridgeContext \<Rightarrow> bool" where
  "b_inv ctx \<longleftrightarrow> list_all p_ok (b_pending ctx)"

text \<open>The intended effect of a pass on one entry: looked at again, kept or dropped, reported or not.\<close>

definition looked :: "Env \<times> int \<Rightarrow> Pending \<Rightarrow> Pending" where
  "looked look p =
     (let cam = advance_readiness (fst look) (p_cam p) 8080 500 in p\<lparr>p_cam := cam, p_last := c_readiness cam\<rparr>)"

definition stays :: "u32 \<Rightarrow> Env \<times> int \<Rightarrow> Pending \<Rightarrow> bool" where
  "stays budget look p \<longleftrightarrow>
     p_last (looked look p) \<notin> {kL3Ready, kAbsent} \<and> ms_since (snd look) (p_arrived p) \<le> budget"

definition report :: "64 word \<Rightarrow> u32 \<Rightarrow> Env \<times> int \<Rightarrow> Pending \<Rightarrow> Post list" where
  "report port budget look p =
     (if p_last (looked look p) \<noteq> p_last p \<or> \<not> stays budget look p
      then [post port kUpdate (Some (to_record (p_cam (looked look p)) (ms_since (snd look) (p_arrived p))))]
      else [])"

lemmas pass_defs = looked_def stays_def report_def

lemma settle_exact:
  "p_ok p \<Longrightarrow> settle port budget look p =
    (if stays budget look p then Some (looked look p) else None, report port budget look p)"
  by (cases look) (auto simp: settle_def pass_defs p_ok_def Let_def)

lemma looked_ok: "stays budget look p \<Longrightarrow> p_ok (looked look p)"
  by (auto simp: pass_defs p_ok_def Let_def)

text \<open>The whole list, each entry with the look that is taken at it.\<close>

fun with_looks :: "(nat \<Rightarrow> 'a) \<Rightarrow> nat \<Rightarrow> 'b list \<Rightarrow> ('a \<times> 'b) list" where
  "with_looks looks i [] = []"
| "with_looks looks i (x # xs) = (looks i, x) # with_looks looks (Suc i) xs"

lemma settle_loop_exact:
  "list_all p_ok ps \<Longrightarrow> settle_loop port budget looks i ps =
    (map (\<lambda>(l, p). looked l p) (filter (\<lambda>(l, p). stays budget l p) (with_looks looks i ps)),
     concat (map (\<lambda>(l, p). report port budget l p) (with_looks looks i ps)))"
  by (induction port budget looks i ps rule: settle_loop.induct) (auto simp: settle_exact Let_def)

lemma settle_section_exact:
  "b_inv ctx \<Longrightarrow> settle_section looks ctx =
    (ctx\<lparr>b_pending := map (\<lambda>(l, p). looked l p)
       (filter (\<lambda>(l, p). stays (b_timeout_ms ctx) l p) (with_looks looks 0 (b_pending ctx)))\<rparr>,
     concat (map (\<lambda>(l, p). report (b_events_port ctx) (b_timeout_ms ctx) l p) (with_looks looks 0 (b_pending ctx))))"
  by (simp add: settle_section_def settle_loop_exact b_inv_def)

lemma on_hotplug_callback:
  "on_hotplug env now dev arrived ctx =
    (let (disco, calls) = trampoline env dev arrived (b_disco ctx) in
     case calls of [] \<Rightarrow> (ctx\<lparr>b_disco := disco\<rparr>, [])
     | call # _ \<Rightarrow> hotplug_callback now (ctx\<lparr>b_disco := disco\<rparr>) call)"
  by (auto simp: on_hotplug_def trampoline_def Let_def split: prod.splits option.splits)

lemma trampoline_call:
  "snd (trampoline env dev arrived d) = [] \<or>
   (\<exists>c. snd (trampoline env dev arrived d) = [(c, arrived)] \<and> c_sysfs_name c = device_name dev \<and>
     (arrived \<longrightarrow> c = build env dev True))"
  by (auto simp: trampoline_def Let_def split: prod.splits option.splits)

lemma on_hotplug_inv: "b_inv ctx \<Longrightarrow> b_inv (fst (on_hotplug env now dev arrived ctx))"
  using trampoline_call [of env dev arrived "b_disco ctx"] build_not_ready [of env dev True]
  by (cases "trampoline env dev arrived (b_disco ctx)"; cases arrived)
     (auto simp: on_hotplug_callback hotplug_callback_def b_inv_def p_ok_def list_all_iff Let_def)

lemma rescan_section_frame [simp]:
  "b_pending (fst (rescan_section env devices ctx)) = b_pending ctx"
  "b_worker (fst (rescan_section env devices ctx)) = b_worker ctx"
  "b_stop (fst (rescan_section env devices ctx)) = b_stop ctx"
  by (simp_all add: rescan_section_def Let_def split: prod.splits)

lemma settle_section_inv: "b_inv ctx \<Longrightarrow> b_inv (fst (settle_section looks ctx))"
  using looked_ok by (simp add: settle_section_exact) (auto simp: b_inv_def list_all_iff)

lemma bridge_step_inv: "bridge_step ctx l out ctx' \<Longrightarrow> b_inv ctx \<Longrightarrow> b_inv ctx'"
proof (induction rule: bridge_step.induct)
  case (hotplug ctx env now dev arrived ctx' out)
  then show ?case using on_hotplug_inv [of ctx env now dev arrived] by simp
next
  case (rescan ctx env devices ctx' out)
  then show ?case using rescan_section_frame(1) [of env devices ctx] by (simp add: b_inv_def)
next
  case (settle ctx looks ctx' out)
  then show ?case using settle_section_inv [of ctx looks] by (simp add: b_inv_def)
qed (auto simp: b_inv_def client_defs)

lemma bridge_run_inv: "bridge_run ctx ls outs ctx' \<Longrightarrow> b_inv ctx \<Longrightarrow> b_inv ctx'"
  by (induction rule: bridge_run.induct) (auto dest: bridge_step_inv)

section \<open>A camera that left\<close>

text \<open>Nothing is pending for a port, and the callback is installed.\<close>

definition forgotten :: "string \<Rightarrow> BridgeContext \<Rightarrow> bool" where
  "forgotten n ctx \<longleftrightarrow> list_all (\<lambda>p. c_sysfs_name (p_cam p) \<noteq> n) (b_pending ctx)"

definition updates :: "string \<Rightarrow> Post \<Rightarrow> bool" where
  "updates n p \<longleftrightarrow> post_kind p = kUpdate \<and> map_option r_sysfsName (post_rec p) = Some n"

text \<open>The steps that may report a device of that name.\<close>

fun announces :: "string \<Rightarrow> BridgeLabel \<Rightarrow> bool" where
  "announces n (LHotplug env now dev arrived) \<longleftrightarrow> arrived \<and> device_name dev = n"
| "announces n (LRescan env (Some devs)) \<longleftrightarrow> list_ex (\<lambda>dev. device_name dev = n) devs"
| "announces n l \<longleftrightarrow> False"

lemma updates_post [simp]: "updates n (post port kind (Some (to_record c e))) \<longleftrightarrow> kind = kUpdate \<and> c_sysfs_name c = n"
  by (auto simp: updates_def post_def to_record_def)

lemma not_updates_None [simp]: "\<not> updates n (post port kind None)"
  by (simp add: updates_def post_def)

lemma looked_name [simp]: "c_sysfs_name (p_cam (looked l p)) = c_sysfs_name (p_cam p)"
  by (simp add: looked_def Let_def)

lemma settle_name:
  "fst (settle port b l p) = Some p' \<Longrightarrow> c_sysfs_name (p_cam p') = c_sysfs_name (p_cam p)"
  "o1 \<in> set (snd (settle port b l p)) \<Longrightarrow> updates n o1 \<Longrightarrow> c_sysfs_name (p_cam p) = n"
  by (auto simp: settle_def Let_def split: prod.splits if_splits)

lemma settle_loop_forgotten:
  "list_all (\<lambda>p. c_sysfs_name (p_cam p) \<noteq> n) ps \<Longrightarrow>
   list_all (\<lambda>p. c_sysfs_name (p_cam p) \<noteq> n) (fst (settle_loop port b looks i ps)) \<and>
   list_all (\<lambda>p. \<not> updates n p) (snd (settle_loop port b looks i ps))"
proof (induction ps arbitrary: i)
  case (Cons p ps)
  obtain kept out where s: "settle port b (looks i) p = (kept, out)" by fastforce
  obtain rest outs where r: "settle_loop port b looks (Suc i) ps = (rest, outs)" by fastforce
  have "list_all (\<lambda>p. \<not> updates n p) out"
    using Cons.prems settle_name(2) [of _ port b "looks i" p n] s by (auto simp: list_all_iff)
  moreover have "c_sysfs_name (p_cam p') \<noteq> n" if "kept = Some p'" for p'
    using Cons.prems settle_name(1) [of port b "looks i" p p'] s that by simp
  moreover have "list_all (\<lambda>p. c_sysfs_name (p_cam p) \<noteq> n) rest \<and> list_all (\<lambda>p. \<not> updates n p) outs"
    using Cons.IH [of "Suc i"] Cons.prems r by simp
  ultimately show ?case by (simp add: s r split: option.splits)
qed simp

lemma enumerate_names:
  "\<not> list_ex (\<lambda>dev. device_name dev = n) devs \<Longrightarrow>
   list_all (\<lambda>c. c_sysfs_name c \<noteq> n) (snd (enumerate_loop env devs d))"
  by (induction devs arbitrary: d) (simp_all add: Let_def split_beta split: option.splits)

lemma rescan_forgotten:
  assumes "\<not> announces n (LRescan env devices)"
  shows "list_all (\<lambda>p. \<not> updates n p) (snd (rescan_section env devices ctx))"
proof (cases devices)
  case None
  then show ?thesis by (simp add: rescan_section_def discovery_enumerate_def)
next
  case (Some devs)
  with assms enumerate_names [of n devs env "b_disco ctx"] show ?thesis
    by (simp add: rescan_section_def discovery_enumerate_def split_beta list_all_iff)
qed

lemma bridge_step_forgotten:
  assumes "bridge_step ctx l out ctx'" "\<not> announces n l" "forgotten n ctx"
  shows "forgotten n ctx' \<and> list_all (\<lambda>p. \<not> updates n p) out"
  using assms
proof (induction rule: bridge_step.induct)
  case (hotplug ctx env now dev arrived ctx' out)
  then show ?case using trampoline_call [of env dev arrived "b_disco ctx"]
    by (cases "trampoline env dev arrived (b_disco ctx)"; cases arrived)
       (fastforce simp: on_hotplug_callback hotplug_callback_def forgotten_def list_all_iff)+
next
  case (rescan ctx env devices ctx' out)
  then show ?case
    using rescan_forgotten [of n env devices ctx] rescan_section_frame(1) [of env devices ctx]
    by (simp add: forgotten_def)
next
  case (settle ctx looks ctx' out)
  then show ?case
    using settle_loop_forgotten [of n "b_pending ctx" "b_events_port ctx" "b_timeout_ms ctx" looks 0]
    by (auto simp: settle_section_def forgotten_def split: prod.splits)
qed (auto simp: forgotten_def client_defs)

lemma bridge_run_forgotten:
  assumes "bridge_run ctx ls outs ctx'" "list_all (\<lambda>l. \<not> announces n l) ls" "forgotten n ctx"
  shows "list_all (\<lambda>p. \<not> updates n p) outs"
  using assms
  by (induction rule: bridge_run.induct) (auto dest: bridge_step_forgotten)

lemma departure_forgets:
  assumes "bridge_step ctx (LHotplug env now gone False) out ctx'" "di_has_cb (b_disco ctx)"
  shows "forgotten (device_name gone) ctx' \<and>
    (\<exists>rec. out = [post (b_events_port ctx) kLeft (Some rec)] \<and> r_sysfsName rec = device_name gone)"
proof -
  obtain d c where t: "trampoline env gone False (b_disco ctx) = (d, [(c, False)])" "c_sysfs_name c = device_name gone"
    using trampoline_call [of env gone False "b_disco ctx"] assms(2)
    by (cases "trampoline env gone False (b_disco ctx)") (auto simp: trampoline_def Let_def split: prod.splits option.splits)
  from assms(1) have "on_hotplug env now gone False ctx = (ctx', out)" by (auto elim: bridge_stepE)
  with t show ?thesis
    by (auto simp: on_hotplug_callback hotplug_callback_def forgotten_def list_all_iff to_record_def)
qed

section \<open>Stopping\<close>

text \<open>How many sections the worker still runs once it has been told to stop.\<close>

fun sections_left :: "WorkerPc \<Rightarrow> nat" where
  "sections_left WDone = 0" | "sections_left WCheck = 1" | "sections_left WStart = 2"
| "sections_left WSettle = 2" | "sections_left WRescan = 3" | "sections_left WPump = 4"

fun is_section :: "BridgeLabel \<Rightarrow> bool" where
  "is_section (LHotplug env now dev arrived) = False"
| "is_section LClientRescan = False" | "is_section (LClientTimeout t) = False"
| "is_section LClientStop = False" | "is_section l = True"

lemma on_hotplug_frame:
  "b_worker (fst (on_hotplug env now dev arrived ctx)) = b_worker ctx"
  "b_stop (fst (on_hotplug env now dev arrived ctx)) = b_stop ctx"
  "b_events_port (fst (on_hotplug env now dev arrived ctx)) = b_events_port ctx"
  by (simp_all add: on_hotplug_callback hotplug_callback_def Let_def split: prod.splits list.splits)

lemma settle_section_frame [simp]:
  "b_stop (fst (settle_section looks ctx)) = b_stop ctx"
  "b_events_port (fst (settle_section looks ctx)) = b_events_port ctx"
  by (simp_all add: settle_section_def split: prod.splits)

lemma bridge_step_stopping:
  assumes "bridge_step ctx l out ctx'" "b_stop ctx"
  shows "b_stop ctx' \<and> of_bool (is_section l) + sections_left (b_worker ctx') = sections_left (b_worker ctx)"
  using assms
proof (induction rule: bridge_step.induct)
  case (hotplug ctx env now dev arrived ctx' out)
  then show ?case using on_hotplug_frame [of env now dev arrived ctx] by simp
next
  case (rescan ctx env devices ctx' out)
  then show ?case using rescan_section_frame [of env devices ctx] by simp
next
  case (settle ctx looks ctx' out)
  then show ?case using settle_section_frame [of looks ctx] by simp
qed (auto simp: client_defs)

lemma bridge_run_stopping:
  assumes "bridge_run ctx ls outs ctx'" "b_stop ctx"
  shows "length (filter is_section ls) + sections_left (b_worker ctx') = sections_left (b_worker ctx)"
  using assms
proof (induction rule: bridge_run.induct)
  case (step ctx l out ctx1 ls outs ctx2)
  from bridge_step_stopping [OF step.hyps(1) step.prems] step.IH show ?case by (cases "is_section l") simp_all
qed simp

lemma section_enabled:
  assumes "b_worker ctx \<noteq> WDone"
  shows "\<exists>l out ctx'. is_section l \<and> bridge_step ctx l out ctx'"
proof (cases "b_worker ctx")
  case WStart
  then show ?thesis using bridge_step.start is_section.simps by blast
next
  case WCheck
  then show ?thesis using bridge_step.check is_section.simps by blast
next
  case WPump
  then show ?thesis using bridge_step.pumped is_section.simps by blast
next
  case WRescan
  obtain ctx' out where "rescan_section undefined None ctx = (ctx', out)" by fastforce
  from bridge_step.rescan [OF WRescan this] show ?thesis using is_section.simps by blast
next
  case WSettle
  obtain ctx' out where "settle_section (\<lambda>i. undefined) ctx = (ctx', out)" by fastforce
  from bridge_step.settle [OF WSettle this] show ?thesis using is_section.simps by blast
qed (use assms in simp)

lemma done_is_silent: "bridge_step ctx l out ctx' \<Longrightarrow> b_worker ctx = WDone \<Longrightarrow> out = [] \<and> b_worker ctx' = WDone"
  by (induction rule: bridge_step.induct) (auto simp: client_defs)

lemma done_run_silent: "bridge_run ctx ls outs ctx' \<Longrightarrow> b_worker ctx = WDone \<Longrightarrow> outs = []"
  by (induction rule: bridge_run.induct) (auto dest: done_is_silent)

section \<open>What Dart receives\<close>

text \<open>The stage and the serial source that the Dart enumerations name alike.\<close>

fun dart_stage :: "Readiness \<Rightarrow> DartReadiness" where
  "dart_stage kAbsent = rAbsent" | "dart_stage kUsbPresent = rUsbPresent" | "dart_stage kNetdevBound = rNetdevBound"
| "dart_stage kHostAddressed = rHostAddressed" | "dart_stage kL3Ready = rL3Ready"

fun dart_source :: "SerialSource \<Rightarrow> DartSerialSource" where
  "dart_source kNone = ssNone" | "dart_source kDescriptor = ssDescriptor" | "dart_source kSysfs = ssSysfs"

lemma dart_readiness_value [simp]: "dart_readiness (readiness_value s) = dart_stage s"
  by (cases s) (simp_all add: dart_readiness_def Readiness_values_def)

lemma dart_source_value [simp]: "dart_serialSource (serial_source_value s) = dart_source s"
  by (cases s) (simp_all add: dart_serialSource_def SerialSource_values_def)

lemma decode_update:
  assumes "camera_ok rec" "kind \<noteq> kSentinel"
  shows "decodeEvent utf8 nostr (event_kind_value kind # encode_camera rec) =
    Inr (Some (kind, Some (dart_camera utf8 nostr rec)))"
proof -
  have "at (event_kind_value kind # encode_camera rec) 1 (encode_camera rec @ [])" by (simp add: at_def)
  from readCamera_reads [OF assms(1) this, of utf8 nostr] assms(2) show ?thesis
    by (auto simp: decodeEvent_def reads_def)
qed

lemma decode_sentinel: "decodeEvent utf8 nostr [event_kind_value kSentinel] = Inr (Some (kSentinel, None))"
  using kind_from_byte [of kSentinel] by (simp add: decodeEvent_def del: kind_from_byte)

text \<open>A post the bridge makes: the sentinel, or a camera's record under one of the other kinds.\<close>

definition proper :: "64 word \<Rightarrow> Post \<Rightarrow> bool" where
  "proper port p \<longleftrightarrow> p = post port kSentinel None \<or>
     (\<exists>kind c e. kind \<noteq> kSentinel \<and> p = post port kind (Some (to_record c e)))"

lemma proper_camera [simp]: "kind \<noteq> kSentinel \<Longrightarrow> proper port (post port kind (Some (to_record c e)))"
  by (auto simp: proper_def)

lemma settle_loop_proper: "list_all (proper port) (snd (settle_loop port b looks i ps))"
proof (induction ps arbitrary: i)
  case (Cons p ps)
  have "list_all (proper port) (snd (settle port b (looks i) p))" by (simp add: settle_def Let_def split_beta)
  with Cons.IH [of "Suc i"] show ?case by (simp add: Let_def split_beta)
qed simp

lemma on_hotplug_proper: "list_all (proper (b_events_port ctx)) (snd (on_hotplug env now dev arrived ctx))"
  by (simp add: on_hotplug_callback hotplug_callback_def Let_def split: prod.splits list.splits)

lemma bridge_step_proper:
  "bridge_step ctx l out ctx' \<Longrightarrow>
   list_all (proper (b_events_port ctx)) out \<and> b_events_port ctx' = b_events_port ctx"
proof (induction rule: bridge_step.induct)
  case (hotplug ctx env now dev arrived ctx' out)
  then show ?case
    using on_hotplug_proper [of ctx env now dev arrived] on_hotplug_frame(3) [of env now dev arrived ctx] by simp
next
  case (rescan ctx env devices ctx' out)
  then show ?case by (auto simp: rescan_section_def Let_def list_all_iff split: if_splits prod.splits)
next
  case (settle ctx looks ctx' out)
  then show ?case
    using settle_loop_proper [of "b_events_port ctx" "b_timeout_ms ctx" looks 0 "b_pending ctx"]
    by (auto simp: settle_section_def split: prod.splits)
qed (auto simp: client_defs proper_def)

lemma bridge_run_proper: "bridge_run ctx ls outs ctx' \<Longrightarrow> list_all (proper (b_events_port ctx)) outs"
  by (induction rule: bridge_run.induct) (auto dest!: bridge_step_proper)

section \<open>Creation\<close>

lemma on_hotplug_arrival:
  "di_has_cb (b_disco ctx) \<Longrightarrow> on_hotplug env now dev True ctx =
    (ctx\<lparr>b_disco := fst (trampoline env dev True (b_disco ctx)),
         b_pending := b_pending ctx @ [\<lparr>p_cam = build env dev True, p_arrived = now, p_last = c_readiness (build env dev True)\<rparr>]\<rparr>,
     [post (b_events_port ctx) kUpdate (Some (to_record (build env dev True) 0))])"
  by (simp add: on_hotplug_callback hotplug_callback_def trampoline_def Let_def)

lemma fire_attached_exact:
  assumes "di_has_cb (b_disco ctx)"
  shows "let (ctx', out) = fire_attached attached ctx in
    out = map (\<lambda>(env, now, dev). post (b_events_port ctx) kUpdate (Some (to_record (build env dev True) 0))) attached \<and>
    map p_cam (b_pending ctx') = map p_cam (b_pending ctx) @ map (\<lambda>(env, now, dev). build env dev True) attached \<and>
    b_worker ctx' = b_worker ctx \<and> b_events_port ctx' = b_events_port ctx"
  using assms
proof (induction attached arbitrary: ctx)
  case (Cons a attached)
  obtain env now dev where a: "a = (env, now, dev)" by (cases a)
  let ?ctx = "fst (on_hotplug env now dev True ctx)"
  have "di_has_cb (b_disco ?ctx)" using Cons.prems by (simp add: on_hotplug_arrival trampoline_def Let_def)
  from Cons.IH [OF this] Cons.prems show ?case by (simp add: a on_hotplug_arrival split_beta Let_def)
qed simp

lemma rescan_reports_not_ready:
  assumes "rescan_section env devices ctx = (ctx', out)" "p \<in> set out"
  shows "\<exists>rec. post_rec p = Some rec \<and> r_readiness rec \<noteq> readiness_value kL3Ready"
proof -
  have "readiness_value s \<noteq> readiness_value kL3Ready" if "s \<noteq> kL3Ready" for s using that by (cases s) simp_all
  then show ?thesis using assms enumerate_never_ready [of env devices "b_disco ctx"]
    by (auto simp: rescan_section_def post_def to_record_def Let_def split: if_splits prod.splits)
qed

text \<open>
  Creation fails exactly when libusb cannot be initialised, has no hotplug support or
  refuses the registration. Otherwise every device already attached has been announced and is
  pending, in order, before the worker starts, hence before it posts the sentinel.
\<close>

lemma create_announces:
  "let (handle, out) = gopro_discovery_create init_ok capability reg attached port vid in
   (handle = None \<longleftrightarrow> \<not> (init_ok \<and> capability \<noteq> 0 \<and> reg = 0)) \<and>
   (case handle of None \<Rightarrow> True
    | Some ctx \<Rightarrow> b_worker ctx = WStart \<and> b_events_port ctx = port \<and>
        out = map (\<lambda>(env, now, dev). post port kUpdate (Some (to_record (build env dev True) 0))) attached \<and>
        map p_cam (b_pending ctx) = map (\<lambda>(env, now, dev). build env dev True) attached)"
proof (cases "init_ok \<and> capability \<noteq> 0")
  case False
  then show ?thesis
    by (auto simp: gopro_discovery_create_def discovery_create_def hotplug_supported_def)
next
  case True
  define d where "d = fst (discovery_watch capability reg
    \<lparr>di_vid = (if vid = 0 then kGoProVid else vid), di_watching = False, di_has_cb = False, di_cache = (\<lambda>s. None)\<rparr>)"
  have "di_has_cb (b_disco (new_context port d))"
    using True by (simp add: d_def new_context_def discovery_watch_def hotplug_supported_def Let_def)
  from fire_attached_exact [OF this, of attached] True show ?thesis
    by (simp add: gopro_discovery_create_def discovery_create_def hotplug_supported_def discovery_watch_def
        d_def new_context_def split_beta Let_def)
qed

section \<open>Properties\<close>

text \<open>
  C13. A pass of the worker does what it is for, in every reachable state: each pending camera
  is looked at once more; it stays exactly when it is neither ready nor gone and its budget is
  not used up; and it is reported, once, with its new state, exactly when its stage changed or
  it is dropped. So Dart always learns the terminal state, also of a camera that stalled.
\<close>

theorem pass_reports_and_drops:
  assumes "bridge_run (new_context port disco) ls outs ctx"
  shows "settle_section looks ctx =
    (ctx\<lparr>b_pending := map (\<lambda>(l, p). looked l p)
       (filter (\<lambda>(l, p). stays (b_timeout_ms ctx) l p) (with_looks looks 0 (b_pending ctx)))\<rparr>,
     concat (map (\<lambda>(l, p). report (b_events_port ctx) (b_timeout_ms ctx) l p) (with_looks looks 0 (b_pending ctx))))"
proof (rule settle_section_exact)
  show "b_inv ctx" using bridge_run_inv [OF assms] by (simp add: b_inv_def new_context_def)
qed

definition demo_disco :: Discovery where
  "demo_disco = \<lparr>di_vid = kGoProVid, di_watching = True, di_has_cb = True, di_cache = (\<lambda>s. None)\<rparr>"

definition demo_arrival :: "BridgeLabel list" where
  "demo_arrival = [LStart, LCheck, LHotplug demo_env 0 demo_device True]"

definition demo_ctx :: BridgeContext where
  "demo_ctx = fst (on_hotplug demo_env 0 demo_device True ((new_context 7 demo_disco)\<lparr>b_worker := WPump\<rparr>))"

lemma demo_ctx_simps: "b_worker demo_ctx = WPump" "b_timeout_ms demo_ctx = 10000" "b_events_port demo_ctx = 7"
  "di_has_cb (b_disco demo_ctx)"
  "b_pending demo_ctx = [\<lparr>p_cam = build demo_env demo_device True, p_arrived = 0,
     p_last = c_readiness (build demo_env demo_device True)\<rparr>]"
  by (simp_all add: demo_ctx_def new_context_def demo_disco_def on_hotplug_arrival trampoline_def Let_def)

lemma demo_run:
  "bridge_run (new_context 7 demo_disco) demo_arrival
     [post 7 kSentinel None, post 7 kUpdate (Some (to_record (build demo_env demo_device True) 0))] demo_ctx"
proof -
  let ?c = "new_context 7 demo_disco"
  have "bridge_step ?c LStart [post 7 kSentinel None] (?c\<lparr>b_worker := WCheck\<rparr>)"
    using bridge_step.start [of ?c] by (simp add: new_context_def)
  moreover have "bridge_step (?c\<lparr>b_worker := WCheck\<rparr>) LCheck [] (?c\<lparr>b_worker := WPump\<rparr>)"
    using bridge_step.check [of "?c\<lparr>b_worker := WCheck\<rparr>"] by (simp add: new_context_def)
  moreover have "bridge_step (?c\<lparr>b_worker := WPump\<rparr>) (LHotplug demo_env 0 demo_device True)
      [post 7 kUpdate (Some (to_record (build demo_env demo_device True) 0))] demo_ctx"
    by (rule bridge_step.hotplug)
       (simp_all add: demo_ctx_def on_hotplug_arrival demo_disco_def new_context_def)
  ultimately show ?thesis unfolding demo_arrival_def
    using bridge_run.intros by (metis append_Cons append_Nil append_Nil2)
qed

theorem pass_reports_and_drops_witness:
  "snd (settle_section (\<lambda>i. (demo_env, 20000000000)) demo_ctx) =
     [post 7 kUpdate (Some (to_record (advance_readiness demo_env (build demo_env demo_device True) 8080 500) 20000))] \<and>
   b_pending (fst (settle_section (\<lambda>i. (demo_env, 20000000000)) demo_ctx)) = []"
proof -
  have "\<not> stays 10000 (demo_env, 20000000000) p" if "p_arrived p = 0" for p
    using that by (simp add: stays_def ms_since_def)
  then show ?thesis
    using pass_reports_and_drops [OF demo_run, of "\<lambda>i. (demo_env, 20000000000)"]
    by (simp add: demo_ctx_simps report_def looked_def ms_since_def Let_def)
qed

text \<open>
  A camera that left stays gone: the departure of a device is posted as such under its
  name, and after it, whatever the worker, the other devices and the client do, no update of
  that name is posted until libusb reports the device again, by an arrival or in a re-scan.
\<close>

lemma departed_camera_not_reported:
  assumes "bridge_run ctx (LHotplug env now gone False # ls) outs ctx'" "di_has_cb (b_disco ctx)"
    and "list_all (\<lambda>l. \<not> announces (device_name gone) l) ls"
  shows "\<exists>rec rest. outs = post (b_events_port ctx) kLeft (Some rec) # rest \<and>
    r_sysfsName rec = device_name gone \<and> list_all (\<lambda>p. \<not> updates (device_name gone) p) rest"
  using assms
  by (elim bridge_runE) (fastforce dest!: departure_forgets intro: bridge_run_forgotten)

text \<open>
  Dart receives what the bridge means: every message posted in any run of the threads goes
  to the events port and is decoded in Dart to the kind it was posted with and, for all but the
  sentinel, to the camera whose fields are the native ones, with the stage and the serial
  source of the same name, provided no string is too long for its length prefix.
\<close>

lemma posted_events_decoded:
  assumes "bridge_run ctx ls outs ctx'" "p \<in> set outs" "\<And>rec. post_rec p = Some rec \<Longrightarrow> camera_ok rec"
  shows "post_port p = b_events_port ctx \<and>
    (post_kind p = kSentinel \<and> decodeEvent utf8 nostr (post_bytes p) = Inr (Some (kSentinel, None)) \<or>
     (\<exists>c e d. post_rec p = Some (to_record c e) \<and>
        decodeEvent utf8 nostr (post_bytes p) = Inr (Some (post_kind p, Some d)) \<and>
        d = dart_camera utf8 nostr (to_record c e) \<and>
        d_readiness d = dart_stage (c_readiness c) \<and> d_serialSource d = dart_source (c_serial_source c)))"
proof -
  have "proper (b_events_port ctx) p" using bridge_run_proper [OF assms(1)] assms(2) by (simp add: list_all_iff)
  then consider (sentinel) "p = post (b_events_port ctx) kSentinel None"
    | (camera) kind c e where "kind \<noteq> kSentinel" "p = post (b_events_port ctx) kind (Some (to_record c e))"
    unfolding proper_def by blast
  then show ?thesis
  proof cases
    case sentinel
    then show ?thesis using decode_sentinel [of utf8 nostr] by (simp add: post_def post_bytes_def)
  next
    case camera
    then have "camera_ok (to_record c e)" using assms(3) by (simp add: post_def)
    from decode_update [OF this camera(1), of utf8 nostr] camera show ?thesis
      by (simp add: post_def post_bytes_def) (auto simp: dart_camera_def to_record_def Let_def)
  qed
qed

text \<open>
  C34. Destroying the bridge ends: once the worker has been told to stop, in any interleaving of
  its sections with libusb's events and client calls it runs at most four more sections, it
  can always run one until it is done, and after that nothing is posted any more, so the join
  returns and no post can follow it.
\<close>

theorem destroy_terminates:
  assumes "b_stop ctx" "bridge_run ctx ls outs ctx'"
  shows "length (filter is_section ls) \<le> 4 \<and>
    (b_worker ctx' \<noteq> WDone \<longrightarrow> (\<exists>l out ctx''. is_section l \<and> bridge_step ctx' l out ctx'')) \<and>
    (b_worker ctx' = WDone \<longrightarrow> (\<forall>ls' outs' ctx''. bridge_run ctx' ls' outs' ctx'' \<longrightarrow> outs' = []))"
proof -
  have "sections_left pc \<le> 4" for pc by (cases pc) simp_all
  then have "length (filter is_section ls) \<le> 4"
    using bridge_run_stopping [OF assms(2,1)] by (metis add_leD1)
  then show ?thesis using section_enabled done_run_silent by blast
qed

theorem destroy_terminates_witness:
  "b_stop (demo_ctx\<lparr>b_stop := True\<rparr>) \<and>
   (\<exists>l out ctx''. is_section l \<and> bridge_step (demo_ctx\<lparr>b_stop := True\<rparr>) l out ctx'')"
proof -
  have "bridge_run (demo_ctx\<lparr>b_stop := True\<rparr>) [] [] (demo_ctx\<lparr>b_stop := True\<rparr>)" by simp
  from destroy_terminates [OF _ this] show ?thesis by (simp add: demo_ctx_simps)
qed

end
