(* ===== verification/Dart_Discovery.thy ===== *)
theory Dart_Discovery
  imports Gopro_Bridge Dart_Native "HOL-Library.AList"
begin

text \<open>
  The public discovery class, \<open>GoProDiscovery\<close> of \<open>lib/src/discovery.dart\<close>, over the native bridge of
  \<open>Gopro_Bridge\<close> and the decoder of \<open>Gopro_Types\<close>: the receiver of the events port, the map of
  current cameras, the three streams and \<open>firstReady\<close>. Decoded text is a parameter, as in \<open>Gopro_Types\<close>.
  The port delivers what was posted to it in the order of the posts. Streams are broadcast
  streams: what is added to one is an output, and a listener that comes later does not see it.

  The lemmas show that the map holds, for every name, what the last event about it said; that
  a camera which left is not listed; and that \<open>start\<close> completes with all attached cameras listed.
\<close>

section \<open>Data\<close>

text \<open>
  \<open>gd_handle\<close> is whether \<open>_handle\<close> is not null, \<open>gd_listening\<close> whether \<open>_sub\<close> is not cancelled, \<open>gd_started\<close>
  whether the completer of \<open>start\<close> is completed, \<open>gd_closed\<close> whether the two controllers are closed.
\<close>

record 's GoProDiscovery =
  gd_handle :: bool
  gd_listening :: bool
  gd_current :: "('s \<times> 's GoProCamera) list"
  gd_started :: bool
  gd_closed :: bool

datatype 's DiscoveryOut =
    AddUpdate "'s GoProCamera"
  | AddDeparture "'s GoProCamera"
  | StartCompleted
  | Undecodable ReadError
  | NullCamera

definition new_discovery :: "'s GoProDiscovery" where
  "new_discovery = \<lparr>gd_handle = True, gd_listening = True, gd_current = [], gd_started = False, gd_closed = False\<rparr>"

definition cam_isReady :: "'s GoProCamera \<Rightarrow> bool" where
  "cam_isReady c \<longleftrightarrow> d_readiness c = rL3Ready"

section \<open>Receiving\<close>

definition on_update :: "'s GoProCamera \<Rightarrow> 's GoProDiscovery \<Rightarrow> 's GoProDiscovery \<times> 's DiscoveryOut list" where
  "on_update c g =
     (g\<lparr>gd_current := AList.update (d_sysfsName c) c (gd_current g)\<rparr>, if gd_closed g then [] else [AddUpdate c])"

definition on_left :: "'s GoProCamera \<Rightarrow> 's GoProDiscovery \<Rightarrow> 's GoProDiscovery \<times> 's DiscoveryOut list" where
  "on_left c g =
     (g\<lparr>gd_current := AList.delete (d_sysfsName c) (gd_current g)\<rparr>, if gd_closed g then [] else [AddDeparture c])"

definition on_message :: "(bytes \<Rightarrow> 's) \<Rightarrow> 's \<Rightarrow> 's GoProDiscovery \<Rightarrow> Dart_CObject \<Rightarrow>
    's GoProDiscovery \<times> 's DiscoveryOut list" where
  "on_message utf8 nostr g message =
     (case as_uint8list message of
        None \<Rightarrow> (g, [])
      | Some data \<Rightarrow>
          (case decodeEvent utf8 nostr data of
             Inl e \<Rightarrow> (g, [Undecodable e])
           | Inr None \<Rightarrow> (g, [])
           | Inr (Some (kind, camera)) \<Rightarrow>
               (case kind of
                  kSentinel \<Rightarrow> (g\<lparr>gd_started := True\<rparr>, if gd_started g then [] else [StartCompleted])
                | kUpdate \<Rightarrow> (case camera of None \<Rightarrow> (g, [NullCamera]) | Some c \<Rightarrow> on_update c g)
                | kLeft \<Rightarrow> (case camera of None \<Rightarrow> (g, [NullCamera]) | Some c \<Rightarrow> on_left c g))))"

definition port_delivers :: "(bytes \<Rightarrow> 's) \<Rightarrow> 's \<Rightarrow> 's GoProDiscovery \<Rightarrow> Dart_CObject \<Rightarrow>
    's GoProDiscovery \<times> 's DiscoveryOut list" where
  "port_delivers utf8 nostr g message = (if gd_listening g then on_message utf8 nostr g message else (g, []))"

section \<open>The caller's side\<close>

text \<open>
  \<open>start\<close>: a null handle is an error; otherwise the timeout is set, and the future completes when
  the sentinel has been delivered.
\<close>

definition discovery_start :: "BridgeContext option \<Rightarrow> 32 word \<Rightarrow> unit + (BridgeContext option \<times> 's GoProDiscovery)" where
  "discovery_start handle timeout_ms =
     (if handle = None then Inl ()
      else Inr (gopro_discovery_set_timeout handle timeout_ms, new_discovery))"

definition discovery_cameras :: "'s GoProDiscovery \<Rightarrow> 's GoProCamera list" where
  "discovery_cameras g = map snd (gd_current g)"

text \<open>\<open>distinct\<close> on a stream compares each element with the last one it let through.\<close>

fun distinct_from :: "('a \<Rightarrow> 'a \<Rightarrow> bool) \<Rightarrow> 'a option \<Rightarrow> 'a list \<Rightarrow> 'a list" where
  "distinct_from same prev [] = []"
| "distinct_from same prev (x # xs) =
     (if (case prev of None \<Rightarrow> False | Some p \<Rightarrow> same p x) then distinct_from same prev xs
      else x # distinct_from same (Some x) xs)"

definition ready_stream :: "'s GoProCamera list \<Rightarrow> 's GoProCamera list" where
  "ready_stream arriving =
     distinct_from (\<lambda>a b. d_sysfsName a = d_sysfsName b) None (filter cam_isReady arriving)"

text \<open>\<open>firstReady\<close>, given the updates that arrive before the timeout.\<close>

definition first_ready :: "'s GoProDiscovery \<Rightarrow> 's GoProCamera list \<Rightarrow> 's GoProCamera option" where
  "first_ready g arriving =
     (case List.find cam_isReady (discovery_cameras g) of
        Some c \<Rightarrow> Some c
      | None \<Rightarrow> (case ready_stream arriving of [] \<Rightarrow> None | c # _ \<Rightarrow> Some c))"

text \<open>What \<open>rescan\<close> and \<open>close\<close> do to the native side, as the steps of the client's thread.\<close>

definition discovery_rescan :: "'s GoProDiscovery \<Rightarrow> BridgeLabel list" where
  "discovery_rescan g = (if gd_handle g then [LClientRescan] else [])"

definition discovery_close :: "'s GoProDiscovery \<Rightarrow> 's GoProDiscovery \<times> BridgeLabel list" where
  "discovery_close g = (g\<lparr>gd_handle := False, gd_listening := False, gd_closed := True\<rparr>, if gd_handle g then [LClientStop] else [])"

section \<open>What a delivered post does\<close>

definition deliver_posts :: "(bytes \<Rightarrow> 's) \<Rightarrow> 's \<Rightarrow> 's GoProDiscovery \<Rightarrow> Post list \<Rightarrow>
    's GoProDiscovery \<times> 's DiscoveryOut list" where
  "deliver_posts utf8 nostr g ps = run (port_delivers utf8 nostr) g (map (post_object \<circ> post_bytes) ps)"

definition sendable_post :: "Post \<Rightarrow> bool" where
  "sendable_post p \<longleftrightarrow> (case post_rec p of None \<Rightarrow> True | Some rec \<Rightarrow> camera_ok rec)"

lemma deliver_posts_simps [simp]:
  "deliver_posts utf8 nostr g [] = (g, [])"
  "deliver_posts utf8 nostr g (p # ps) =
     (let (g1, out1) = port_delivers utf8 nostr g (post_object (post_bytes p)); (g2, out2) = deliver_posts utf8 nostr g1 ps
      in (g2, out1 @ out2))"
  by (simp_all add: deliver_posts_def)

lemma deliver_posts_append:
  "deliver_posts utf8 nostr g (ps @ qs) =
     (let (g1, out1) = deliver_posts utf8 nostr g ps; (g2, out2) = deliver_posts utf8 nostr g1 qs in (g2, out1 @ out2))"
  by (simp add: deliver_posts_def run_append)

text \<open>A post of the bridge, as the receiver takes it.\<close>

lemma on_message_sentinel [simp]:
  "on_message utf8 nostr g (post_object (post_bytes (post port kSentinel None))) =
     (g\<lparr>gd_started := True\<rparr>, if gd_started g then [] else [StartCompleted])"
  using decode_sentinel [of utf8 nostr] by (simp add: on_message_def post_bytes_def post_def)

lemma on_message_update [simp]:
  "camera_ok rec \<Longrightarrow> on_message utf8 nostr g (post_object (post_bytes (post port kUpdate (Some rec)))) =
     on_update (dart_camera utf8 nostr rec) g"
  using decode_update [of rec kUpdate utf8 nostr] by (simp add: on_message_def post_bytes_def post_def)

lemma on_message_left [simp]:
  "camera_ok rec \<Longrightarrow> on_message utf8 nostr g (post_object (post_bytes (post port kLeft (Some rec)))) =
     on_left (dart_camera utf8 nostr rec) g"
  using decode_update [of rec kLeft utf8 nostr] by (simp add: on_message_def post_bytes_def post_def)

text \<open>The reference: for each name, what the last event about it says.\<close>

definition last_word :: "(string \<Rightarrow> 's) \<Rightarrow> (CameraRecord \<Rightarrow> 's GoProCamera) \<Rightarrow> Post \<Rightarrow>
    ('s \<rightharpoonup> 's GoProCamera) \<Rightarrow> ('s \<rightharpoonup> 's GoProCamera)" where
  "last_word name camera p known =
     (case post_rec p of
        None \<Rightarrow> known
      | Some rec \<Rightarrow> known(name (r_sysfsName rec) := (if post_kind p = kUpdate then Some (camera rec) else None)))"

lemma dart_camera_name [simp]: "d_sysfsName (dart_camera utf8 nostr rec) = dart_string utf8 nostr (r_sysfsName rec)"
  by (simp add: dart_camera_def Let_def)

lemma map_of_AList: "map_of (AList.update k v xs) = (map_of xs)(k \<mapsto> v)" "map_of (AList.delete k xs) = (map_of xs)(k := None)"
  by (simp_all add: update_conv' delete_conv')

text \<open>What a message leaves alone, and that the map has one entry for a name.\<close>

definition gd_wf :: "'s GoProDiscovery \<Rightarrow> bool" where
  "gd_wf g \<longleftrightarrow> gd_listening g \<and> distinct (map fst (gd_current g)) \<and> (\<forall>(n, c) \<in> set (gd_current g). d_sysfsName c = n)"

abbreviation heard :: "(bytes \<Rightarrow> 's) \<Rightarrow> 's \<Rightarrow> Post \<Rightarrow> 's GoProDiscovery \<Rightarrow> 's GoProDiscovery" where
  "heard utf8 nostr p g \<equiv> fst (port_delivers utf8 nostr g (post_object (post_bytes p)))"

lemma update_set: "x \<in> set (AList.update k v xs) \<Longrightarrow> x = (k, v) \<or> x \<in> set xs"
  by (induction xs) (auto split: if_splits)

lemma post_cases:
  assumes "proper port p" "sendable_post p"
  obtains (sentinel) "p = post port kSentinel None"
    | (update) rec where "camera_ok rec" "p = post port kUpdate (Some rec)"
    | (left) rec where "camera_ok rec" "p = post port kLeft (Some rec)"
proof -
  from assms(1) consider "p = post port kSentinel None"
    | kind c e where "kind \<noteq> kSentinel" "p = post port kind (Some (to_record c e))" by (auto simp: proper_def)
  then show thesis
  proof cases
    case 1
    then show thesis by (rule sentinel)
  next
    case (2 kind c e)
    then have "camera_ok (to_record c e)" using assms(2) by (simp add: sendable_post_def post_def)
    with 2 show thesis using update left by (cases kind) auto
  qed
qed

lemma heard_wf:
  assumes "proper port p" "sendable_post p" "gd_wf g"
  shows "gd_wf (heard utf8 nostr p g)"
  using assms(1,2)
proof (cases rule: post_cases)
  case sentinel
  then show ?thesis using assms(3) by (simp add: port_delivers_def gd_wf_def)
next
  case (update rec)
  then show ?thesis using assms(3) update_set by (fastforce simp: port_delivers_def gd_wf_def on_update_def distinct_update)
next
  case (left rec)
  then show ?thesis using assms(3)
    by (auto simp: port_delivers_def gd_wf_def on_left_def distinct_delete AList.delete_eq distinct_map_filter)
qed

lemma heard_mirrors:
  assumes "proper port p" "sendable_post p" "gd_wf g"
  shows "map_of (gd_current (heard utf8 nostr p g)) =
    last_word (dart_string utf8 nostr) (dart_camera utf8 nostr) p (map_of (gd_current g))"
  using assms(1,2)
proof (cases rule: post_cases)
  case sentinel
  then have "post_rec p = None" by (simp add: post_def)
  with sentinel show ?thesis using assms(3) by (simp add: port_delivers_def gd_wf_def last_word_def)
next
  case (update rec)
  then have "post_rec p = Some rec" "post_kind p = kUpdate" by (simp_all add: post_def)
  with update show ?thesis using assms(3)
    by (simp add: port_delivers_def gd_wf_def on_update_def last_word_def map_of_AList)
next
  case (left rec)
  then have "post_rec p = Some rec" "post_kind p = kLeft" by (simp_all add: post_def)
  with left show ?thesis using assms(3)
    by (simp add: port_delivers_def gd_wf_def on_left_def last_word_def map_of_AList)
qed

lemma deliver_mirrors:
  assumes "list_all (proper port) ps" "list_all sendable_post ps" "gd_wf g"
  shows "gd_wf (fst (deliver_posts utf8 nostr g ps)) \<and>
    map_of (gd_current (fst (deliver_posts utf8 nostr g ps))) =
      fold (last_word (dart_string utf8 nostr) (dart_camera utf8 nostr)) ps (map_of (gd_current g))"
  using assms
proof (induction ps arbitrary: g)
  case (Cons p ps)
  then have p: "proper port p" "sendable_post p" by simp_all
  from Cons.IH [OF _ _ heard_wf [OF p Cons.prems(3), of utf8 nostr]] Cons.prems(1,2)
    heard_mirrors [OF p Cons.prems(3), of utf8 nostr]
  show ?case by (simp add: split_beta)
qed simp

text \<open>The last word, as a fact about the sequence of posts.\<close>

definition about :: "(string \<Rightarrow> 's) \<Rightarrow> 's \<Rightarrow> Post \<Rightarrow> bool" where
  "about name n p \<longleftrightarrow> map_option (name \<circ> r_sysfsName) (post_rec p) = Some n"

lemma last_word_other: "\<not> about name n p \<Longrightarrow> last_word name camera p known n = known n"
  by (auto simp: last_word_def about_def split: option.splits)

lemma last_word_same: "about name n p \<Longrightarrow>
    last_word name camera p known n = (if post_kind p = kUpdate then map_option camera (post_rec p) else None)"
  by (auto simp: last_word_def about_def)

lemma last_word_others: "list_all (\<lambda>p. \<not> about name n p) ps \<Longrightarrow> fold (last_word name camera) ps known n = known n"
  by (induction ps arbitrary: known) (simp_all add: last_word_other)

text \<open>The latest post about a name decides.\<close>

definition latest :: "(string \<Rightarrow> 's) \<Rightarrow> 's \<Rightarrow> Post list \<Rightarrow> Post option" where
  "latest name n ps = find (about name n) (rev ps)"

lemma latest_snoc [simp]: "latest name n (ps @ [p]) = (if about name n p then Some p else latest name n ps)"
  by (simp add: latest_def)

lemma last_word_latest:
  "fold (last_word name camera) ps known n =
   (case latest name n ps of None \<Rightarrow> known n
    | Some p \<Rightarrow> if post_kind p = kUpdate then map_option camera (post_rec p) else None)"
proof (induction ps rule: rev_induct)
  case Nil
  show ?case by (simp add: latest_def)
next
  case (snoc p ps)
  then show ?case by (cases "about name n p") (simp_all add: last_word_same last_word_other)
qed

section \<open>From the threads of the bridge to the list of cameras\<close>

lemma new_discovery_wf [simp]: "gd_wf new_discovery"
  by (simp add: gd_wf_def new_discovery_def)

lemma new_discovery_empty: "gd_current new_discovery = []"
  by (simp add: new_discovery_def)

lemma new_discovery_fresh: "\<not> gd_closed new_discovery" "\<not> gd_started new_discovery" "discovery_cameras new_discovery = []"
  by (simp_all add: new_discovery_def discovery_cameras_def)

lemma cameras_lookup:
  assumes "gd_wf g"
  shows "c \<in> set (discovery_cameras g) \<longleftrightarrow> map_of (gd_current g) (d_sysfsName c) = Some c"
proof -
  have "(\<exists>n. (n, c) \<in> set (gd_current g)) \<longleftrightarrow> (d_sysfsName c, c) \<in> set (gd_current g)"
    using assms by (auto simp: gd_wf_def)
  moreover have "c \<in> set (discovery_cameras g) \<longleftrightarrow> (\<exists>n. (n, c) \<in> set (gd_current g))"
    by (force simp: discovery_cameras_def)
  ultimately show ?thesis using assms by (simp add: gd_wf_def)
qed

lemma camera_named:
  assumes "gd_wf g"
  shows "n \<in> d_sysfsName ` set (discovery_cameras g) \<longleftrightarrow> map_of (gd_current g) n \<noteq> None"
proof
  assume "n \<in> d_sysfsName ` set (discovery_cameras g)"
  then obtain c where "c \<in> set (discovery_cameras g)" "d_sysfsName c = n" by blast
  then show "map_of (gd_current g) n \<noteq> None" using cameras_lookup [OF assms, of c] by simp
next
  assume "map_of (gd_current g) n \<noteq> None"
  then obtain c where c: "map_of (gd_current g) n = Some c" by auto
  then have "d_sysfsName c = n" using assms map_of_SomeD [OF c] by (auto simp: gd_wf_def)
  with c cameras_lookup [OF assms, of c] show "n \<in> d_sysfsName ` set (discovery_cameras g)" by blast
qed

lemma listed_names: "gd_wf g \<Longrightarrow> d_sysfsName ` set (discovery_cameras g) = dom (map_of (gd_current g))"
  using camera_named by (fastforce simp: dom_def)

lemma to_record_name: "r_sysfsName (to_record c e) = c_sysfs_name c"
  by (simp add: to_record_def)

text \<open>The posts of a creation and of any run after it.\<close>

lemma created_proper:
  assumes "gopro_discovery_create init_ok capability reg attached port vid = (Some ctx, out)"
  shows "list_all (proper port) out" "b_worker ctx = WStart" "b_events_port ctx = port"
    "out = map (\<lambda>(env, now, dev). post port kUpdate (Some (to_record (build env dev True) 0))) attached"
proof -
  show "b_worker ctx = WStart" "b_events_port ctx = port"
    and out: "out = map (\<lambda>(env, now, dev). post port kUpdate (Some (to_record (build env dev True) 0))) attached"
    using create_announces [of init_ok capability reg attached port vid] assms by simp_all
  show "list_all (proper port) out" unfolding out by (auto simp: list_all_iff)
qed

text \<open>The worker's first post is the sentinel.\<close>

lemma first_post_sentinel:
  "bridge_run ctx ls outs ctx' \<Longrightarrow> b_worker ctx = WStart \<Longrightarrow>
   outs = [] \<or> (\<exists>rest. outs = post (b_events_port ctx) kSentinel None # rest)"
proof (induction rule: bridge_run.induct)
  case (step ctx l out ctx1 ls outs ctx2)
  from step.hyps(1) step.prems have
    "out = [post (b_events_port ctx) kSentinel None] \<or> out = [] \<and> b_worker ctx1 = WStart \<and> b_events_port ctx1 = b_events_port ctx"
    by (cases rule: bridge_step.cases) (auto simp: client_defs)
  with step.IH show ?case by auto
qed simp

lemma sent_ok: "list_all sendable_post ps \<Longrightarrow> p \<in> set ps \<Longrightarrow> post_rec p = Some rec \<Longrightarrow> camera_ok rec"
  by (auto simp: list_all_iff sendable_post_def split: option.splits)

lemma heard_departure:
  assumes "gd_wf g" "camera_ok rec"
  shows "map_of (gd_current (heard utf8 nostr (post port kLeft (Some rec)) g)) (dart_string utf8 nostr (r_sysfsName rec)) = None"
    "snd (port_delivers utf8 nostr g (post_object (post_bytes (post port kLeft (Some rec))))) =
       (if gd_closed g then [] else [AddDeparture (dart_camera utf8 nostr rec)])"
  using assms by (simp_all add: port_delivers_def gd_wf_def on_left_def map_of_AList)

text \<open>Posts about other cameras, and posts that are no updates, leave an unlisted camera unlisted.\<close>

lemma unlisted_stays:
  assumes "list_all (\<lambda>p. about name n p \<longrightarrow> post_kind p \<noteq> kUpdate) ps" "known n = None"
  shows "fold (last_word name camera) ps known n = None"
  using assms
proof (induction ps arbitrary: known)
  case (Cons p ps)
  then have "last_word name camera p known n = None" by (cases "about name n p") (simp_all add: last_word_same last_word_other)
  with Cons show ?case by simp
qed simp

lemma not_updates_about:
  assumes "\<not> updates n p" "\<And>rec. post_rec p = Some rec \<Longrightarrow> name (r_sysfsName rec) = name n \<Longrightarrow> r_sysfsName rec = n"
  shows "about name (name n) p \<longrightarrow> post_kind p \<noteq> kUpdate"
  using assms by (auto simp: updates_def about_def)

text \<open>Creation announces the attached cameras; delivered, they are what is listed.\<close>

lemma deliver_attached:
  assumes "list_all (\<lambda>c. camera_ok (to_record c 0)) cs" "gd_wf g" "\<not> gd_closed g"
  shows "let (g', out) = deliver_posts utf8 nostr g (map (\<lambda>c. post port kUpdate (Some (to_record c 0))) cs) in
    gd_wf g' \<and> \<not> gd_closed g' \<and> gd_started g' = gd_started g \<and>
    out = map (\<lambda>c. AddUpdate (dart_camera utf8 nostr (to_record c 0))) cs \<and>
    d_sysfsName ` set (discovery_cameras g') =
      d_sysfsName ` set (discovery_cameras g) \<union> (\<lambda>c. dart_string utf8 nostr (c_sysfs_name c)) ` set cs"
  using assms
proof (induction cs arbitrary: g)
  case (Cons c cs)
  let ?p = "post port kUpdate (Some (to_record c 0))" and ?d = "dart_camera utf8 nostr (to_record c 0)"
  have h: "port_delivers utf8 nostr g (post_object (post_bytes ?p)) = on_update ?d g"
    using Cons.prems by (simp add: port_delivers_def gd_wf_def)
  define g1 where "g1 = fst (on_update ?d g)"
  have "gd_wf g1" using heard_wf [of port ?p g utf8 nostr] Cons.prems h by (simp add: g1_def sendable_post_def post_def proper_def) blast
  moreover have "\<not> gd_closed g1" "gd_started g1 = gd_started g" "snd (on_update ?d g) = [AddUpdate ?d]"
    using Cons.prems by (simp_all add: g1_def on_update_def)
  moreover have "d_sysfsName ` set (discovery_cameras g1) =
      insert (dart_string utf8 nostr (c_sysfs_name c)) (d_sysfsName ` set (discovery_cameras g))"
    unfolding listed_names [OF calculation(1)] listed_names [OF Cons.prems(2)]
    by (simp add: g1_def on_update_def map_of_AList to_record_name)
  ultimately show ?case using Cons.IH [of g1] Cons.prems(1) h by (simp add: split_beta g1_def Let_def)
qed simp
section \<open>The ready stream, and closing\<close>

text \<open>Every name that becomes ready is let through; a name twice in a row is not.\<close>

lemma distinct_from_keys:
  "f ` set (distinct_from (\<lambda>a b. f a = f b) prev xs) \<union> f ` set_option prev = f ` set xs \<union> f ` set_option prev"
proof (induction xs arbitrary: prev)
  case (Cons x xs)
  from Cons.IH [of "Some x"] Cons.IH [of prev] show ?case by (cases prev) (auto split: if_splits)
qed simp

lemma ready_stream_names: "d_sysfsName ` set (ready_stream us) = d_sysfsName ` {c \<in> set us. cam_isReady c}"
  using distinct_from_keys [of d_sysfsName None "filter cam_isReady us"] by (simp add: ready_stream_def)

text \<open>
  A camera that is plugged into the same port again, with no other camera ready in between, does
  not appear again, although the documentation says once per attachment.
\<close>

lemma replugged_camera_not_ready_again:
  "cam_isReady c \<Longrightarrow> cam_isReady c' \<Longrightarrow> d_sysfsName c' = d_sysfsName c \<Longrightarrow> ready_stream [c, c'] = [c]"
  by (simp add: ready_stream_def)

lemma distinct_from_subset: "set (distinct_from same prev xs) \<subseteq> set xs"
  by (induction same prev xs rule: distinct_from.induct) (auto split: if_splits)

lemma ready_stream_subset: "c \<in> set (ready_stream us) \<Longrightarrow> c \<in> set us \<and> cam_isReady c"
  using distinct_from_subset unfolding ready_stream_def by fastforce

lemma ready_stream_empty: "ready_stream us = [] \<longleftrightarrow> (\<forall>c \<in> set us. \<not> cam_isReady c)"
proof -
  have "ready_stream us = [] \<longleftrightarrow> d_sysfsName ` set (ready_stream us) = {}" by simp
  then show ?thesis unfolding ready_stream_names by auto
qed

text \<open>\<open>firstReady\<close> finds a ready camera if one is listed or becomes ready in time.\<close>

lemma first_ready_exact:
  "first_ready g us = None \<longleftrightarrow> (\<forall>c \<in> set (discovery_cameras g) \<union> set us. \<not> cam_isReady c)"
  "first_ready g us = Some c \<Longrightarrow> cam_isReady c \<and> c \<in> set (discovery_cameras g) \<union> set us"
proof -
  have f: "List.find cam_isReady xs = None \<longleftrightarrow> (\<forall>c \<in> set xs. \<not> cam_isReady c)"
    "List.find cam_isReady xs = Some c \<Longrightarrow> cam_isReady c \<and> c \<in> set xs" for xs :: "'a GoProCamera list" and c
    by (auto simp: find_None_iff find_Some_iff)
  show "first_ready g us = None \<longleftrightarrow> (\<forall>c \<in> set (discovery_cameras g) \<union> set us. \<not> cam_isReady c)"
    using ready_stream_empty [of us] f(1) [of "discovery_cameras g"] f(2) [of "discovery_cameras g"]
    by (cases "List.find cam_isReady (discovery_cameras g)") (auto simp: first_ready_def split: list.splits)
  show "cam_isReady c \<and> c \<in> set (discovery_cameras g) \<union> set us" if "first_ready g us = Some c"
    using that f ready_stream_subset [of c us] by (auto simp: first_ready_def split: option.splits list.splits)
qed

text \<open>Closing stops the worker once and hears nothing afterwards, however often it is done.\<close>

lemma close_is_final:
  "snd (discovery_close (fst (discovery_close g))) = []"
  "discovery_rescan (fst (discovery_close g)) = []"
  "deliver_posts utf8 nostr (fst (discovery_close g)) ps = (fst (discovery_close g), [])"
proof -
  show "deliver_posts utf8 nostr (fst (discovery_close g)) ps = (fst (discovery_close g), [])"
    by (induction ps) (simp_all add: discovery_close_def port_delivers_def)
qed (simp_all add: discovery_close_def discovery_rescan_def)

section \<open>Properties\<close>

text \<open>
  C8. What the discovery class lists is what the bridge said last: after a creation and any
  run of the two threads, a camera is in \<open>cameras\<close> exactly if the latest post about its name,
  decoded, is an update that carries it. So nothing is lost, invented or kept past a departure
  between the native library and the list, as long as the records fit their length prefixes.
\<close>

theorem cameras_mirror_bridge:
  assumes "gopro_discovery_create init_ok capability reg attached port vid = (Some ctx, announced)"
    and "bridge_run ctx ls outs ctx'" "list_all sendable_post (announced @ outs)"
  shows "c \<in> set (discovery_cameras (fst (deliver_posts utf8 nostr new_discovery (announced @ outs)))) \<longleftrightarrow>
    (\<exists>p rec. latest (dart_string utf8 nostr) (d_sysfsName c) (announced @ outs) = Some p \<and>
       post_kind p = kUpdate \<and> post_rec p = Some rec \<and> c = dart_camera utf8 nostr rec)"
proof -
  define ps where "ps = announced @ outs"
  have "list_all (proper port) ps"
    using created_proper(1,3) [OF assms(1)] bridge_run_proper [OF assms(2)] by (simp add: ps_def)
  from deliver_mirrors [OF this assms(3) [folded ps_def] new_discovery_wf, of utf8 nostr] show ?thesis
    unfolding ps_def [symmetric] by (simp add: cameras_lookup last_word_latest new_discovery_empty)
      (auto split: option.splits)
qed

definition demo_created :: "BridgeContext option \<times> Post list" where
  "demo_created = gopro_discovery_create True 1 0 [(demo_env, 0, demo_device)] 7 0"

lemma demo_created_starts:
  obtains ctx where "demo_created = (Some ctx, [post 7 kUpdate (Some (to_record (build demo_env demo_device True) 0))])"
    "bridge_run ctx [LStart] [post 7 kSentinel None] (ctx\<lparr>b_worker := WCheck\<rparr>)"
proof -
  obtain handle out where h: "demo_created = (handle, out)" by fastforce
  with create_announces [of True 1 0 "[(demo_env, 0, demo_device)]" 7 0] obtain ctx where
    ctx: "demo_created = (Some ctx, [post 7 kUpdate (Some (to_record (build demo_env demo_device True) 0))])"
      "b_worker ctx = WStart" "b_events_port ctx = 7"
    by (cases handle) (auto simp: demo_created_def)
  with bridge_step.start [of ctx] have "bridge_step ctx LStart [post 7 kSentinel None] (ctx\<lparr>b_worker := WCheck\<rparr>)" by simp
  then have "bridge_run ctx [LStart] ([post 7 kSentinel None] @ []) (ctx\<lparr>b_worker := WCheck\<rparr>)"
    by (rule bridge_run.step) simp
  with ctx(1) show thesis by (auto intro: that)
qed

lemma demo_record_ok: "camera_ok (to_record (build demo_env demo_device True) 0)"
proof -
  let ?c = "build demo_env demo_device True"
  have "[c_sysfs_name ?c, c_serial ?c, c_ip ?c, c_netdev ?c, c_netdev_first_seen ?c, c_link_state ?c, c_host_ip ?c] =
      [''2-1'', ''C3461324500123'', ''172.21.123.51'', [], [], [], []]"
    by code_simp
  then show ?thesis by (simp add: camera_ok_def to_record_def)
qed

lemma sendable_simps [simp]:
  "sendable_post (post port kind None)" "sendable_post (post port kind (Some rec)) \<longleftrightarrow> camera_ok rec"
  by (simp_all add: sendable_post_def post_def)

lemma about_post [simp]:
  "about name n (post port kind None) = False"
  "about name n (post port kind (Some rec)) \<longleftrightarrow> name (r_sysfsName rec) = n"
  "post_kind (post port kind r) = kind" "post_rec (post port kind r) = r"
  by (simp_all add: about_def post_def)

theorem cameras_mirror_bridge_witness:
  "dart_camera (map char_of_byte) '''' (to_record (build demo_env demo_device True) 0) \<in>
   set (discovery_cameras (fst (deliver_posts (map char_of_byte) '''' new_discovery
     [post 7 kUpdate (Some (to_record (build demo_env demo_device True) 0)), post 7 kSentinel None])))"
proof -
  obtain ctx where d: "demo_created = (Some ctx, [post 7 kUpdate (Some (to_record (build demo_env demo_device True) 0))])"
    and run: "bridge_run ctx [LStart] [post 7 kSentinel None] (ctx\<lparr>b_worker := WCheck\<rparr>)"
    by (rule demo_created_starts)
  from cameras_mirror_bridge [OF d [unfolded demo_created_def] run,
      of "dart_camera (map char_of_byte) '''' (to_record (build demo_env demo_device True) 0)" "map char_of_byte" "''''"]
  show ?thesis by (simp add: demo_record_ok latest_def to_record_name del: deliver_posts_simps)
qed

text \<open>
  C14. A camera that was unplugged is off the list and stays off: once libusb reports its departure,
  whatever else the threads do, the departure is the first thing delivered to \<open>departures\<close>, and
  \<open>cameras\<close> has no camera of that name until libusb reports the device again. The decoder must
  not give two ports of the run the same text.
\<close>

theorem departed_camera_unlisted:
  assumes "bridge_run ctx (LHotplug env now gone False # ls) outs ctx'" "di_has_cb (b_disco ctx)"
    and "list_all (\<lambda>l. \<not> announces (device_name gone) l) ls"
    and "list_all sendable_post outs" "gd_wf g" "\<not> gd_closed g"
    and "\<And>rec. Some rec \<in> post_rec ` set outs \<Longrightarrow>
      dart_string utf8 nostr (r_sysfsName rec) = dart_string utf8 nostr (device_name gone) \<Longrightarrow> r_sysfsName rec = device_name gone"
  shows "let (g', out) = deliver_posts utf8 nostr g outs; name = dart_string utf8 nostr (device_name gone) in
    (\<exists>c rest. out = AddDeparture c # rest \<and> d_sysfsName c = name) \<and>
    name \<notin> d_sysfsName ` set (discovery_cameras g')"
proof -
  from assms(1) obtain out1 ctx1 rest where s: "bridge_step ctx (LHotplug env now gone False) out1 ctx1"
    and r: "bridge_run ctx1 ls rest ctx'" "outs = out1 @ rest" by (elim bridge_runE)
  from departure_forgets [OF s assms(2)] obtain rec where
    f: "forgotten (device_name gone) ctx1" and o: "out1 = [post (b_events_port ctx) kLeft (Some rec)]" "r_sysfsName rec = device_name gone"
    by blast
  let ?p = "post (b_events_port ctx) kLeft (Some rec)" and ?name = "dart_string utf8 nostr (device_name gone)"
  have outs: "outs = ?p # rest" using r(2) o(1) by simp
  have posts: "list_all (proper (b_events_port ctx)) outs" by (rule bridge_run_proper [OF assms(1)])
  from sent_ok [OF assms(4), of ?p rec] outs have ok: "camera_ok rec" by (simp add: post_def)
  define g1 where "g1 = heard utf8 nostr ?p g"
  have g1: "gd_wf g1" "map_of (gd_current g1) ?name = None"
    using heard_wf [of "b_events_port ctx" ?p g utf8 nostr] heard_departure(1) [OF assms(5) ok, of utf8 nostr] posts assms(4,5) outs o(2)
    by (simp_all add: g1_def)
  have "list_all (\<lambda>p. about (dart_string utf8 nostr) ?name p \<longrightarrow> post_kind p \<noteq> kUpdate) rest"
    using bridge_run_forgotten [OF r(1) assms(3) f] not_updates_about [of "device_name gone" _ "dart_string utf8 nostr"] assms(7) outs
    by (fastforce simp: list_all_iff image_iff)
  from unlisted_stays [where known = "map_of (gd_current g1)", OF this g1(2)] deliver_mirrors [of "b_events_port ctx" rest g1 utf8 nostr] posts assms(4) g1(1) outs
  have "?name \<notin> d_sysfsName ` set (discovery_cameras (fst (deliver_posts utf8 nostr g1 rest)))"
    by (simp add: listed_names domIff)
  with heard_departure(2) [OF assms(5) ok, of utf8 nostr] assms(6) show ?thesis
    by (simp add: outs split_beta g1_def Let_def o(2))
qed
lemma demo_listed:
  "let g = fst (deliver_posts utf8 nostr new_discovery [post 7 kUpdate (Some (to_record (build demo_env demo_device True) 0))]) in
   gd_wf g \<and> \<not> gd_closed g \<and> d_sysfsName ` set (discovery_cameras g) = {dart_string utf8 nostr (device_name demo_device)}"
  using deliver_attached [of "[build demo_env demo_device True]" new_discovery utf8 nostr 7]
  by (simp add: demo_record_ok new_discovery_fresh split_beta Let_def del: deliver_posts_simps)

theorem departed_camera_unlisted_witness:
  "let utf8 = map char_of_byte;
       g = fst (deliver_posts utf8 '''' new_discovery [post 7 kUpdate (Some (to_record (build demo_env demo_device True) 0))]);
       (g', out) = deliver_posts utf8 '''' g [post 7 kLeft (Some (to_record (build_identity demo_device) 0))];
       name = dart_string utf8 '''' (device_name demo_device) in
   d_sysfsName ` set (discovery_cameras g) = {name} \<and> (\<exists>c. out = [AddDeparture c]) \<and>
   name \<notin> d_sysfsName ` set (discovery_cameras g')"
proof -
  let ?c = "(new_context 7 demo_disco)\<lparr>b_worker := WPump\<rparr>" and ?o = "[post 7 kLeft (Some (to_record (build_identity demo_device) 0))]"
  let ?g = "fst (deliver_posts (map char_of_byte) '''' new_discovery [post 7 kUpdate (Some (to_record (build demo_env demo_device True) 0))])"
  have "on_hotplug demo_env 5 demo_device False ?c = (?c, ?o)"
    by (simp add: on_hotplug_callback hotplug_callback_def trampoline_def demo_disco_def new_context_def build_def Let_def)
  then have "bridge_step ?c (LHotplug demo_env 5 demo_device False) ?o ?c" by (intro bridge_step.hotplug) simp_all
  then have run: "bridge_run ?c [LHotplug demo_env 5 demo_device False] (?o @ []) ?c" by (rule bridge_run.step) simp
  have ok: "camera_ok (to_record (build_identity demo_device) 0)"
    using demo_record_ok
    by (simp add: camera_ok_def to_record_def build_identity_def new_camera_def demo_device_def device_name_def Let_def)
  note g = demo_listed [of "map char_of_byte" "''''", unfolded Let_def]
  note d = departed_camera_unlisted [OF run, of ?g "map char_of_byte" "''''"]
  show ?thesis
    using d g ok heard_departure(2) [of ?g _ "map char_of_byte" "''''" 7]
    by (simp add: demo_disco_def new_context_def to_record_name split_beta)
qed

text \<open>
  C31. \<open>start\<close> means what its comment says, that an empty list afterwards is "none attached": the
  posts of the creation do not complete it; the first post of the worker does, whatever else
  runs; and at that moment exactly the cameras that were attached are listed, each announced as
  an update.
\<close>

theorem start_lists_attached:
  assumes "gopro_discovery_create init_ok capability reg attached port vid = (Some ctx, announced)"
    and "bridge_run ctx ls (first # outs) ctx'" "list_all sendable_post announced"
  shows "let (g, out) = deliver_posts utf8 nostr new_discovery announced;
             (g', out') = port_delivers utf8 nostr g (post_object (post_bytes first)) in
    \<not> gd_started g \<and> length out = length attached \<and> StartCompleted \<notin> set out \<and> out' = [StartCompleted] \<and> gd_started g' \<and>
    d_sysfsName ` set (discovery_cameras g') = (\<lambda>(env, now, dev). dart_string utf8 nostr (device_name dev)) ` set attached"
proof -
  let ?cs = "map (\<lambda>(env, now, dev). build env dev True) attached"
  have a: "announced = map (\<lambda>c. post port kUpdate (Some (to_record c 0))) ?cs"
    using created_proper(4) [OF assms(1)] by (simp add: split_beta)
  then have ok: "list_all (\<lambda>c. camera_ok (to_record c 0)) ?cs" using assms(3) by (auto simp: list_all_iff)
  have f: "first = post port kSentinel None"
    using first_post_sentinel [OF assms(2) created_proper(2) [OF assms(1)]] created_proper(3) [OF assms(1)] by simp
  obtain g out where d: "deliver_posts utf8 nostr new_discovery announced = (g, out)" by fastforce
  from deliver_attached [OF ok new_discovery_wf, of utf8 nostr port] d
  have g: "gd_wf g" "\<not> gd_started g" "out = map (\<lambda>c. AddUpdate (dart_camera utf8 nostr (to_record c 0))) ?cs"
    "d_sysfsName ` set (discovery_cameras g) = (\<lambda>(env, now, dev). dart_string utf8 nostr (device_name dev)) ` set attached"
    unfolding a by (simp_all add: new_discovery_def discovery_cameras_def image_image split_beta)
  then have "port_delivers utf8 nostr g (post_object (post_bytes first)) = (g\<lparr>gd_started := True\<rparr>, [StartCompleted])"
    by (simp add: port_delivers_def gd_wf_def f)
  with g d show ?thesis by (auto simp: discovery_cameras_def)
qed

theorem start_lists_attached_witness:
  "let utf8 = map char_of_byte;
       (g, out) = deliver_posts utf8 '''' new_discovery [post 7 kUpdate (Some (to_record (build demo_env demo_device True) 0))];
       (g', out') = port_delivers utf8 '''' g (post_object (post_bytes (post 7 kSentinel None))) in
   \<not> gd_started g \<and> length out = 1 \<and> out' = [StartCompleted] \<and>
   d_sysfsName ` set (discovery_cameras g') = {dart_string utf8 '''' (device_name demo_device)}"
proof -
  obtain ctx where d: "demo_created = (Some ctx, [post 7 kUpdate (Some (to_record (build demo_env demo_device True) 0))])"
    and run: "bridge_run ctx [LStart] [post 7 kSentinel None] (ctx\<lparr>b_worker := WCheck\<rparr>)"
    by (rule demo_created_starts)
  from start_lists_attached [OF d [unfolded demo_created_def] run, of "map char_of_byte" "''''"]
  show ?thesis by (simp add: demo_record_ok split_beta Let_def del: deliver_posts_simps)
qed

end
