(* ===== verification/Ble_Outbound.thy ===== *)
theory Ble_Outbound
  imports Ble_Session
begin

text \<open>
  The way out, from a submission to the camera: what the session of \<open>Ble_Session\<close> writes on a
  channel, put together with the reassembler of \<open>Ble_Protocol\<close> at the other end, which is what
  the camera runs (the framing is the same in both directions).

  The lemmas account for every payload from its submission over the waiting list to the
  packets, and show that the camera reassembles whole submitted payloads, each at most as
  often as it was submitted, and is never left inside a message.
\<close>

section \<open>The queue writes what was submitted\<close>

text \<open>The commands written by some events of the queue, and those that wait.\<close>

fun writes_of :: "'c QEvent \<Rightarrow> (CorrelationId \<times> bytes) list" where
  "writes_of (QWrite i p) = [(i, p)]"
| "writes_of (QDone c outcome data) = []"

definition q_written :: "'c QEvent list \<Rightarrow> (CorrelationId \<times> bytes) list" where
  "q_written evs = concat (map writes_of evs)"

definition q_waiting :: "'c CommandQueue \<Rightarrow> (CorrelationId \<times> bytes) multiset" where
  "q_waiting q = image_mset (\<lambda>e. (e_id e, e_payload e)) (mset (q_pending q))"

fun q_given :: "'c QOp \<Rightarrow> (CorrelationId \<times> bytes) multiset" where
  "q_given (Submit i p pr d now) = {#(i, p)#}"
| "q_given _ = {#}"

lemma q_written_simps [simp]:
  "q_written [] = []" "q_written (xs @ ys) = q_written xs @ q_written ys"
  "q_written (map qwrite es) = map (\<lambda>e. (e_id e, e_payload e)) es"
  "q_written (call_done d outcome data) = []"
  by (auto simp: q_written_def call_done_def comp_def split: option.splits)

lemma q_written_calls [simp]: "q_written (concat (map (\<lambda>e. call_done (e_done e) outcome []) es)) = []"
  by (induction es) simp_all

lemma q_waiting_simps [simp]:
  "q_waiting (q\<lparr>q_ready := b\<rparr>) = q_waiting q" "q_waiting (q\<lparr>q_in_flight := es\<rparr>) = q_waiting q"
  "q_waiting (q\<lparr>q_pending := e # ps\<rparr>) = add_mset (e_id e, e_payload e) (q_waiting (q\<lparr>q_pending := ps\<rparr>))"
  "q_waiting (q\<lparr>q_pending := ps @ [e]\<rparr>) = add_mset (e_id e, e_payload e) (q_waiting (q\<lparr>q_pending := ps\<rparr>))"
  "q_waiting (q\<lparr>q_pending := q_pending q\<rparr>) = q_waiting q"
  by (simp_all add: q_waiting_def)

lemma pump_writes: "mset (q_written (snd (pump q now))) + q_waiting (fst (pump q now)) = q_waiting q"
proof -
  obtain sent where "snd (pump q now) = map qwrite sent"
     "mset (q_pending q) = mset sent + mset (q_pending (fst (pump q now)))"
    using pump_effect [of q now] by blast
  then show ?thesis by (simp add: q_waiting_def)
qed

lemma q_step_writes:
  "mset (q_written (snd (q_step q op))) + q_waiting (fst (q_step q op)) \<subseteq># q_waiting q + q_given op"
proof (cases op)
  case (Submit i p pr d now)
  then show ?thesis
    by (cases "duplicate q i") (simp_all add: submit_duplicate submit_accepted split_beta pump_writes)
next
  case (SetReady b now)
  then show ?thesis by (simp add: set_ready_def Let_def pump_writes)
next
  case (OnResponse i data now)
  then show ?thesis by (simp add: on_response_def split_beta pump_writes split: option.splits)
next
  case (Tick now)
  have "q_waiting (tick_dropped q now) \<subseteq># q_waiting q"
    by (simp add: q_waiting_def tick_dropped_def image_mset_subseteq_mono)
  then show ?thesis by (simp add: Tick tick_def Let_def split_beta pump_writes tick_dropped_def [symmetric])
next
  case CancelAll
  then show ?thesis by (simp add: cancel_all_def q_waiting_def)
qed

interpretation queue_budget: budget_machine q_step "new_queue opts" q_inv q_waiting q_given "\<lambda>evs. mset (q_written evs)"
  for opts
proof unfold_locales
  show "q_waiting (new_queue opts) = {#}" by (simp add: q_waiting_def new_queue_def)
qed (simp_all add: q_step_writes)

section \<open>What a step of the session writes\<close>

text \<open>The packets written on a channel; only the queue's events cause any.\<close>

fun packets_of :: "Channel \<Rightarrow> SEvent \<Rightarrow> bytes list" where
  "packets_of c (SWrite c' packet) = (if c' = c then [packet] else [])"
| "packets_of c _ = []"

definition packets_on :: "Channel \<Rightarrow> SEvent list \<Rightarrow> bytes list" where
  "packets_on c evs = concat (map (packets_of c) evs)"

lemma packets_on_simps [simp]:
  "packets_on c [] = []" "packets_on c (xs @ ys) = packets_on c xs @ packets_on c ys"
  "packets_on c (call_on_ready s b) = []" "packets_on c [SPush c' r m] = []" "packets_on c [SFrameError c' e] = []"
  by (simp_all add: packets_on_def call_on_ready_def)

lemma packets_on_queue_event:
  "has_write (s_callbacks s) \<Longrightarrow> packets_on c (on_queue_event s ev) =
     concat (map (\<lambda>(i, p). if channel_of_correlation i = c then fragment_ref p (sc_att_payload (s_cfg s)) else []) (writes_of ev))"
proof (cases ev)
  case (QWrite i p)
  assume w: "has_write (s_callbacks s)"
  have "packets_on c (concat (map (\<lambda>packet. [SWrite c' packet]) ps)) = (if c' = c then ps else [])" for c' ps
    by (induction ps) (simp_all add: packets_on_def)
  with w QWrite show ?thesis by (simp add: fragment_closed_form Let_def)
qed (simp add: packets_on_def)

lemma packets_on_queue:
  "has_write (s_callbacks s) \<Longrightarrow> packets_on c (on_queue s evs) =
     concat (map (\<lambda>(i, p). if channel_of_correlation i = c then fragment_ref p (sc_att_payload (s_cfg s)) else []) (q_written evs))"
  by (induction evs) (simp_all add: on_queue_def q_written_def packets_on_queue_event)

text \<open>What the camera makes of it, from the idle state: each payload that can be framed, once.\<close>

lemma receive_fragments:
  "run rx_receive rx_init (fragment_ref p att) = (rx_init, if ble_sendable att p then [p] else [])"
proof (cases "ble_sendable att p")
  case False
  then have "fragment_ref p att = []" by (auto simp: ble_sendable_def fragment_ref_Nil_iff)
  with False show ?thesis by simp
qed (simp add: ble_framing.receive_packets)

lemma receive_written:
  "run rx_receive rx_init (concat (map (\<lambda>(i, p). if ch i = c then fragment_ref p att else []) ws)) =
     (rx_init, filter (ble_sendable att) (map snd (filter (\<lambda>(i, p). ch i = c) ws)))"
  by (induction ws) (auto simp: run_append receive_fragments)

lemma receive_on_queue:
  "has_write (s_callbacks s) \<Longrightarrow> run rx_receive rx_init (packets_on c (on_queue s evs)) =
     (rx_init, filter (ble_sendable (sc_att_payload (s_cfg s)))
        (map snd (filter (\<lambda>(i, p). channel_of_correlation i = c) (q_written evs))))"
  by (simp add: packets_on_queue receive_written)

text \<open>The commands a step is given.\<close>

fun s_given :: "SOp \<Rightarrow> (CorrelationId \<times> bytes) multiset" where
  "s_given (SSubmit c p pr now) = (if p = [] then {#} else {#(correlation_of c (p ! 0), p)#})"
| "s_given (SSubmitProtobuf c f a m pr now) = {#(correlation_of_protobuf c f a, f # a # m)#}"
| "s_given (STick now) = {#(keep_alive_id, keep_alive_payload)#}"
| "s_given _ = {#}"

lemma enqueue_writes:
  "\<exists>qev. (\<forall>c. packets_on c (fst (snd (enqueue s i p pr now))) = packets_on c (on_queue s qev)) \<and>
     mset (q_written qev) + q_waiting (s_queue (fst (enqueue s i p pr now))) \<subseteq># add_mset (i, p) (q_waiting (s_queue s))"
  using q_step_writes [of "s_queue s" "Submit i p pr (Some i) now"]
  by (intro exI [of _ "fst (snd (submit (s_queue s) i p pr (Some i) now))"]) (simp add: enqueue_def split_beta)

lemma deliver_writes:
  "\<exists>qev. (\<forall>c. packets_on c (snd (deliver s ch m now)) = packets_on c (on_queue s qev)) \<and>
     mset (q_written qev) + q_waiting (s_queue (fst (deliver s ch m now))) \<subseteq># q_waiting (s_queue s)"
proof -
  obtain q qev h where r: "on_response (s_queue s) (response_id s ch m) m now = (q, qev, h)"
    by (cases "on_response (s_queue s) (response_id s ch m) m now")
  let ?s = "s\<lparr>s_queue := q\<rparr>"
  have 1: "mset (q_written qev) + q_waiting q \<subseteq># q_waiting (s_queue s)"
    using q_step_writes [of "s_queue s" "OnResponse (response_id s ch m) m now"] by (simp add: r)
  have 2: "mset (q_written (snd (moved_queue ?s m now))) + q_waiting (fst (moved_queue ?s m now)) \<subseteq># q_waiting q"
    using q_step_writes [of q "SetReady (rs_ready (fold_ready (s_ready s) m)) now"] by (simp add: moved_queue_def)
  have "\<not> h \<Longrightarrow> qev = []"
    using r by (auto simp: on_response_def Let_def split: option.splits prod.splits)
  moreover have "mset (q_written (qev @ snd (moved_queue ?s m now))) + q_waiting (fst (moved_queue ?s m now)) \<subseteq># q_waiting (s_queue s)"
    using subset_mset.order_trans [OF subset_mset.add_left_mono [OF 2, of "mset (q_written qev)"] 1] by (simp add: ac_simps)
  ultimately show ?thesis
    by (intro exI [of _ "qev @ snd (moved_queue ?s m now)"])
       (auto simp: deliver_def r deliver_reply_effect deliver_push_effect Let_def)
qed
lemma s_step_writes:
  "\<exists>qev. (\<forall>c. packets_on c (snd (s_step s op)) = packets_on c (on_queue s qev)) \<and>
     mset (q_written qev) + q_waiting (s_queue (fst (s_step s op))) \<subseteq># q_waiting (s_queue s) + s_given op"
proof (cases op)
  case (SFeed c p now)
  then show ?thesis using deliver_writes [of "s\<lparr>s_rx := (s_rx s)[unat c := fst (rx_take (fst (feed (s_rx s ! unat c) p)))]\<rparr>"
      c "snd (rx_take (fst (feed (s_rx s ! unat c) p)))" now]
    by (auto simp: session_feed_def Let_def split_beta split: FeedResult.splits intro!: exI [of _ "[]"])
next
  case (SSubmit c p pr now)
  then show ?thesis using enqueue_writes [of s "correlation_of c (p ! 0)" p pr now]
    by (auto simp: session_submit_def split_beta intro!: exI [of _ "[]"])
next
  case (SSubmitProtobuf c f a m pr now)
  then show ?thesis using enqueue_writes [of s "correlation_of_protobuf c f a" "f # a # m" pr now]
    by (simp add: submit_protobuf_def split_beta)
next
  case (STick now)
  let ?t = "(ticked s now)\<lparr>s_last_keep_alive_ms := now\<rparr>"
  have on: "on_queue ?t = on_queue s" by (rule on_queue_cong) (simp_all add: ticked_def)
  have 1: "mset (q_written (snd (tick (s_queue s) now))) + q_waiting (s_queue (ticked s now)) \<subseteq># q_waiting (s_queue s)"
    using q_step_writes [of "s_queue s" "Tick now"] by (simp add: ticked_def)
  obtain qev where 2: "\<forall>c. packets_on c (fst (snd (session_submit ?t kSettings keep_alive_payload kKeepAlive now))) = packets_on c (on_queue s qev)"
    "mset (q_written qev) + q_waiting (s_queue (fst (session_submit ?t kSettings keep_alive_payload kKeepAlive now)))
       \<subseteq># add_mset (keep_alive_id, keep_alive_payload) (q_waiting (s_queue (ticked s now)))"
    using enqueue_writes [of ?t keep_alive_id keep_alive_payload kKeepAlive now] on
    by (auto simp: session_submit_def keep_alive_payload_def keep_alive_id_def)
  show ?thesis
  proof (cases "keep_alive_due s now")
    case True
    let ?w = "mset (q_written (snd (tick (s_queue s) now)))"
    have "?w + (mset (q_written qev) + q_waiting (s_queue (fst (session_submit ?t kSettings keep_alive_payload kKeepAlive now))))
        \<subseteq># ?w + add_mset (keep_alive_id, keep_alive_payload) (q_waiting (s_queue (ticked s now)))"
      using 2(2) by (rule subset_mset.add_left_mono)
    also have "\<dots> \<subseteq># add_mset (keep_alive_id, keep_alive_payload) (q_waiting (s_queue s))" using 1 by simp
    finally show ?thesis using True 2(1)
      by (intro exI [of _ "snd (tick (s_queue s) now) @ qev"])
         (simp add: STick session_tick_effect Let_def split_beta ac_simps)
  next
    case False
    then show ?thesis using subset_mset.order_trans [OF 1, of "add_mset (keep_alive_id, keep_alive_payload) (q_waiting (s_queue s))"]
      by (intro exI [of _ "snd (tick (s_queue s) now)"])
         (simp add: STick session_tick_effect Let_def split_beta)
  qed
next
  case (SSetAttPayload n)
  then show ?thesis by (intro exI [of _ "[]"]) (simp add: set_att_payload_def)
next
  case SDisconnect
  have "q_written (snd (cancel_all (s_queue s))) = []" by (simp add: cancel_all_def del: map_append)
  then show ?thesis
    by (intro exI [of _ "snd (cancel_all (s_queue s))"]) (simp add: SDisconnect on_disconnect_effect q_waiting_def)
qed

section \<open>The session and the camera's end of a channel\<close>

text \<open>
  A step of the session, after which the camera has received the packets written on channel \<open>c\<close>
  and puts out the messages it completes.
\<close>

definition camera_end :: "Channel \<Rightarrow> BleSession \<times> Reassembler \<Rightarrow> SOp \<Rightarrow> (BleSession \<times> Reassembler) \<times> bytes list" where
  "camera_end c st op =
     (let (s, r) = st; (s', evs) = s_step s op; (r', messages) = run rx_receive r (packets_on c evs)
      in ((s', r'), messages))"

text \<open>The payloads of a channel among some commands, and what an operation submits on it.\<close>

definition on_channel :: "Channel \<Rightarrow> (CorrelationId \<times> bytes) multiset \<Rightarrow> bytes multiset" where
  "on_channel c cmds = image_mset snd (filter_mset (\<lambda>(i, p). channel_of_correlation i = c) cmds)"

fun submitted :: "Channel \<Rightarrow> SOp \<Rightarrow> bytes multiset" where
  "submitted c (SSubmit c' p pr now) = (if c' = c \<and> p \<noteq> [] then {#p#} else {#})"
| "submitted c (SSubmitProtobuf c' f a m pr now) = (if c' = c then {#f # a # m#} else {#})"
| "submitted c (STick now) = (if c = kSettings then {#keep_alive_payload#} else {#})"
| "submitted c _ = {#}"

lemma on_channel_simps [simp]:
  "on_channel c {#} = {#}" "on_channel c (A + B) = on_channel c A + on_channel c B"
  by (simp_all add: on_channel_def)

lemma on_channel_mono: "A \<subseteq># B \<Longrightarrow> on_channel c A \<subseteq># on_channel c B"
  unfolding on_channel_def by (intro image_mset_subseteq_mono multiset_filter_mono)

lemma on_channel_given [simp]: "on_channel c (s_given op) = submitted c op"
  by (cases op) (auto simp: on_channel_def channel_of_keep_alive)

definition end_inv :: "BleSession \<times> Reassembler \<Rightarrow> bool" where
  "end_inv st \<longleftrightarrow> has_write (s_callbacks (fst st)) \<and> snd st = rx_init"

lemma camera_end_step:
  assumes "end_inv st"
  shows "end_inv (fst (camera_end c st op)) \<and>
    mset (snd (camera_end c st op)) + on_channel c (q_waiting (s_queue (fst (fst (camera_end c st op)))))
      \<subseteq># on_channel c (q_waiting (s_queue (fst st))) + submitted c op"
proof -
  obtain s where st: "st = (s, rx_init)" "has_write (s_callbacks s)" using assms by (cases st) (auto simp: end_inv_def)
  obtain qev where q: "packets_on c (snd (s_step s op)) = packets_on c (on_queue s qev)"
    "mset (q_written qev) + q_waiting (s_queue (fst (s_step s op))) \<subseteq># q_waiting (s_queue s) + s_given op"
    using s_step_writes [of s op] by blast
  let ?ms = "filter (ble_sendable (sc_att_payload (s_cfg s))) (map snd (filter (\<lambda>(i, p). channel_of_correlation i = c) (q_written qev)))"
  have e: "camera_end c st op = ((fst (s_step s op), rx_init), ?ms)"
    by (simp add: camera_end_def st split_beta q(1) receive_on_queue Let_def)
  have "mset ?ms \<subseteq># on_channel c (mset (q_written qev))" by (simp add: on_channel_def)
  then have "mset ?ms + on_channel c (q_waiting (s_queue (fst (s_step s op)))) \<subseteq>#
      on_channel c (mset (q_written qev) + q_waiting (s_queue (fst (s_step s op))))" by simp
  also have "\<dots> \<subseteq># on_channel c (q_waiting (s_queue s) + s_given op)" by (rule on_channel_mono [OF q(2)])
  finally show ?thesis using st(2) unfolding e unfolding st(1) by (simp add: end_inv_def)
qed

interpretation outbound: budget_machine "camera_end c" "(live_session cfg, rx_init)" end_inv
  "\<lambda>st. on_channel c (q_waiting (s_queue (fst st)))" "submitted c" mset for cfg c
proof unfold_locales
  show "on_channel c (q_waiting (s_queue (fst (live_session cfg, rx_init)))) = {#}"
    by (simp add: q_waiting_def set_callbacks_def new_session_def new_queue_def)
qed (use camera_end_step in \<open>simp_all add: end_inv_def set_callbacks_def new_session_def\<close>)

section \<open>Properties\<close>

text \<open>
  C1. The camera gets what was sent: whatever is submitted, received, timed out, reconnected and
  renegotiated, and however commands wait and overtake each other, the camera that reassembles
  the packets written on a channel completes only payloads submitted on that channel (and
  keep-alives, at most one for each tick, on the settings channel), each at most as often as it
  was submitted, and after every operation it is between messages: no two commands are ever
  interleaved and none is left half written.
\<close>

theorem camera_receives_submitted:
  "mset (snd (run (camera_end c) (live_session cfg, rx_init) ops)) \<subseteq># sum_list (map (submitted c) ops) \<and>
   snd (fst (run (camera_end c) (live_session cfg, rx_init) ops)) = rx_init \<and>
   fst (fst (run (camera_end c) (live_session cfg, rx_init) ops)) = fst (run s_step (live_session cfg) ops)"
proof (intro conjI)
  show "mset (snd (run (camera_end c) (live_session cfg, rx_init) ops)) \<subseteq># sum_list (map (submitted c) ops)"
    by (rule outbound.budget_run)
  show "snd (fst (run (camera_end c) (live_session cfg, rx_init) ops)) = rx_init"
    using outbound.inv_run by (simp add: end_inv_def)
  have "fst (fst (run (camera_end c) (s, r) ops)) = fst (run s_step s ops)" for s r
    by (induction ops arbitrary: s r) (simp_all add: camera_end_def split_beta Let_def)
  then show "fst (fst (run (camera_end c) (live_session cfg, rx_init) ops)) = fst (run s_step (live_session cfg) ops)" .
qed

text \<open>
  C26. And it gets it at once when nothing holds it back: a fastpass or keep-alive command that is
  not a duplicate and can be framed reaches the camera whole with the submission, even with the
  gate closed and ordinary commands waiting; an ordinary one does when the gate is open and no
  ordinary one is outstanding.
\<close>

theorem free_command_reaches_camera:
  assumes "s = fst (run s_step (live_session cfg) ops)" "\<not> duplicate (s_queue s) (correlation_of c (p ! 0))"
    and "ble_sendable (sc_att_payload (s_cfg s)) p" "pr \<noteq> kQueued \<or> slot_free (s_queue s)"
  shows "snd (camera_end c (s, rx_init) (SSubmit c p pr now)) = [p]"
proof -
  let ?i = "correlation_of c (p ! 0)"
  have q: "q_inv (s_queue s)" and w: "has_write (s_callbacks s)"
    using session_machine.inv_run [of cfg ops] by (simp_all add: assms(1) s_inv_def run_callbacks)
  have "fst (snd (submit (s_queue s) ?i p pr (Some ?i) now)) = [QWrite ?i p]"
  proof (cases "pr = kQueued")
    case True
    then show ?thesis using assms(4) by (simp add: submit_ordinary [OF q assms(2)])
  qed (simp add: submit_ungated [OF q assms(2)])
  moreover have "p \<noteq> []" using assms(3) by (simp add: ble_sendable_def)
  ultimately have "packets_on c (snd (s_step s (SSubmit c p pr now))) = packets_on c (on_queue s [QWrite ?i p])"
    by (simp add: session_submit_def enqueue_def split_beta)
  then show ?thesis using assms(3)
    by (simp add: camera_end_def split_beta Let_def receive_on_queue [OF w] q_written_def)
qed

theorem free_command_reaches_camera_witness:
  "snd (camera_end kQuery (fst (run s_step (live_session default_session_config)
       [SSubmit kCommand [0x05, 3, 1, 1] kQueued 5]), rx_init) (SSubmit kQuery (0x13 # replicate 40 8) kFastpass 9)) =
     [0x13 # replicate 40 8]"
proof (rule free_command_reaches_camera [OF refl])
  let ?s = "fst (run s_step (live_session default_session_config) [SSubmit kCommand [0x05, 3, 1, 1] kQueued 5])"
  let ?q = "new_queue default_queue_options :: CorrelationId CommandQueue"
  have "correlation_of kCommand 5 \<noteq> correlation_of kQuery 0x13" by (simp add: correlation_of_inject)
  moreover have "fst (submit ?q (correlation_of kCommand 5) [5, 3, 1, 1] kQueued (Some (correlation_of kCommand 5)) 5) =
      ?q\<lparr>q_pending := [new_entry (correlation_of kCommand 5) [5, 3, 1, 1] kQueued (Some (correlation_of kCommand 5)) 5]\<rparr>"
    by (subst submit_ordinary [OF q_inv_new]) (simp_all add: duplicate_def is_in_flight_def new_queue_def slot_free_def)
  ultimately show "\<not> duplicate (s_queue ?s) (correlation_of kQuery ((0x13 # replicate 40 8) ! 0))"
    by (simp add: session_submit_def enqueue_def split_beta set_callbacks_def new_session_def default_session_config_def
        duplicate_def is_in_flight_def) (simp add: new_queue_def)
  show "ble_sendable (sc_att_payload (s_cfg ?s)) (0x13 # replicate 40 8)"
    by (simp add: session_submit_def enqueue_def split_beta set_callbacks_def new_session_def default_session_config_def
        ble_sendable_def kMaxMessageLen_def length_first_hdr kMinAttPayload_def)
qed simp

end
