(* ===== verification/Dart_Strings.thy ===== *)
theory Dart_Strings
  imports Gp_Prelude
begin

text \<open>
  The operations of \<open>dart:core\<close> strings that the Dart sources use: splitting and joining at a
  character, replacing every occurrence of a string, trimming. Code units are words of 16 bits;
  what does not depend on them is stated for any kind of character.
\<close>

section \<open>Splitting, joining, replacing\<close>

fun split_at :: "char \<Rightarrow> string \<Rightarrow> string list" where
  "split_at c [] = [[]]"
| "split_at c (x # xs) =
     (if x = c then [] # split_at c xs
      else (case split_at c xs of [] \<Rightarrow> [[x]] | y # ys \<Rightarrow> (x # y) # ys))"

fun join_with :: "char \<Rightarrow> string list \<Rightarrow> string" where
  "join_with c [] = []"
| "join_with c [s] = s"
| "join_with c (s # t # r) = s @ c # join_with c (t # r)"

function replaceAll :: "'a list \<Rightarrow> 'a list \<Rightarrow> 'a list \<Rightarrow> 'a list" where
  "replaceAll from to s =
     (if from = [] \<or> s = [] then s
      else if take (length from) s = from then to @ replaceAll from to (drop (length from) s)
      else hd s # replaceAll from to (tl s))"
  by pat_completeness auto
termination
  by (relation "measure (\<lambda>(from, to, s). length s)") (auto simp: neq_Nil_conv)

declare replaceAll.simps [simp del]

text \<open>White space as \<open>String.trim\<close> has it, on UTF-16 code units.\<close>

definition dart_space :: "u16 \<Rightarrow> bool" where
  "dart_space c \<longleftrightarrow> 0x9 \<le> c \<and> c \<le> 0xD \<or> 0x2000 \<le> c \<and> c \<le> 0x200A \<or>
     c \<in> {0x20, 0x85, 0xA0, 0x1680, 0x2028, 0x2029, 0x202F, 0x205F, 0x3000, 0xFEFF}"

definition dart_trim :: "u16 list \<Rightarrow> u16 list" where
  "dart_trim s = rev (dropWhile dart_space (rev (dropWhile dart_space s)))"

section \<open>Splitting what was joined\<close>

lemma split_at_not_Nil [simp]: "split_at c s \<noteq> []"
  by (induction c s rule: split_at.induct) (auto split: list.splits)

lemma split_at_plain: "c \<notin> set s \<Longrightarrow> split_at c s = [s]"
  by (induction c s rule: split_at.induct) auto

lemma split_at_append: "c \<notin> set s \<Longrightarrow> split_at c (s @ c # t) = s # split_at c t"
  by (induction s) auto

lemma split_at_join:
  "ss \<noteq> [] \<Longrightarrow> list_all (\<lambda>s. c \<notin> set s) ss \<Longrightarrow> split_at c (join_with c ss) = ss"
  by (induction c ss rule: join_with.induct) (auto simp: split_at_plain split_at_append)

lemma split_at_no_sep: "s \<in> set (split_at c t) \<Longrightarrow> c \<notin> set s"
  by (induction c t arbitrary: s rule: split_at.induct) (auto split: if_splits list.splits)

lemma join_split_at: "join_with c (split_at c s) = s"
proof (induction c s rule: split_at.induct)
  case (2 c x xs)
  obtain y ys where ys: "split_at c xs = y # ys" by (cases "split_at c xs") auto
  with 2 show ?case by (cases ys) auto
qed simp

end
