(* ===== verification/Http_Message.thy ===== *)
theory Http_Message
  imports Gopro_Usb Dart_Strings
begin

text \<open>
  \<open>lib/src/http/http_message.dart\<close>: one message of the HTTP interface and how its request is put
  together. A Dart string stands here as its UTF-8 bytes, which is what the library encodes;
  splitting at a slash and replacing an escape cut between bytes below 128 only and so mean the
  same on both. \<open>Uri.encodeComponent\<close> and \<open>Uri.replace\<close> are those of \<open>dart:core\<close>, as far as the
  source uses them: a base with an authority, whose path and query are replaced. The lemmas
  show that what a server reads from the request is what the caller supplied.
\<close>

section \<open>Messages\<close>

datatype HttpMethod = HmGet | HmPut

datatype HttpFastpass = FastpassNever | FastpassAlways | FastpassConditional

datatype HttpResponseKind = KindJson | KindBinary

record HttpMessage =
  hm_name :: string
  hm_endpoint :: string
  hm_method :: HttpMethod
  hm_response :: HttpResponseKind
  hm_components :: "string list"
  hm_arguments :: "string list"
  hm_bodyArguments :: "string list"
  hm_fastpass :: HttpFastpass

text \<open>A value of an argument; a key that is absent and a null value are both \<open>None\<close>.\<close>

datatype HttpValue = HvString string | HvInt int

type_synonym http_values = "string \<Rightarrow> HttpValue option"

fun value_toString :: "HttpValue \<Rightarrow> string" where
  "value_toString (HvString s) = s"
| "value_toString (HvInt i) = (if i < 0 then CHR ''-'' # dec (nat (- i)) else dec (nat i))"

section \<open>Strings and URIs of the Dart library\<close>

definition alnum :: "char \<Rightarrow> bool" where
  "alnum c \<longleftrightarrow> c \<in> set ''abcdefghijklmnopqrstuvwxyzABCDEFGHIJKLMNOPQRSTUVWXYZ0123456789''"

definition unreserved2396 :: "char \<Rightarrow> bool" where
  "unreserved2396 c \<longleftrightarrow> alnum c \<or> c \<in> set [CHR ''-'', CHR ''_'', CHR ''.'', CHR ''!'', CHR ''~'', CHR ''*'', CHR 0x27, CHR ''('', CHR '')'']"

definition unreserved3986 :: "char \<Rightarrow> bool" where
  "unreserved3986 c \<longleftrightarrow> alnum c \<or> c \<in> set ''-._~''"

definition path_char :: "char \<Rightarrow> bool" where
  "path_char c \<longleftrightarrow> unreserved2396 c \<or> c \<in> set ''$&+,;=:@''"

definition query_char :: "char \<Rightarrow> bool" where
  "query_char c \<longleftrightarrow> path_char c \<or> c \<in> set ''/?''"

definition hex_upper :: "nat \<Rightarrow> char" where
  "hex_upper n = ''0123456789ABCDEF'' ! n"

definition pct :: "char \<Rightarrow> string" where
  "pct c = [CHR ''%'', hex_upper (of_char c div 16), hex_upper (of_char c mod 16)]"

definition pct_encode :: "(char \<Rightarrow> bool) \<Rightarrow> string \<Rightarrow> string" where
  "pct_encode keep s = concat (map (\<lambda>c. if keep c then [c] else pct c) s)"

definition encodeComponent :: "string \<Rightarrow> string" where
  "encodeComponent = pct_encode unreserved2396"

text \<open>The value of a hexadecimal digit, of either case.\<close>

definition hex_value :: "char \<Rightarrow> nat option" where
  "hex_value c =
     (let n = of_char c in
      if 48 \<le> n \<and> n \<le> 57 then Some (n - 48)
      else if 65 \<le> n \<and> n \<le> 70 then Some (n - 55)
      else if 97 \<le> n \<and> n \<le> 102 then Some (n - 87)
      else None)"

text \<open>What the library does to a query that is handed to it: escapes of characters that need
  none are undone, other escapes are brought to upper case, what may not stand there is escaped.\<close>

function normalize_query :: "string \<Rightarrow> string" where
  "normalize_query s =
     (case s of
        [] \<Rightarrow> []
      | c # r \<Rightarrow>
          if query_char c then c # normalize_query r
          else if c \<noteq> CHR ''%'' then pct c @ normalize_query r
          else (case r of
                  h # l # r' \<Rightarrow>
                    (case (hex_value h, hex_value l) of
                       (Some a, Some b) \<Rightarrow>
                         (let v = char_of (16 * a + b) in
                          (if unreserved3986 v then [v] else pct v) @ normalize_query r')
                     | _ \<Rightarrow> pct c @ normalize_query r)
                | _ \<Rightarrow> pct c @ normalize_query r))"
  by pat_completeness auto
termination
  by (relation "measure length") auto

declare normalize_query.simps [simp del]

text \<open>A path without its dot segments.\<close>

fun remove_dots :: "string list \<Rightarrow> string list \<Rightarrow> bool \<Rightarrow> string list" where
  "remove_dots out [] slash = (if slash then out @ [[]] else out)"
| "remove_dots out (s # ss) slash =
     (if s = ''..'' then
        (let out1 = (if out = [] then [] else butlast out) in
         remove_dots (if out \<noteq> [] \<and> out1 = [] then [[]] else out1) ss True)
      else if s = ''.'' then remove_dots out ss True
      else remove_dots (out @ [s]) ss False)"

definition make_path :: "string list \<Rightarrow> string" where
  "make_path segments =
     (let p = join_with (CHR ''/'') (map (pct_encode path_char) segments);
          q = (if p = [] \<or> hd p = CHR ''/'' then p else CHR ''/'' # p)
      in join_with (CHR ''/'') (remove_dots [] (split_at (CHR ''/'') q) False))"

record Uri =
  uri_scheme :: string
  uri_authority :: string
  uri_path :: string
  uri_query :: "string option"

text \<open>A query of null keeps the one the URI has.\<close>

definition uri_replace :: "Uri \<Rightarrow> string list \<Rightarrow> string option \<Rightarrow> Uri" where
  "uri_replace u segments q =
     u\<lparr>uri_path := make_path segments,
       uri_query := (case q of None \<Rightarrow> uri_query u | Some q' \<Rightarrow> Some (normalize_query q'))\<rparr>"

section \<open>Building a request\<close>

definition nonempty_segments :: "string \<Rightarrow> string list" where
  "nonempty_segments s = List.filter (\<lambda>x. x \<noteq> []) (split_at (CHR ''/'') s)"

definition encodeQuery :: "string \<Rightarrow> string" where
  "encodeQuery s = replaceAll ''%2F'' ''/'' (encodeComponent s)"

text \<open>The argument error names the component that is missing.\<close>

fun component_segments :: "string list \<Rightarrow> http_values \<Rightarrow> string list \<Rightarrow> string + string list" where
  "component_segments [] vals segments = Inr segments"
| "component_segments (c # cs) vals segments =
     (case vals c of
        None \<Rightarrow> Inl c
      | Some v \<Rightarrow> component_segments cs vals (segments @ nonempty_segments (value_toString v)))"

definition query_parts :: "string list \<Rightarrow> http_values \<Rightarrow> string list" where
  "query_parts args vals =
     List.map_filter
       (\<lambda>a. map_option (\<lambda>v. encodeQuery a @ ''='' @ encodeQuery (value_toString v)) (vals a)) args"

definition url :: "HttpMessage \<Rightarrow> Uri \<Rightarrow> http_values \<Rightarrow> string + Uri" where
  "url m base vals =
     (case component_segments (hm_components m) vals (nonempty_segments (hm_endpoint m)) of
        Inl c \<Rightarrow> Inl c
      | Inr segments \<Rightarrow>
          (let query = query_parts (hm_arguments m) vals in
           Inr (uri_replace base segments
                 (if query = [] then None else Some (join_with (CHR ''&'') query)))))"

definition body :: "HttpMessage \<Rightarrow> http_values \<Rightarrow> string \<rightharpoonup> HttpValue" where
  "body m vals =
     fold (\<lambda>a b. case vals a of None \<Rightarrow> b | Some v \<Rightarrow> b(a \<mapsto> v)) (hm_bodyArguments m) Map.empty"

section \<open>What a server reads\<close>

text \<open>Decoding of escapes, and a query string and a path read back, as RFC 3986 has them.\<close>

function pct_decode :: "string \<Rightarrow> string" where
  "pct_decode s =
     (case s of
        [] \<Rightarrow> []
      | c # r \<Rightarrow>
          if c = CHR ''%'' then
            (case r of
               h # l # r' \<Rightarrow>
                 (case (hex_value h, hex_value l) of
                    (Some a, Some b) \<Rightarrow> char_of (16 * a + b) # pct_decode r'
                  | _ \<Rightarrow> c # pct_decode r)
             | _ \<Rightarrow> c # pct_decode r)
          else c # pct_decode r)"
  by pat_completeness auto
termination
  by (relation "measure length") auto

declare pct_decode.simps [simp del]

definition read_query :: "string \<Rightarrow> (string \<times> string) list" where
  "read_query q =
     map (\<lambda>p. (pct_decode (takeWhile (\<lambda>c. c \<noteq> CHR ''='') p),
               pct_decode (tl (dropWhile (\<lambda>c. c \<noteq> CHR ''='') p))))
       (split_at (CHR ''&'') q)"

definition read_path :: "string \<Rightarrow> string list" where
  "read_path p = map pct_decode (nonempty_segments p)"

text \<open>What was asked for.\<close>

definition request_segments :: "HttpMessage \<Rightarrow> http_values \<Rightarrow> string list" where
  "request_segments m vals =
     nonempty_segments (hm_endpoint m) @
     concat (map (\<lambda>v. nonempty_segments (value_toString v)) (List.map_filter vals (hm_components m)))"

definition supplied :: "string list \<Rightarrow> http_values \<Rightarrow> (string \<times> string) list" where
  "supplied args vals = List.map_filter (\<lambda>a. map_option (\<lambda>v. (a, value_toString v)) (vals a)) args"

section \<open>Escapes\<close>

lemma less_16_cases: "n < 16 \<Longrightarrow> n \<in> {0, 1, 2, 3, 4, 5, 6, 7, 8, 9, 10, 11, 12, 13, 14, 15 :: nat}"
  by simp presburger

lemma hex_upper_facts:
  assumes "n < 16"
  shows "hex_value (hex_upper n) = Some n" "alnum (hex_upper n)" "hex_upper n \<noteq> CHR ''%''"
    "hex_upper n \<noteq> CHR ''&''" "hex_upper n \<noteq> CHR ''=''" "hex_upper n \<noteq> CHR ''/''"
  using less_16_cases [OF assms] by (auto simp: hex_upper_def hex_value_def alnum_def)

lemma hex_upper_inject: "m < 16 \<Longrightarrow> n < 16 \<Longrightarrow> hex_upper m = hex_upper n \<longleftrightarrow> m = n"
  by (metis hex_upper_facts(1) option.inject)

lemma of_char_halves: "of_char c div 16 < (16 :: nat)" "of_char c mod 16 < (16 :: nat)"
  using nat_of_char_less_256 [of c] by (simp_all add: less_mult_imp_div_less)

lemmas pct_facts = hex_upper_facts [OF of_char_halves(1)] hex_upper_facts [OF of_char_halves(2)]

lemma char_of_halves: "char_of (16 * (of_char c div 16) + of_char c mod 16 :: nat) = c"
  by (simp add: mult_div_mod_eq)

lemma plain_not_percent [simp]: "unreserved2396 c \<Longrightarrow> c \<noteq> CHR ''%''" "path_char c \<Longrightarrow> c \<noteq> CHR ''%''"
  "query_char c \<Longrightarrow> c \<noteq> CHR ''%''"
  "\<not> unreserved2396 (CHR ''%'')" "\<not> path_char (CHR ''%'')" "\<not> query_char (CHR ''%'')"
  by (auto simp: unreserved2396_def path_char_def query_char_def alnum_def)

lemma plain_in_query: "unreserved2396 c \<Longrightarrow> query_char c" "unreserved3986 c \<Longrightarrow> unreserved2396 c"
  by (auto simp: query_char_def path_char_def unreserved2396_def unreserved3986_def)

lemma pct_encode_simps [simp]:
  "pct_encode keep [] = []"
  "pct_encode keep (c # s) = (if keep c then [c] else pct c) @ pct_encode keep s"
  by (simp_all add: pct_encode_def)

lemma pct_decode_Cons: "c \<noteq> CHR ''%'' \<Longrightarrow> pct_decode (c # r) = c # pct_decode r"
  by (subst pct_decode.simps) simp

lemma pct_decode_pct: "pct_decode (pct c @ r) = c # pct_decode r"
  by (subst pct_decode.simps) (simp add: pct_def pct_facts char_of_halves)

lemma pct_decode_Nil [simp]: "pct_decode [] = []"
  by (subst pct_decode.simps) simp

lemma pct_decode_encode: "(\<And>c. keep c \<Longrightarrow> c \<noteq> CHR ''%'') \<Longrightarrow> pct_decode (pct_encode keep s) = s"
  by (induction s) (auto simp: pct_decode_Cons pct_decode_pct)

lemma set_pct: "c \<in> set (pct d) \<Longrightarrow> alnum c \<or> c = CHR ''%''"
  by (auto simp: pct_def pct_facts)

lemma set_pct_encode: "c \<in> set (pct_encode keep s) \<Longrightarrow> keep c \<or> alnum c \<or> c = CHR ''%''"
  by (induction s) (auto split: if_splits dest: set_pct)

lemma pct_encode_eq_Nil [simp]: "pct_encode keep s = [] \<longleftrightarrow> s = []"
  by (cases s) (auto simp: pct_def)

section \<open>The query encoding\<close>

definition query_plain :: "char \<Rightarrow> bool" where
  "query_plain c \<longleftrightarrow> unreserved2396 c \<or> c = CHR ''/''"

abbreviation unescape_slash :: "string \<Rightarrow> string" where
  "unescape_slash \<equiv> replaceAll ''%2F'' ''/''"

lemma unescape_Cons: "c \<noteq> CHR ''%'' \<Longrightarrow> unescape_slash (c # r) = c # unescape_slash r"
  by (subst replaceAll.simps) simp

lemma unescape_Nil [simp]: "unescape_slash [] = []"
  by (subst replaceAll.simps) simp

lemma pct_slash_iff: "pct c = ''%2F'' \<longleftrightarrow> c = CHR ''/''"
proof
  assume "pct c = ''%2F''"
  moreover have "''%2F'' = pct (CHR ''/'')" by (simp add: pct_def hex_upper_def)
  ultimately have "pct_decode (pct c @ []) = pct_decode (pct (CHR ''/'') @ [])" by (simp only:)
  then show "c = CHR ''/''" unfolding pct_decode_pct by simp
qed (simp add: pct_def hex_upper_def)

lemma unescape_pct: "unescape_slash (pct c @ r) = (if c = CHR ''/'' then [c] else pct c) @ unescape_slash r"
proof (cases "c = CHR ''/''")
  case True
  then have "pct c = ''%2F''" by (simp add: pct_slash_iff)
  with True show ?thesis by (subst replaceAll.simps) simp
next
  case False
  then have "pct c \<noteq> ''%2F''" by (simp add: pct_slash_iff)
  then have "unescape_slash (pct c @ r) = hd (pct c) # unescape_slash (tl (pct c) @ r)"
    by (subst replaceAll.simps) (simp add: pct_def)
  with False show ?thesis by (simp add: pct_def unescape_Cons pct_facts)
qed

text \<open>Unescaping afterwards is the same as never escaping the slash.\<close>

lemma encodeQuery_eq: "encodeQuery s = pct_encode query_plain s"
  unfolding encodeQuery_def encodeComponent_def
  by (induction s) (auto simp: query_plain_def unescape_Cons unescape_pct)

lemma encodeQuery_decode: "pct_decode (encodeQuery s) = s"
  unfolding encodeQuery_eq by (rule pct_decode_encode) (auto simp: query_plain_def)

lemma encodeQuery_set:
  assumes "c \<in> set (encodeQuery s)"
  shows "c \<noteq> CHR ''&''" "c \<noteq> CHR ''=''"
  using set_pct_encode [OF assms [unfolded encodeQuery_eq]]
  by (auto simp: query_plain_def unreserved2396_def alnum_def)

text \<open>Strings the normalisation of the library leaves as they are, whatever follows them.\<close>

definition stable :: "string \<Rightarrow> bool" where
  "stable s \<longleftrightarrow> (\<forall>r. normalize_query (s @ r) = s @ normalize_query r)"

lemma stable_append: "stable s \<Longrightarrow> stable t \<Longrightarrow> stable (s @ t)"
  by (simp add: stable_def)

lemma stable_char: "query_char c \<Longrightarrow> stable [c]"
  unfolding stable_def by (subst normalize_query.simps) simp

lemma stable_pct: "\<not> unreserved3986 c \<Longrightarrow> stable (pct c)"
  unfolding stable_def
proof
  fix r assume c: "\<not> unreserved3986 c"
  have "normalize_query (pct c @ r) = pct (char_of (16 * (of_char c div 16) + of_char c mod 16 :: nat)) @ normalize_query r"
    using c by (subst normalize_query.simps)
      (simp add: pct_def pct_facts char_of_halves query_char_def path_char_def unreserved2396_def alnum_def Let_def)
  then show "normalize_query (pct c @ r) = pct c @ normalize_query r" by (simp only: char_of_halves)
qed

lemma stable_encodeQuery: "stable (encodeQuery s)"
  unfolding encodeQuery_eq
proof (induction s)
  case (Cons c s)
  have "stable (if query_plain c then [c] else pct c)"
    using plain_in_query by (auto simp: query_plain_def query_char_def intro!: stable_char stable_pct)
  then show ?case using Cons by (simp only: pct_encode_simps stable_append)
qed (simp add: stable_def)

lemma stable_join: "query_char c \<Longrightarrow> list_all stable ss \<Longrightarrow> stable (join_with c ss)"
proof (induction c ss rule: join_with.induct)
  case (3 c s t r)
  then have "stable (s @ [c] @ join_with c (t # r))" by (intro stable_append stable_char) auto
  then show ?case by simp
qed (simp_all add: stable_def)

lemma normalize_stable: "stable s \<Longrightarrow> normalize_query s = s"
proof -
  assume "stable s"
  then have "normalize_query (s @ []) = s @ normalize_query []" unfolding stable_def by blast
  then show ?thesis by (simp add: normalize_query.simps [of "[]"])
qed

section \<open>The path\<close>

definition plain_segment :: "string \<Rightarrow> bool" where
  "plain_segment s \<longleftrightarrow> s \<noteq> [] \<and> s \<noteq> ''.'' \<and> s \<noteq> ''..''"

lemma remove_dots_plain:
  "list_all (\<lambda>s. s \<noteq> ''.'' \<and> s \<noteq> ''..'') ss \<Longrightarrow> \<not> slash \<Longrightarrow> remove_dots out ss slash = out @ ss"
  by (induction out ss slash rule: remove_dots.induct) auto

lemma path_segment_decode: "pct_decode (pct_encode path_char s) = s"
  by (rule pct_decode_encode) auto

lemma path_segment_not_dots:
  assumes "s \<noteq> ''.''" "s \<noteq> ''..''"
  shows "pct_encode path_char s \<noteq> ''.''" "pct_encode path_char s \<noteq> ''..''"
proof -
  have "pct_encode path_char s = t \<Longrightarrow> list_all path_char t \<Longrightarrow> s = t" for t
  proof -
    assume eq: "pct_encode path_char s = t" and t: "list_all path_char t"
    from t have "pct_encode path_char t = t" by (induction t) auto
    with eq show "s = t" by (metis path_segment_decode)
  qed
  then show "pct_encode path_char s \<noteq> ''.''" "pct_encode path_char s \<noteq> ''..''"
    using assms by (auto simp: path_char_def unreserved2396_def)
qed

lemma path_segment_no_slash: "CHR ''/'' \<notin> set (pct_encode path_char s)"
  using set_pct_encode [of "CHR ''/''" path_char s]
  by (auto simp: path_char_def unreserved2396_def alnum_def)

lemma make_path_plain:
  assumes "list_all plain_segment ss" "ss \<noteq> []"
  shows "make_path ss = CHR ''/'' # join_with (CHR ''/'') (map (pct_encode path_char) ss)"
proof -
  let ?es = "map (pct_encode path_char) ss" and ?p = "join_with (CHR ''/'') (map (pct_encode path_char) ss)"
  obtain s r where ss: "ss = s # r" using assms(2) by (cases ss) auto
  from assms(1) ss have "pct_encode path_char s \<noteq> []" by (simp add: plain_segment_def)
  then obtain x xs where x: "pct_encode path_char s = x # xs" by (cases "pct_encode path_char s") auto
  then have "x \<noteq> CHR ''/''" using path_segment_no_slash [of s] by auto
  moreover have "hd ?p = x" "?p \<noteq> []" using x by (cases r; simp add: ss)+
  ultimately have "make_path ss =
      join_with (CHR ''/'') (remove_dots [] (split_at (CHR ''/'') (CHR ''/'' # ?p)) False)"
    by (simp add: make_path_def Let_def)
  also have "split_at (CHR ''/'') (CHR ''/'' # ?p) = [] # ?es"
    using assms(2) path_segment_no_slash by (simp add: split_at_join list_all_iff)
  also have "remove_dots [] ([] # ?es) False = [] # ?es"
    using assms(1) path_segment_not_dots
    by (subst remove_dots_plain) (auto simp: list_all_iff plain_segment_def)
  also have "join_with (CHR ''/'') ([] # ?es) = CHR ''/'' # ?p" using ss by simp
  finally show ?thesis .
qed

lemma read_make_path:
  assumes "list_all plain_segment ss"
  shows "read_path (make_path ss) = ss"
proof (cases "ss = []")
  case True
  then show ?thesis by (simp add: make_path_def read_path_def nonempty_segments_def)
next
  case False
  have "nonempty_segments (make_path ss) = map (pct_encode path_char) ss"
    using assms False path_segment_no_slash
    by (simp add: make_path_plain nonempty_segments_def split_at_join list_all_iff plain_segment_def
        filter_map o_def)
  then show ?thesis by (simp add: read_path_def o_def path_segment_decode)
qed

section \<open>The query\<close>

lemma part_split:
  "c \<notin> set s \<Longrightarrow> takeWhile (\<lambda>x. x \<noteq> c) (s @ c # t) = s \<and> dropWhile (\<lambda>x. x \<noteq> c) (s @ c # t) = c # t"
  by (induction s) auto

lemma query_parts_eq:
  "query_parts args vals = map (\<lambda>(a, v). encodeQuery a @ ''='' @ encodeQuery v) (supplied args vals)"
  by (induction args) (auto simp: query_parts_def supplied_def List.map_filter_simps split: option.splits)

lemma supplied_eq_Nil: "supplied args vals = [] \<longleftrightarrow> list_all (\<lambda>a. vals a = None) args"
  by (induction args) (auto simp: supplied_def List.map_filter_simps split: option.splits)

lemma query_stable: "stable (join_with (CHR ''&'') (query_parts args vals))"
  unfolding query_parts_eq
  by (rule stable_join)
    (auto simp: query_char_def path_char_def list_all_iff intro!: stable_append stable_encodeQuery
      stable_char [of "CHR ''=''", unfolded append_Cons append_Nil] intro: stable_append [of "[CHR ''='']", simplified])

lemma read_query_parts:
  assumes "supplied args vals \<noteq> []"
  shows "read_query (join_with (CHR ''&'') (query_parts args vals)) = supplied args vals"
proof -
  have "split_at (CHR ''&'') (join_with (CHR ''&'') (query_parts args vals)) = query_parts args vals"
    using assms encodeQuery_set
    by (intro split_at_join) (auto simp: query_parts_eq list_all_iff)
  moreover have "takeWhile (\<lambda>c. c \<noteq> CHR ''='') (encodeQuery a @ CHR ''='' # t) = encodeQuery a"
    "dropWhile (\<lambda>c. c \<noteq> CHR ''='') (encodeQuery a @ CHR ''='' # t) = CHR ''='' # t" for a t
    using part_split [of "CHR ''=''" "encodeQuery a" t] encodeQuery_set by blast+
  ultimately show ?thesis
    by (simp add: read_query_def query_parts_eq o_def split_beta encodeQuery_decode)
qed

lemma unescape_encodeQuery: "unescape_slash (encodeQuery s @ r) = encodeQuery s @ unescape_slash r"
  unfolding encodeQuery_eq
  by (induction s) (auto simp: query_plain_def unescape_Cons unescape_pct)

lemma query_keeps_slash:
  "unescape_slash (join_with (CHR ''&'') (map (\<lambda>(a, v). encodeQuery a @ ''='' @ encodeQuery v) ps)) =
   join_with (CHR ''&'') (map (\<lambda>(a, v). encodeQuery a @ ''='' @ encodeQuery v) ps)"
proof (induction ps)
  case (Cons p ps)
  obtain a v where "p = (a, v)" by fastforce
  moreover have "unescape_slash (encodeQuery v) = encodeQuery v"
    using unescape_encodeQuery [of v "[]"] by simp
  ultimately show ?case using Cons
    by (cases ps) (auto simp: unescape_encodeQuery unescape_Cons)
qed simp

section \<open>Requests\<close>

lemma component_segments_spec:
  "component_segments cs vals ss =
     (case find (\<lambda>c. vals c = None) cs of
        Some c \<Rightarrow> Inl c
      | None \<Rightarrow> Inr (ss @ concat (map (\<lambda>v. nonempty_segments (value_toString v)) (List.map_filter vals cs))))"
  by (induction cs arbitrary: ss) (auto simp: List.map_filter_simps split: option.splits)

text \<open>A component that is missing is refused, and named.\<close>

lemma url_refused: "url m base vals = Inl c \<longleftrightarrow> find (\<lambda>c. vals c = None) (hm_components m) = Some c"
  by (auto simp: url_def component_segments_spec Let_def split: option.splits)

lemma url_exact:
  assumes "url m base vals = Inr u"
  shows "u = uri_replace base (request_segments m vals)
    (if supplied (hm_arguments m) vals = [] then None
     else Some (join_with (CHR ''&'') (query_parts (hm_arguments m) vals)))"
  using assms
  by (auto simp: url_def component_segments_spec request_segments_def query_parts_eq Let_def
      split: option.splits)

lemma url_reads_back:
  assumes "url m base vals = Inr u"
    and "list_all plain_segment (request_segments m vals)"
  shows "uri_scheme u = uri_scheme base \<and> uri_authority u = uri_authority base \<and>
    read_path (uri_path u) = request_segments m vals \<and>
    (if supplied (hm_arguments m) vals = [] then uri_query u = uri_query base
     else (\<exists>q. uri_query u = Some q \<and> read_query q = supplied (hm_arguments m) vals \<and>
           replaceAll ''%2F'' ''/'' q = q))"
proof (cases "supplied (hm_arguments m) vals = []")
  case True
  with url_exact [OF assms(1)] assms(2) show ?thesis by (simp add: uri_replace_def read_make_path)
next
  case False
  with url_exact [OF assms(1)] assms(2) show ?thesis
    by (simp add: uri_replace_def read_make_path normalize_stable [OF query_stable] read_query_parts
        query_keeps_slash [of "supplied (hm_arguments m) vals", folded query_parts_eq])
qed

text \<open>
  C18. If no segment of the endpoint or of a component is \<open>.\<close> or \<open>..\<close>, which the library resolves
  away (\<open>dot_segments_leave_endpoint\<close>), a server that splits the path of the request at slashes, and
  its query at ampersands and at the first equals sign, and decodes the escapes, reads exactly
  the endpoint and the components, and exactly the arguments that were supplied, in the order
  of the table and with their values, whatever other characters those contain; no slash in the
  query is escaped, which the camera would refuse; the authority is the camera's, and without
  arguments the query stays that of the base.
\<close>

theorem request_reads_back:
  assumes "url m base vals = Inr u"
    and "list_all plain_segment (request_segments m vals)"
  shows "uri_scheme u = uri_scheme base \<and> uri_authority u = uri_authority base \<and>
    read_path (uri_path u) = request_segments m vals \<and>
    (if supplied (hm_arguments m) vals = [] then uri_query u = uri_query base
     else (\<exists>q. uri_query u = Some q \<and> read_query q = supplied (hm_arguments m) vals \<and>
           replaceAll ''%2F'' ''/'' q = q))"
  using assms by (rule url_reads_back)

definition example_message :: HttpMessage where
  "example_message = \<lparr>hm_name = ''example'', hm_endpoint = ''gopro/camera/stream'',
     hm_method = HmGet, hm_response = KindJson, hm_components = [''mode''],
     hm_arguments = [''port'', ''path''], hm_bodyArguments = [], hm_fastpass = FastpassNever\<rparr>"

definition example_values :: http_values where
  "example_values a =
     (if a = ''mode'' then Some (HvString ''start'')
      else if a = ''path'' then Some (HvString ''100GOPRO/a&b=c d'') else None)"

definition camera_base :: Uri where
  "camera_base = \<lparr>uri_scheme = ''http'', uri_authority = ''172.21.123.51:8080'', uri_path = ''/'', uri_query = None\<rparr>"

lemma request_reads_back_witness:
  "\<exists>u. url example_message camera_base example_values = Inr u \<and>
     read_path (uri_path u) = [''gopro'', ''camera'', ''stream'', ''start''] \<and>
     (\<exists>q. uri_query u = Some q \<and> read_query q = [(''path'', ''100GOPRO/a&b=c d'')])"
proof -
  let ?m = example_message and ?v = example_values
  have "\<not> isl (url ?m camera_base ?v)" by code_simp
  then obtain u where u: "url ?m camera_base ?v = Inr u"
    by (cases "url ?m camera_base ?v") auto
  have s: "request_segments ?m ?v = [''gopro'', ''camera'', ''stream'', ''start'']" by code_simp
  moreover have "list_all plain_segment (request_segments ?m ?v)" by code_simp
  moreover have q: "supplied (hm_arguments ?m) ?v = [(''path'', ''100GOPRO/a&b=c d'')]" by code_simp
  ultimately show ?thesis using request_reads_back [OF u] u unfolding s q by auto
qed

text \<open>Only declared body arguments that were supplied are sent.\<close>

lemma body_exact: "body m vals a = (if a \<in> set (hm_bodyArguments m) then vals a else None)"
proof -
  have "fold (\<lambda>a b. case vals a of None \<Rightarrow> b | Some v \<Rightarrow> b(a \<mapsto> v)) as b a =
      (if a \<in> set as \<and> vals a \<noteq> None then vals a else b a)" for as b
    by (induction as arbitrary: b) (auto split: option.splits)
  then show ?thesis by (auto simp: body_def)
qed

text \<open>
  Dot segments are removed from the path, so a media path that holds them leaves the endpoint:
  this download asks for the reboot of the camera. An empty path is not refused as a missing one
  is, although it too leaves out the segment.
\<close>

definition download_file_message :: HttpMessage where
  "download_file_message = \<lparr>hm_name = ''download_file'', hm_endpoint = ''videos/DCIM'',
     hm_method = HmGet, hm_response = KindBinary, hm_components = [''path''],
     hm_arguments = [], hm_bodyArguments = [], hm_fastpass = FastpassNever\<rparr>"

lemma empty_component_not_refused:
  "url download_file_message camera_base [''path'' \<mapsto> HvString []] = Inr (camera_base\<lparr>uri_path := ''/videos/DCIM''\<rparr>)"
  by code_simp

lemma dot_segments_leave_endpoint:
  "url download_file_message camera_base
     [''path'' \<mapsto> HvString ''../../gp/gpControl/command/system/reset''] =
   Inr (camera_base\<lparr>uri_path := ''/gp/gpControl/command/system/reset''\<rparr>)"
  by code_simp

end
