(* ===== verification/Http_Client.thy ===== *)
theory Http_Client
  imports Http_Message
begin

text \<open>
  \<open>lib/src/http/gopro_http.dart\<close>: the exchange of a JSON request under a deadline, and a download
  that streams to a file under a stall timer. The network, the disk and the JSON decoder of
  \<open>dart:convert\<close> are arguments and labels: an answer and when it comes, a chunk of the body, time
  that passes, an operation on the file that succeeds or fails. A download is the sequence of
  the pieces between its awaits. Durations are in milliseconds, zero means none.
\<close>

section \<open>Exchanges\<close>

datatype HttpError =
    HeArgument string
  | HeMissing string
  | HeClosed
  | HeSocket
  | HeTimeout
  | HeFormat
  | HeStatus string nat "u16 list"
  | HeTruncated nat nat nat
  | HeStalled nat nat
  | HeStream
  | HeProgress
  | HeFileSystem

record GoProHttp =
  gh_base :: Uri
  gh_requestTimeout :: nat
  gh_stallTimeout :: nat
  gh_headers :: "string \<rightharpoonup> string"
  gh_closed :: bool

definition http_close :: "GoProHttp \<Rightarrow> GoProHttp" where
  "http_close h = (if gh_closed h then h else h\<lparr>gh_closed := True\<rparr>)"

record HttpRequest =
  rq_method :: HttpMethod
  rq_uri :: Uri
  rq_headers :: "string \<rightharpoonup> string"
  rq_body :: "(string \<rightharpoonup> HttpValue) option"

definition exchange_request :: "GoProHttp \<Rightarrow> Uri \<Rightarrow> HttpMessage \<Rightarrow> http_values \<Rightarrow> HttpRequest" where
  "exchange_request h u m vals =
     \<lparr>rq_method = (if hm_method m = HmPut then HmPut else HmGet), rq_uri = u, rq_headers = gh_headers h,
      rq_body = (if hm_method m = HmPut then Some (body m vals) else None)\<rparr>"

definition truncate_text :: "u16 list \<Rightarrow> u16 list" where
  "truncate_text s = (if length s \<le> 512 then dart_trim s else dart_trim (take 512 s) @ [0x2026])"

datatype HttpReply = ReplyFails | Reply nat string "u16 list"

definition bad_status :: "nat \<Rightarrow> bool" where
  "bad_status status \<longleftrightarrow> status < 200 \<or> 300 \<le> status"

fun exchange_run :: "HttpReply \<Rightarrow> HttpError + u16 list" where
  "exchange_run ReplyFails = Inl HeSocket"
| "exchange_run (Reply status reason text) =
     (if bad_status status then Inl (HeStatus reason status (truncate_text text)) else Inr text)"

text \<open>The network may answer after some time; what comes at the deadline or later comes too
  late. Without a deadline and an answer the exchange does not end.\<close>

definition exchange ::
  "GoProHttp \<Rightarrow> nat option \<Rightarrow> (HttpRequest \<Rightarrow> (nat \<times> HttpReply) option) \<Rightarrow> HttpRequest \<Rightarrow>
   (HttpError + u16 list) option" where
  "exchange h timeout network rq =
     (let deadline = (case timeout of Some t \<Rightarrow> t | None \<Rightarrow> gh_requestTimeout h) in
      if gh_closed h then Some (Inl HeClosed)
      else if deadline = 0 then map_option (\<lambda>(t, r). exchange_run r) (network rq)
      else Some (case network rq of
                   Some (t, r) \<Rightarrow> if t < deadline then exchange_run r else Inl HeTimeout
                 | None \<Rightarrow> Inl HeTimeout))"

text \<open>A decoded document is an object or a bare value, which is wrapped.\<close>

datatype 'j JsonDoc = JsonMap "string \<rightharpoonup> 'j" | JsonValue 'j

definition json ::
  "(u16 list \<Rightarrow> 'j JsonDoc option) \<Rightarrow> GoProHttp \<Rightarrow> HttpMessage \<Rightarrow> http_values \<Rightarrow> nat option \<Rightarrow>
   (HttpRequest \<Rightarrow> (nat \<times> HttpReply) option) \<Rightarrow> (HttpError + (string \<rightharpoonup> 'j)) option" where
  "json jsonDecode h m vals timeout network =
     (if hm_response m \<noteq> KindJson then Some (Inl (HeArgument (hm_name m)))
      else (case url m (gh_base h) vals of
              Inl c \<Rightarrow> Some (Inl (HeMissing c))
            | Inr u \<Rightarrow>
                map_option
                  (\<lambda>r. case r of
                         Inl e \<Rightarrow> Inl e
                       | Inr text \<Rightarrow>
                           if text = [] then Inr Map.empty
                           else (case jsonDecode text of
                                   None \<Rightarrow> Inl HeFormat
                                 | Some (JsonMap d) \<Rightarrow> Inr d
                                 | Some (JsonValue v) \<Rightarrow> Inr [''value'' \<mapsto> v]))
                  (exchange h timeout network (exchange_request h u m vals))))"

section \<open>Downloads\<close>

datatype DlPhase =
    DlRequest
  | DlErrorBody nat string
  | DlParent
  | DlPumping
  | DlCancelling
  | DlCatchClose HttpError
  | DlCatchExists HttpError
  | DlCatchDelete HttpError
  | DlEndClose
  | DlTruncExists
  | DlTruncDelete
  | DlDone "HttpError + unit"

text \<open>
  \<open>dl_added\<close> is what was handed to the sink of the file, \<open>dl_file\<close> what is at the destination,
  \<open>dl_idle\<close> the time since the stall timer was armed.
\<close>

record Download =
  dl_phase :: DlPhase
  dl_status :: nat
  dl_total :: "nat option"
  dl_received :: nat
  dl_added :: bytes
  dl_pump :: bool
  dl_idle :: "nat option"
  dl_stall :: nat
  dl_file :: "bytes option"

datatype DlLabel =
    DlAnswerFails
  | DlAnswer nat string int
  | DlText "u16 list option"
  | DlCreated bool
  | DlChunk bytes
  | DlStreamFails
  | DlStreamDone
  | DlCancelled
  | DlElapse nat
  | DlWritten nat
  | DlClosed bool
  | DlNext
  | DlDeleted bool

datatype DlOut = DlAdd bytes | DlProgress nat "nat option"

definition download :: "GoProHttp \<Rightarrow> HttpMessage \<Rightarrow> http_values \<Rightarrow> bytes option \<Rightarrow> Download" where
  "download h m vals destination =
     \<lparr>dl_phase =
        (if hm_response m \<noteq> KindBinary then DlDone (Inl (HeArgument (hm_name m)))
         else (case url m (gh_base h) vals of
                 Inl c \<Rightarrow> DlDone (Inl (HeMissing c))
               | Inr u \<Rightarrow> if gh_closed h then DlDone (Inl HeClosed) else DlRequest)),
      dl_status = 0, dl_total = None, dl_received = 0, dl_added = [], dl_pump = False,
      dl_idle = None, dl_stall = gh_stallTimeout h, dl_file = destination\<rparr>"

definition download_request :: "GoProHttp \<Rightarrow> Uri \<Rightarrow> HttpRequest" where
  "download_request h u = \<lparr>rq_method = HmGet, rq_uri = u, rq_headers = gh_headers h, rq_body = None\<rparr>"

definition dl_arm :: "Download \<Rightarrow> Download" where
  "dl_arm s = s\<lparr>dl_idle := (if dl_stall s = 0 then None else Some 0)\<rparr>"

definition dl_answer :: "Download \<Rightarrow> nat \<Rightarrow> string \<Rightarrow> int \<Rightarrow> Download" where
  "dl_answer s status reason contentLength =
     (if bad_status status then s\<lparr>dl_phase := DlErrorBody status reason\<rparr>
      else s\<lparr>dl_status := status, dl_phase := DlParent,
             dl_total := (if contentLength < 0 then None else Some (nat contentLength))\<rparr>)"

definition dl_begin_pump :: "Download \<Rightarrow> Download" where
  "dl_begin_pump s = dl_arm (s\<lparr>dl_phase := DlPumping, dl_pump := True\<rparr>)"

text \<open>The catch block, entered with an error of the pump or of the timer.\<close>

definition dl_catch :: "HttpError \<Rightarrow> Download \<Rightarrow> Download" where
  "dl_catch e s = s\<lparr>dl_idle := None, dl_phase := DlCatchClose e\<rparr>"

text \<open>
  A chunk. The pump outlives a stall; adding to the sink that is closed then ends it. When the
  callback throws, the loop first cancels the stream and waits for that, with the stall timer
  just armed.
\<close>

definition dl_chunk :: "(nat \<Rightarrow> nat option \<Rightarrow> bool) \<Rightarrow> bytes \<Rightarrow> Download \<Rightarrow> Download \<times> DlOut list" where
  "dl_chunk onProgress_throws chunk s =
     (let s1 = s\<lparr>dl_received := dl_received s + length chunk\<rparr> in
      if dl_phase s \<noteq> DlPumping then (s1\<lparr>dl_pump := False\<rparr>, [])
      else
        (let s2 = dl_arm (s1\<lparr>dl_added := dl_added s1 @ chunk\<rparr>);
             out = [DlAdd chunk, DlProgress (dl_received s2) (dl_total s2)] in
         if onProgress_throws (dl_received s2) (dl_total s2)
         then (s2\<lparr>dl_pump := False, dl_phase := DlCancelling\<rparr>, out)
         else (s2, out)))"

definition dl_elapse :: "nat \<Rightarrow> Download \<Rightarrow> Download" where
  "dl_elapse n s =
     (case dl_idle s of
        None \<Rightarrow> s
      | Some t \<Rightarrow>
          if dl_stall s \<le> t + n then dl_catch (HeStalled (dl_stall s) (dl_received s)) s
          else s\<lparr>dl_idle := Some (t + n)\<rparr>)"

text \<open>The sink is closed: what was added is in the file, or a write had failed.\<close>

definition dl_sink_closed :: "bool \<Rightarrow> Download \<Rightarrow> Download" where
  "dl_sink_closed ok s =
     (if \<not> ok then s\<lparr>dl_phase := DlDone (Inl HeFileSystem)\<rparr>
      else
        (let s1 = s\<lparr>dl_file := Some (dl_added s)\<rparr> in
         case dl_phase s of
           DlCatchClose e \<Rightarrow> s1\<lparr>dl_phase := DlCatchExists e\<rparr>
         | _ \<Rightarrow>
             if dl_total s \<noteq> None \<and> dl_total s \<noteq> Some (dl_received s)
             then s1\<lparr>dl_phase := DlTruncExists\<rparr>
             else s1\<lparr>dl_phase := DlDone (Inr ())\<rparr>))"

definition dl_truncated :: "Download \<Rightarrow> HttpError" where
  "dl_truncated s = HeTruncated (dl_received s) (case dl_total s of Some n \<Rightarrow> n | None \<Rightarrow> 0) (dl_status s)"

definition dl_exists :: "Download \<Rightarrow> Download" where
  "dl_exists s =
     (case dl_phase s of
        DlCatchExists e \<Rightarrow>
          s\<lparr>dl_phase := (if dl_file s \<noteq> None then DlCatchDelete e else DlDone (Inl e))\<rparr>
      | DlTruncExists \<Rightarrow>
          s\<lparr>dl_phase := (if dl_file s \<noteq> None then DlTruncDelete else DlDone (Inl (dl_truncated s)))\<rparr>
      | _ \<Rightarrow> s)"

definition dl_deleted :: "bool \<Rightarrow> Download \<Rightarrow> Download" where
  "dl_deleted ok s =
     (if \<not> ok then s\<lparr>dl_phase := DlDone (Inl HeFileSystem)\<rparr>
      else (case dl_phase s of
              DlCatchDelete e \<Rightarrow> s\<lparr>dl_file := None, dl_phase := DlDone (Inl e)\<rparr>
            | DlTruncDelete \<Rightarrow> s\<lparr>dl_file := None, dl_phase := DlDone (Inl (dl_truncated s))\<rparr>
            | _ \<Rightarrow> s))"

text \<open>Which phases have a sink that is open or being closed, and that wait for a deletion.\<close>

fun sink_open :: "DlPhase \<Rightarrow> bool" where
  "sink_open DlPumping = True"
| "sink_open DlCancelling = True"
| "sink_open p = (case p of DlCatchClose e \<Rightarrow> True | DlEndClose \<Rightarrow> True | _ \<Rightarrow> False)"

fun sink_closing :: "DlPhase \<Rightarrow> bool" where
  "sink_closing p = (case p of DlCatchClose e \<Rightarrow> True | DlEndClose \<Rightarrow> True | _ \<Rightarrow> False)"

fun deleting :: "DlPhase \<Rightarrow> bool" where
  "deleting p = (case p of DlCatchDelete e \<Rightarrow> True | DlTruncDelete \<Rightarrow> True | _ \<Rightarrow> False)"

fun dl_step :: "(nat \<Rightarrow> nat option \<Rightarrow> bool) \<Rightarrow> Download \<Rightarrow> DlLabel \<Rightarrow> Download \<times> DlOut list" where
  "dl_step thr s DlAnswerFails =
     (if dl_phase s = DlRequest then s\<lparr>dl_phase := DlDone (Inl HeSocket)\<rparr> else s, [])"
| "dl_step thr s (DlAnswer status reason len) =
     (if dl_phase s = DlRequest then dl_answer s status reason len else s, [])"
| "dl_step thr s (DlText t) =
     (case dl_phase s of
        DlErrorBody status reason \<Rightarrow>
          s\<lparr>dl_phase := DlDone (Inl (case t of
              None \<Rightarrow> HeSocket | Some text \<Rightarrow> HeStatus reason status (truncate_text text)))\<rparr>
      | _ \<Rightarrow> s, [])"
| "dl_step thr s (DlCreated ok) =
     (if dl_phase s = DlParent
      then (if ok then dl_begin_pump s else s\<lparr>dl_phase := DlDone (Inl HeFileSystem)\<rparr>) else s, [])"
| "dl_step thr s (DlChunk chunk) = (if dl_pump s then dl_chunk thr chunk s else (s, []))"
| "dl_step thr s DlStreamFails =
     (if \<not> dl_pump s then s
      else if dl_phase s = DlPumping then dl_catch HeStream (s\<lparr>dl_pump := False\<rparr>)
      else s\<lparr>dl_pump := False\<rparr>, [])"
| "dl_step thr s DlStreamDone =
     (if \<not> dl_pump s then s
      else if dl_phase s = DlPumping then s\<lparr>dl_pump := False, dl_idle := None, dl_phase := DlEndClose\<rparr>
      else s\<lparr>dl_pump := False\<rparr>, [])"
| "dl_step thr s DlCancelled = (if dl_phase s = DlCancelling then dl_catch HeProgress s else s, [])"
| "dl_step thr s (DlElapse n) = (dl_elapse n s, [])"
| "dl_step thr s (DlWritten n) =
     (if sink_open (dl_phase s) then s\<lparr>dl_file := Some (take n (dl_added s))\<rparr> else s, [])"
| "dl_step thr s (DlClosed ok) = (if sink_closing (dl_phase s) then dl_sink_closed ok s else s, [])"
| "dl_step thr s DlNext = (dl_exists s, [])"
| "dl_step thr s (DlDeleted ok) = (if deleting (dl_phase s) then dl_deleted ok s else s, [])"

section \<open>Exchanges end and send what was declared\<close>

lemma exchange_request_body: "rq_body (exchange_request h u m vals) \<noteq> None \<longleftrightarrow> hm_method m = HmPut"
  by (simp add: exchange_request_def)

text \<open>With a deadline every JSON request ends, whatever the network does, and not with an answer
  that came after it.\<close>

lemma json_ends:
  assumes "gh_requestTimeout h \<noteq> 0"
  shows "json jsonDecode h m vals None network \<noteq> None"
  using assms by (simp add: json_def exchange_def Let_def split: sum.splits)

lemma json_not_late:
  assumes "json jsonDecode h m vals None network = Some (Inr d)" "gh_requestTimeout h \<noteq> 0"
  shows "\<exists>rq t status reason text. network rq = Some (t, Reply status reason text) \<and>
     t < gh_requestTimeout h \<and> \<not> bad_status status"
proof -
  obtain u where u: "url m (gh_base h) vals = Inr u"
    using assms(1) by (auto simp: json_def split: if_splits sum.splits)
  let ?rq = "exchange_request h u m vals"
  obtain x where x: "exchange h None network ?rq = Some x"
    using assms(1) u by (auto simp: json_def split: if_splits)
  then obtain t0 where "x = Inr t0"
    using assms(1) u by (cases x) (auto simp: json_def split: if_splits)
  with x obtain t r where "network ?rq = Some (t, r)" "t < gh_requestTimeout h" "exchange_run r = Inr t0"
    using assms(2) by (auto simp: exchange_def Let_def split: if_splits option.splits)
  then show ?thesis by (cases r; fastforce split: if_splits)
qed

section \<open>A download leaves a whole file or none\<close>

text \<open>Errors after the destination was opened, and labels of a disk without faults.\<close>

fun late_error :: "HttpError \<Rightarrow> bool" where
  "late_error (HeStalled i r) = True"
| "late_error HeStream = True"
| "late_error HeProgress = True"
| "late_error (HeTruncated r t st) = True"
| "late_error e = False"

definition disk_works :: "DlLabel \<Rightarrow> bool" where
  "disk_works l \<longleftrightarrow> l \<noteq> DlClosed False \<and> l \<noteq> DlDeleted False"

fun added_by :: "DlOut list \<Rightarrow> bytes" where
  "added_by [] = []"
| "added_by (DlAdd c # os) = c @ added_by os"
| "added_by (DlProgress r t # os) = added_by os"

lemma added_by_append [simp]: "added_by (xs @ ys) = added_by xs @ added_by ys"
  by (induction xs rule: added_by.induct) simp_all

fun dl_good :: "bytes option \<Rightarrow> DlPhase \<Rightarrow> Download \<Rightarrow> bool" where
  "dl_good old DlPumping s \<longleftrightarrow>
     dl_pump s \<and> dl_received s = length (dl_added s) \<and> (dl_idle s = None \<longleftrightarrow> dl_stall s = 0)"
| "dl_good old DlCancelling s \<longleftrightarrow> \<not> dl_pump s \<and> (dl_idle s = None \<longleftrightarrow> dl_stall s = 0)"
| "dl_good old (DlCatchClose e) s \<longleftrightarrow> dl_idle s = None \<and> late_error e"
| "dl_good old (DlCatchExists e) s \<longleftrightarrow> dl_idle s = None \<and> late_error e"
| "dl_good old (DlCatchDelete e) s \<longleftrightarrow> dl_idle s = None \<and> late_error e"
| "dl_good old DlEndClose s \<longleftrightarrow> \<not> dl_pump s \<and> dl_idle s = None \<and> dl_received s = length (dl_added s)"
| "dl_good old DlTruncExists s \<longleftrightarrow> \<not> dl_pump s \<and> dl_idle s = None"
| "dl_good old DlTruncDelete s \<longleftrightarrow> \<not> dl_pump s \<and> dl_idle s = None"
| "dl_good old (DlDone (Inr u)) s \<longleftrightarrow>
     \<not> dl_pump s \<and> dl_idle s = None \<and> dl_file s = Some (dl_added s) \<and>
     (\<forall>n. dl_total s = Some n \<longrightarrow> length (dl_added s) = n)"
| "dl_good old (DlDone (Inl e)) s \<longleftrightarrow>
     dl_idle s = None \<and> dl_file s = (if late_error e then None else old)"
| "dl_good old p s \<longleftrightarrow>
     \<not> dl_pump s \<and> dl_idle s = None \<and> dl_file s = old \<and> dl_added s = [] \<and> dl_received s = 0"

definition dl_inv :: "bytes option \<Rightarrow> Download \<Rightarrow> bool" where
  "dl_inv old s \<longleftrightarrow> dl_good old (dl_phase s) s"

lemmas dl_defs = dl_arm_def dl_answer_def dl_begin_pump_def dl_catch_def dl_chunk_def dl_elapse_def
  dl_sink_closed_def dl_exists_def dl_deleted_def dl_truncated_def Let_def

lemma dl_good_done: "dl_good old (DlDone r) s \<longleftrightarrow>
    dl_idle s = None \<and>
    (case r of
       Inl e \<Rightarrow> dl_file s = (if late_error e then None else old)
     | Inr u \<Rightarrow> \<not> dl_pump s \<and> dl_file s = Some (dl_added s) \<and> (\<forall>n. dl_total s = Some n \<longrightarrow> length (dl_added s) = n))"
  by (cases r) auto

lemma dl_inv_download: "dl_inv old (download h m vals old)"
  by (simp add: dl_inv_def download_def split: sum.splits)

lemma dl_inv_step: "dl_inv old s \<Longrightarrow> disk_works l \<Longrightarrow> dl_inv old (fst (dl_step thr s l))"
  by (cases l; cases "dl_phase s")
    (auto simp: dl_inv_def dl_defs disk_works_def dl_good_done split: option.splits sum.splits)

interpretation dl: guarded_machine "dl_step thr" "download h m vals old" "dl_inv old" disk_works
  for thr h m vals old
  by unfold_locales (rule dl_inv_download dl_inv_step; assumption?)+

lemma added_by_step: "dl_added (fst (dl_step thr s l)) = dl_added s @ added_by (snd (dl_step thr s l))"
  by (cases l) (auto simp: dl_defs split: option.splits DlPhase.splits)

lemma added_by_run: "dl_added (fst (run (dl_step thr) s ls)) = dl_added s @ added_by (snd (run (dl_step thr) s ls))"
proof (induction ls arbitrary: s)
  case (Cons l ls)
  then show ?case by (simp add: Let_def split_beta added_by_step)
qed simp

text \<open>
  C17. Whatever the network does and however long it takes, on a disk where no closing of the
  file and no deletion fails: when a download is over, either it returned, and then the
  destination holds exactly the bytes that arrived, as many as the camera declared if it
  declared a length; or it threw after the destination was opened, for a stall, a broken stream,
  a callback that throws or a body that was too short, and then there is no file; or it threw
  before, and then what was at the destination is untouched.
\<close>

theorem download_whole_or_absent:
  assumes "list_all disk_works ls"
    and "run (dl_step thr) (download h m vals old) ls = (s, out)"
    and "dl_phase s = DlDone r"
  shows "case r of
      Inr u \<Rightarrow> dl_file s = Some (added_by out) \<and> (\<forall>n. dl_total s = Some n \<longrightarrow> length (added_by out) = n)
    | Inl e \<Rightarrow> dl_file s = (if late_error e then None else old)"
proof -
  have "dl_inv old s" using dl.guarded_run [OF assms(1), of old thr h m vals] assms(2) by simp
  moreover have "dl_added s = added_by out"
    using added_by_run [of thr "download h m vals old" ls] assms(2) by (simp add: download_def)
  ultimately show ?thesis using assms(3) by (simp add: dl_inv_def dl_good_done split: sum.splits)
qed

definition usb_http :: GoProHttp where
  "usb_http = \<lparr>gh_base = camera_base, gh_requestTimeout = 5000, gh_stallTimeout = 30000,
     gh_headers = Map.empty, gh_closed = False\<rparr>"

definition media_values :: http_values where
  "media_values = [''path'' \<mapsto> HvString ''100GOPRO/GX010001.MP4'']"

lemma download_starts:
  "download usb_http download_file_message media_values old =
     \<lparr>dl_phase = DlRequest, dl_status = 0, dl_total = None, dl_received = 0, dl_added = [],
      dl_pump = False, dl_idle = None, dl_stall = 30000, dl_file = old\<rparr>"
proof -
  have "\<not> isl (url download_file_message camera_base media_values)" by code_simp
  then show ?thesis
    by (auto simp: download_def usb_http_def download_file_message_def split: sum.splits)
qed

lemma download_whole_or_absent_witness:
  "let (s, out) = run (dl_step (\<lambda>_ _. False)) (download usb_http download_file_message media_values None)
       [DlAnswer 200 ''OK'' 3, DlCreated True, DlChunk [1, 2], DlElapse 20000, DlChunk [3], DlStreamDone, DlClosed True]
   in dl_phase s = DlDone (Inr ()) \<and> dl_file s = Some [1, 2, 3] \<and> added_by out = [1, 2, 3]"
proof -
  let ?ls = "[DlAnswer 200 ''OK'' 3, DlCreated True, DlChunk [1, 2], DlElapse 20000, DlChunk [3], DlStreamDone, DlClosed True]"
  let ?d = "download usb_http download_file_message media_values None"
  obtain s out where r: "run (dl_step (\<lambda>_ _. False)) ?d ?ls = (s, out)" by fastforce
  then have p: "dl_phase s = DlDone (Inr ())" and o: "added_by out = [1, 2, 3]"
    by (auto simp: download_starts dl_defs bad_status_def)
  have "list_all disk_works ?ls" by (simp add: disk_works_def)
  from download_whole_or_absent [OF this r p] show ?thesis
    unfolding r Let_def prod.case by (simp add: p o)
qed

section \<open>A download that stalls ends\<close>

definition past_pumping :: "DlPhase \<Rightarrow> bool" where
  "past_pumping p \<longleftrightarrow> p \<noteq> DlRequest \<and> (\<forall>st rs. p \<noteq> DlErrorBody st rs) \<and> p \<noteq> DlParent \<and> p \<noteq> DlPumping \<and> p \<noteq> DlCancelling"

lemma past_pumping_step: "past_pumping (dl_phase s) \<Longrightarrow> past_pumping (dl_phase (fst (dl_step thr s l)))"
  by (cases l; cases "dl_phase s") (auto simp: past_pumping_def dl_defs split: option.splits)

lemma past_pumping_run: "past_pumping (dl_phase s) \<Longrightarrow> past_pumping (dl_phase (fst (run (dl_step thr) s ls)))"
  by (rule run_invariant [where I = "\<lambda>s. past_pumping (dl_phase s)"]) (rule past_pumping_step)

fun elapsed :: "DlLabel \<Rightarrow> nat" where
  "elapsed (DlElapse n) = n"
| "elapsed l = 0"

fun is_chunk :: "DlLabel \<Rightarrow> bool" where
  "is_chunk (DlChunk c) = True"
| "is_chunk l = False"

lemma quiet_step:
  assumes "dl_phase s = DlPumping" "dl_idle s = Some t" "\<not> is_chunk l"
  shows "past_pumping (dl_phase (fst (dl_step thr s l))) \<or>
    dl_phase (fst (dl_step thr s l)) = DlPumping \<and> dl_idle (fst (dl_step thr s l)) = Some (t + elapsed l) \<and>
    dl_stall (fst (dl_step thr s l)) = dl_stall s \<and> (elapsed l = 0 \<or> t + elapsed l < dl_stall s)"
  using assms by (cases l) (auto simp: past_pumping_def dl_defs)

lemma quiet_run:
  assumes "dl_phase s = DlPumping" "dl_idle s = Some t" "t < dl_stall s" "list_all (\<lambda>l. \<not> is_chunk l) ls"
    and "dl_stall s \<le> t + sum_list (map elapsed ls)"
  shows "past_pumping (dl_phase (fst (run (dl_step thr) s ls)))"
  using assms
proof (induction ls arbitrary: s t)
  case (Cons l ls)
  let ?s = "fst (dl_step thr s l)"
  from Cons.prems quiet_step [of s t l thr]
  consider "past_pumping (dl_phase ?s)"
    | "dl_phase ?s = DlPumping" "dl_idle ?s = Some (t + elapsed l)" "dl_stall ?s = dl_stall s"
      "t + elapsed l < dl_stall s"
    by fastforce
  then show ?case
  proof cases
    case 1
    then show ?thesis using past_pumping_run [of ?s thr ls] by (simp add: Let_def split_beta)
  next
    case 2
    then show ?thesis using Cons.IH [of ?s "t + elapsed l"] Cons.prems by (simp add: Let_def split_beta)
  qed
qed simp

text \<open>
  A stream that stays silent for the stall timeout after a chunk, or after the headers, whatever
  else happens meanwhile, is over: closing the sink, looking for the file and deleting it end it.
\<close>

lemma settled_download_done:
  assumes "past_pumping (dl_phase s)"
  shows "\<exists>r. dl_phase (fst (run (dl_step thr) s [DlClosed a, DlNext, DlDeleted b])) = DlDone r"
  using assms by (cases "dl_phase s") (auto simp: past_pumping_def dl_defs)

lemma stalled_download_ends:
  assumes "dl_phase s = DlPumping" "dl_idle s = Some t" "t < dl_stall s" "list_all (\<lambda>l. \<not> is_chunk l) ls"
    and "dl_stall s \<le> t + sum_list (map elapsed ls)"
  shows "\<exists>r. dl_phase (fst (run (dl_step thr) s (ls @ [DlClosed a, DlNext, DlDeleted b]))) = DlDone r"
  using settled_download_done [OF quiet_run [OF assms]] by simp

text \<open>
  The timer is armed only once the headers are there: a camera that takes the connection and
  then stays silent is waited for without end.
\<close>

lemma silent_before_headers_waits_forever:
  "list_all (\<lambda>l. \<exists>n. l = DlElapse n) ls \<Longrightarrow>
   run (dl_step thr) (download usb_http download_file_message media_values old) ls =
     (download usb_http download_file_message media_values old, [])"
proof (induction ls)
  case (Cons l ls)
  then obtain n where "l = DlElapse n" by auto
  then have "dl_step thr (download usb_http download_file_message media_values old) l =
      (download usb_http download_file_message media_values old, [])"
    by (simp add: download_starts dl_elapse_def)
  with Cons show ?case by simp
qed simp

text \<open>
  A write that fails, on a full disk say, shows when the sink is closed. That is outside the
  block that removes the file, so the part that was written stays behind.
\<close>

lemma failed_write_leaves_partial_file:
  "let s = fst (run (dl_step (\<lambda>_ _. False)) (download usb_http download_file_message media_values None)
       [DlAnswer 200 ''OK'' 3, DlCreated True, DlChunk [1, 2], DlWritten 1, DlChunk [3], DlStreamDone, DlClosed False])
   in dl_phase s = DlDone (Inl HeFileSystem) \<and> dl_file s = Some [1]"
  by (simp add: download_starts dl_defs bad_status_def)

end
