(* ===== verification/Http_Commands.thy ===== *)
theory Http_Commands
  imports Http_Client
begin

text \<open>
  \<open>lib/src/generated/http_commands.dart\<close>, the table of HTTP messages, and \<open>lib/src/http/commands.dart\<close>,
  the command surface over it: one constructor per method with the method's arguments, the name
  of the message it looks up and the values it hands over. The two are written apart and meet
  by name only; the theorem says that they agree.
\<close>

section \<open>The table of messages\<close>

definition message ::
  "string \<Rightarrow> string \<Rightarrow> HttpMethod \<Rightarrow> HttpResponseKind \<Rightarrow> string list \<Rightarrow> string list \<Rightarrow> string list \<Rightarrow>
   HttpFastpass \<Rightarrow> HttpMessage" where
  "message name endpoint method response components arguments bodyArguments fastpass =
     \<lparr>hm_name = name, hm_endpoint = endpoint, hm_method = method, hm_response = response,
      hm_components = components, hm_arguments = arguments, hm_bodyArguments = bodyArguments,
      hm_fastpass = fastpass\<rparr>"

definition kHttpMessages :: "HttpMessage list" where
  "kHttpMessages =
    [
     message ''add_file_hilight'' ''gopro/media/hilight/file'' HmGet KindJson
       [] [''path'', ''ms''] [] FastpassNever,
     message ''delete_all_media'' ''/gp/gpControl/command/storage/delete/all'' HmGet KindJson
       [] [] [] FastpassNever,
     message ''delete_file'' ''gopro/media/delete/file'' HmGet KindJson
       [] [''path''] [] FastpassNever,
     message ''delete_group'' ''/gp/gpControl/command/storage/delete/group'' HmGet KindJson
       [] [''p''] [] FastpassNever,
     message ''download_file'' ''videos/DCIM'' HmGet KindBinary
       [''path''] [] [] FastpassNever,
     message ''get_camera_info'' ''gopro/camera/info'' HmGet KindJson
       [] [] [] FastpassNever,
     message ''get_camera_name'' ''gopro/camera/name'' HmGet KindJson
       [] [] [] FastpassNever,
     message ''get_camera_state'' ''gopro/camera/state'' HmGet KindJson
       [] [] [] FastpassAlways,
     message ''get_date_time'' ''gopro/camera/get_date_time'' HmGet KindJson
       [] [] [] FastpassNever,
     message ''get_gpmf_data'' ''gopro/media/gpmf'' HmGet KindBinary
       [] [''path''] [] FastpassNever,
     message ''get_last_captured_media'' ''gopro/media/last_captured'' HmGet KindJson
       [] [] [] FastpassNever,
     message ''get_media_list'' ''gopro/media/list'' HmGet KindJson
       [] [] [] FastpassNever,
     message ''get_media_metadata'' ''gopro/media/info'' HmGet KindJson
       [] [''path''] [] FastpassNever,
     message ''get_open_gopro_api_version'' ''gopro/version'' HmGet KindJson
       [] [] [] FastpassNever,
     message ''get_preset_status'' ''gopro/camera/presets/get'' HmGet KindJson
       [] [''include-hidden''] [] FastpassNever,
     message ''get_screennail'' ''gopro/media/screennail'' HmGet KindBinary
       [] [''path''] [] FastpassNever,
     message ''get_telemetry'' ''gopro/media/telemetry'' HmGet KindBinary
       [] [''path''] [] FastpassNever,
     message ''get_thumbnail'' ''gopro/media/thumbnail'' HmGet KindBinary
       [] [''path''] [] FastpassNever,
     message ''get_webcam_version'' ''gopro/webcam/version'' HmGet KindJson
       [] [] [] FastpassNever,
     message ''load_preset'' ''gopro/camera/presets/load'' HmGet KindJson
       [] [''id''] [] FastpassNever,
     message ''load_preset_group'' ''gopro/camera/presets/set_group'' HmGet KindJson
       [] [''id''] [] FastpassNever,
     message ''reboot'' ''gp/gpControl/command/system/reset'' HmGet KindJson
       [] [] [] FastpassAlways,
     message ''remove_file_hilight'' ''gopro/media/hilight/remove'' HmGet KindJson
       [] [''path'', ''ms''] [] FastpassNever,
     message ''set_camera_control'' ''gopro/camera/control/set_ui_controller'' HmGet KindJson
       [] [''p''] [] FastpassNever,
     message ''set_camera_name'' ''gopro/camera/name'' HmPut KindJson
       [] [] [''value''] FastpassNever,
     message ''set_date_time'' ''gopro/camera/set_date_time'' HmGet KindJson
       [] [''date'', ''time'', ''tzone'', ''dst''] [] FastpassNever,
     message ''set_digital_zoom'' ''gopro/camera/digital_zoom'' HmGet KindJson
       [] [''percent''] [] FastpassNever,
     message ''set_keep_alive'' ''gopro/camera/keep_alive'' HmGet KindJson
       [] [] [] FastpassNever,
     message ''set_preset_visibility'' ''gopro/camera/presets/set_visibility'' HmGet KindJson
       [] [''id'', ''visible''] [] FastpassNever,
     message ''set_preview_stream'' ''gopro/camera/stream'' HmGet KindJson
       [''mode''] [''port''] [] FastpassNever,
     message ''set_shutter'' ''gopro/camera/shutter'' HmGet KindJson
       [''mode''] [] [] FastpassConditional,
     message ''set_third_party_client_info'' ''gopro/camera/analytics/set_client_info'' HmGet KindJson
       [] [] [] FastpassNever,
     message ''set_turbo_mode'' ''gopro/media/turbo_transfer'' HmGet KindJson
       [] [''p''] [] FastpassNever,
     message ''update_custom_preset'' ''gopro/camera/presets/update_custom'' HmPut KindJson
       [] [] [''custom_name'', ''icon_id'', ''title_id''] FastpassNever,
     message ''webcam_exit'' ''gopro/webcam/exit'' HmGet KindJson
       [] [] [] FastpassAlways,
     message ''webcam_preview'' ''gopro/webcam/preview'' HmGet KindJson
       [] [] [] FastpassAlways,
     message ''webcam_start'' ''gopro/webcam/start'' HmGet KindJson
       [] [''res'', ''fov'', ''port'', ''protocol''] [] FastpassAlways,
     message ''webcam_status'' ''gopro/webcam/status'' HmGet KindJson
       [] [] [] FastpassAlways,
     message ''webcam_stop'' ''gopro/webcam/stop'' HmGet KindJson
       [] [] [] FastpassAlways,
     message ''wired_usb_control'' ''gopro/camera/control/wired_usb'' HmGet KindJson
       [] [''p''] [] FastpassNever
    ]"

text \<open>\<open>GoProCommands._m\<close>: the message of that name, or an error.\<close>

definition message_named :: "string \<Rightarrow> HttpMessage option" where
  "message_named name = List.find (\<lambda>m. hm_name m = name) kHttpMessages"

section \<open>The commands\<close>

datatype Toggle = ToggleEnable | ToggleDisable

fun toggle_value :: "Toggle \<Rightarrow> int" where
  "toggle_value ToggleEnable = 1"
| "toggle_value ToggleDisable = 0"

datatype CameraControl = ControlIdle | ControlCamera | ControlExternal

fun control_value :: "CameraControl \<Rightarrow> int" where
  "control_value ControlIdle = 0"
| "control_value ControlCamera = 1"
| "control_value ControlExternal = 2"

record DateTime =
  dt_year :: int
  dt_month :: int
  dt_day :: int
  dt_hour :: int
  dt_minute :: int
  dt_second :: int

datatype GoProCommand =
    GetCameraState
  | GetCameraInfo
  | GetApiVersion
  | GetCameraName
  | SetCameraName string
  | KeepAlive
  | Reboot
  | SetThirdPartyClientInfo
  | SetCameraControl CameraControl
  | SetWiredUsbControl Toggle
  | SetDigitalZoom int
  | SetShutter Toggle
  | SetDateTime DateTime int bool
  | GetDateTime
  | GetPresetStatus bool
  | LoadPreset int
  | LoadPresetGroup int
  | SetPresetVisibility int bool
  | UpdateCustomPreset "int option" "HttpValue option" "string option"
  | GetMediaList
  | GetMediaMetadata string
  | GetLastCapturedMedia
  | DeleteFile string
  | DeleteGroup string
  | DeleteAllMedia
  | AddHilight string "int option"
  | RemoveHilight string int
  | SetTurboTransfer Toggle
  | DownloadFile string
  | DownloadThumbnail string
  | DownloadScreennail string
  | DownloadGpmf string
  | DownloadTelemetry string
  | SetPreviewStream Toggle "int option"
  | WebcamStart "int option" "int option" "int option" "string option"
  | WebcamStop
  | WebcamExit
  | WebcamPreview
  | WebcamStatus
  | GetWebcamVersion

definition start_stop :: "Toggle \<Rightarrow> HttpValue" where
  "start_stop t = HvString (if t = ToggleEnable then ''start'' else ''stop'')"

definition flag :: "bool \<Rightarrow> HttpValue" where
  "flag b = HvInt (if b then 1 else 0)"

definition join_date :: "int \<Rightarrow> int \<Rightarrow> int \<Rightarrow> string" where
  "join_date a b c =
     value_toString (HvInt a) @ ''_'' @ value_toString (HvInt b) @ ''_'' @ value_toString (HvInt c)"

fun command_name :: "GoProCommand \<Rightarrow> string" where
  "command_name GetCameraState = ''get_camera_state''"
| "command_name GetCameraInfo = ''get_camera_info''"
| "command_name GetApiVersion = ''get_open_gopro_api_version''"
| "command_name GetCameraName = ''get_camera_name''"
| "command_name (SetCameraName a) = ''set_camera_name''"
| "command_name KeepAlive = ''set_keep_alive''"
| "command_name Reboot = ''reboot''"
| "command_name SetThirdPartyClientInfo = ''set_third_party_client_info''"
| "command_name (SetCameraControl a) = ''set_camera_control''"
| "command_name (SetWiredUsbControl a) = ''wired_usb_control''"
| "command_name (SetDigitalZoom a) = ''set_digital_zoom''"
| "command_name (SetShutter a) = ''set_shutter''"
| "command_name (SetDateTime a b c) = ''set_date_time''"
| "command_name GetDateTime = ''get_date_time''"
| "command_name (GetPresetStatus a) = ''get_preset_status''"
| "command_name (LoadPreset a) = ''load_preset''"
| "command_name (LoadPresetGroup a) = ''load_preset_group''"
| "command_name (SetPresetVisibility a b) = ''set_preset_visibility''"
| "command_name (UpdateCustomPreset a b c) = ''update_custom_preset''"
| "command_name GetMediaList = ''get_media_list''"
| "command_name (GetMediaMetadata a) = ''get_media_metadata''"
| "command_name GetLastCapturedMedia = ''get_last_captured_media''"
| "command_name (DeleteFile a) = ''delete_file''"
| "command_name (DeleteGroup a) = ''delete_group''"
| "command_name DeleteAllMedia = ''delete_all_media''"
| "command_name (AddHilight a b) = ''add_file_hilight''"
| "command_name (RemoveHilight a b) = ''remove_file_hilight''"
| "command_name (SetTurboTransfer a) = ''set_turbo_mode''"
| "command_name (DownloadFile a) = ''download_file''"
| "command_name (DownloadThumbnail a) = ''get_thumbnail''"
| "command_name (DownloadScreennail a) = ''get_screennail''"
| "command_name (DownloadGpmf a) = ''get_gpmf_data''"
| "command_name (DownloadTelemetry a) = ''get_telemetry''"
| "command_name (SetPreviewStream a b) = ''set_preview_stream''"
| "command_name (WebcamStart a b c d) = ''webcam_start''"
| "command_name WebcamStop = ''webcam_stop''"
| "command_name WebcamExit = ''webcam_exit''"
| "command_name WebcamPreview = ''webcam_preview''"
| "command_name WebcamStatus = ''webcam_status''"
| "command_name GetWebcamVersion = ''get_webcam_version''"

text \<open>The entries of the map a method builds; a null value is \<open>None\<close>.\<close>

fun command_values :: "GoProCommand \<Rightarrow> (string \<times> HttpValue option) list" where
  "command_values GetCameraState = []"
| "command_values GetCameraInfo = []"
| "command_values GetApiVersion = []"
| "command_values GetCameraName = []"
| "command_values (SetCameraName a) = [(''value'', Some (HvString a))]"
| "command_values KeepAlive = []"
| "command_values Reboot = []"
| "command_values SetThirdPartyClientInfo = []"
| "command_values (SetCameraControl a) = [(''p'', Some (HvInt (control_value a)))]"
| "command_values (SetWiredUsbControl a) = [(''p'', Some (HvInt (toggle_value a)))]"
| "command_values (SetDigitalZoom a) = [(''percent'', Some (HvInt a))]"
| "command_values (SetShutter a) = [(''mode'', Some (start_stop a))]"
| "command_values (SetDateTime a b c) = [(''date'', Some (HvString (join_date (dt_year a) (dt_month a) (dt_day a)))), (''time'', Some (HvString (join_date (dt_hour a) (dt_minute a) (dt_second a)))), (''tzone'', Some (HvInt b)), (''dst'', Some (flag c))]"
| "command_values GetDateTime = []"
| "command_values (GetPresetStatus a) = [(''include-hidden'', Some (flag a))]"
| "command_values (LoadPreset a) = [(''id'', Some (HvInt a))]"
| "command_values (LoadPresetGroup a) = [(''id'', Some (HvInt a))]"
| "command_values (SetPresetVisibility a b) = [(''id'', Some (HvInt a)), (''visible'', Some (flag b))]"
| "command_values (UpdateCustomPreset a b c) = [(''icon_id'', map_option HvInt a), (''title_id'', b), (''custom_name'', map_option HvString c)]"
| "command_values GetMediaList = []"
| "command_values (GetMediaMetadata a) = [(''path'', Some (HvString a))]"
| "command_values GetLastCapturedMedia = []"
| "command_values (DeleteFile a) = [(''path'', Some (HvString a))]"
| "command_values (DeleteGroup a) = [(''p'', Some (HvString a))]"
| "command_values DeleteAllMedia = []"
| "command_values (AddHilight a b) = [(''path'', Some (HvString a)), (''ms'', map_option HvInt b)]"
| "command_values (RemoveHilight a b) = [(''path'', Some (HvString a)), (''ms'', Some (HvInt b))]"
| "command_values (SetTurboTransfer a) = [(''p'', Some (HvInt (toggle_value a)))]"
| "command_values (DownloadFile a) = [(''path'', Some (HvString a))]"
| "command_values (DownloadThumbnail a) = [(''path'', Some (HvString a))]"
| "command_values (DownloadScreennail a) = [(''path'', Some (HvString a))]"
| "command_values (DownloadGpmf a) = [(''path'', Some (HvString a))]"
| "command_values (DownloadTelemetry a) = [(''path'', Some (HvString a))]"
| "command_values (SetPreviewStream a b) = [(''mode'', Some (start_stop a)), (''port'', map_option HvInt b)]"
| "command_values (WebcamStart a b c d) = [(''res'', map_option HvInt a), (''fov'', map_option HvInt b), (''port'', map_option HvInt c), (''protocol'', map_option HvString d)]"
| "command_values WebcamStop = []"
| "command_values WebcamExit = []"
| "command_values WebcamPreview = []"
| "command_values WebcamStatus = []"
| "command_values GetWebcamVersion = []"

fun command_kind :: "GoProCommand \<Rightarrow> HttpResponseKind" where
  "command_kind (DownloadFile a) = KindBinary"
| "command_kind (DownloadThumbnail a) = KindBinary"
| "command_kind (DownloadScreennail a) = KindBinary"
| "command_kind (DownloadGpmf a) = KindBinary"
| "command_kind (DownloadTelemetry a) = KindBinary"
| "command_kind c = KindJson"

definition values_of :: "GoProCommand \<Rightarrow> http_values" where
  "values_of c k = Option.bind (map_of (command_values c) k) (\<lambda>v. v)"

text \<open>The request a method makes, or the error it throws before the network is touched.\<close>

datatype CommandError = NoSuchMessage string | WrongKind string | MissingComponent string

definition command_request :: "GoProHttp \<Rightarrow> GoProCommand \<Rightarrow> CommandError + HttpRequest" where
  "command_request h c =
     (case message_named (command_name c) of
        None \<Rightarrow> Inl (NoSuchMessage (command_name c))
      | Some m \<Rightarrow>
          if hm_response m \<noteq> command_kind c then Inl (WrongKind (hm_name m))
          else (case url m (gh_base h) (values_of c) of
                  Inl e \<Rightarrow> Inl (MissingComponent e)
                | Inr u \<Rightarrow>
                    Inr (if command_kind c = KindBinary then download_request h u
                         else exchange_request h u m (values_of c))))"

definition shutterIsFastpass :: "Toggle \<Rightarrow> bool" where
  "shutterIsFastpass t \<longleftrightarrow> t = ToggleDisable"

section \<open>The two sides agree\<close>

text \<open>What is checked of a message and the values of a command: the kind, and that the keys are
  exactly the declared ones, path components always with a value, a body only with PUT, downloads with GET.\<close>

definition agrees :: "GoProCommand \<Rightarrow> HttpMessage \<Rightarrow> bool" where
  "agrees c m \<longleftrightarrow>
     hm_response m = command_kind c \<and>
     set (map fst (command_values c)) = set (hm_components m @ hm_arguments m @ hm_bodyArguments m) \<and>
     list_all (\<lambda>k. values_of c k \<noteq> None) (hm_components m) \<and>
     (hm_bodyArguments m = [] \<or> hm_method m = HmPut) \<and>
     (command_kind c = KindBinary \<longrightarrow> hm_method m = HmGet)"

lemma command_agrees: "\<exists>m. message_named (command_name c) = Some m \<and> hm_name m = command_name c \<and> agrees c m"
  by (cases c)
    (simp_all add: message_named_def kHttpMessages_def message_def agrees_def values_of_def insert_commute)

lemma agreed_url:
  assumes "agrees c m"
  shows "\<exists>u. url m base (values_of c) = Inr u"
proof (cases "url m base (values_of c)")
  case (Inl k)
  then have "k \<in> set (hm_components m)" "values_of c k = None" by (auto simp: url_refused find_Some_iff)
  with assms show ?thesis by (auto simp: agrees_def list_all_iff)
qed simp

lemma supplied_mem: "k \<in> set args \<Longrightarrow> vals k = Some v \<Longrightarrow> (k, value_toString v) \<in> set (supplied args vals)"
  by (induction args) (auto simp: supplied_def List.map_filter_simps split: option.splits)

lemma values_of_key: "values_of c k = Some v \<Longrightarrow> k \<in> set (map fst (command_values c))"
  by (auto simp: values_of_def bind_eq_Some_conv dest: map_of_SomeD intro: rev_image_eqI)

text \<open>
  C16. Every command is sent, and whole: its message exists in the table under its name and has its
  kind, no path component is missing, so that the request is made, and the method is the
  message's. Unless a segment of the path is \<open>.\<close> or \<open>..\<close>, which the library resolves away, the path
  is the endpoint and the components, and every value the caller gave is in the path, in the
  query the camera reads, or in the body; none is lost because the two sides disagree about a
  name.
\<close>

theorem every_command_is_sent_whole:
  "\<exists>m rq. message_named (command_name c) = Some m \<and> hm_name m = command_name c \<and> hm_response m = command_kind c \<and>
    command_request h c = Inr rq \<and> rq_method rq = hm_method m \<and>
    (list_all plain_segment (request_segments m (values_of c)) \<longrightarrow>
      uri_authority (rq_uri rq) = uri_authority (gh_base h) \<and>
      read_path (uri_path (rq_uri rq)) = request_segments m (values_of c) \<and>
      (\<forall>k v. values_of c k = Some v \<longrightarrow>
         k \<in> set (hm_components m) \<or>
         (\<exists>q. uri_query (rq_uri rq) = Some q \<and> (k, value_toString v) \<in> set (read_query q)) \<or>
         (\<exists>b. rq_body rq = Some b \<and> b k = Some v)))"
proof -
  obtain m where m: "message_named (command_name c) = Some m" "hm_name m = command_name c" and a: "agrees c m"
    using command_agrees by blast
  obtain u where u: "url m (gh_base h) (values_of c) = Inr u" using agreed_url [OF a] by blast
  define rq where "rq = (if command_kind c = KindBinary then download_request h u
    else exchange_request h u m (values_of c))"
  have rq: "rq_uri rq = u" "rq_method rq = hm_method m"
    using a by (auto simp: rq_def download_request_def exchange_request_def agrees_def
        intro: HttpMethod.exhaust [of "hm_method m"])
  have "command_request h c = Inr rq"
    using m a u by (simp add: command_request_def rq_def agrees_def)
  moreover have "k \<in> set (hm_components m) \<or>
       (\<exists>q. uri_query u = Some q \<and> (k, value_toString v) \<in> set (read_query q)) \<or>
       (\<exists>b. rq_body rq = Some b \<and> b k = Some v)"
    if plain: "list_all plain_segment (request_segments m (values_of c))" and v: "values_of c k = Some v" for k v
  proof -
    note read = url_reads_back [OF u plain]
    from values_of_key [OF v] a consider "k \<in> set (hm_components m)" | "k \<in> set (hm_arguments m)" | "k \<in> set (hm_bodyArguments m)"
      by (auto simp: agrees_def)
    then show ?thesis
    proof cases
      case 2
      from supplied_mem [where vals = "values_of c", OF 2 v] have "(k, value_toString v) \<in> set (supplied (hm_arguments m) (values_of c))" .
      with read show ?thesis by (auto split: if_splits)
    next
      case 3
      with a have "hm_method m = HmPut" "command_kind c \<noteq> KindBinary" by (auto simp: agrees_def)
      with 3 v show ?thesis by (simp add: rq_def exchange_request_def body_exact)
    qed blast
  qed
  moreover have "hm_response m = command_kind c" using a by (simp add: agrees_def)
  ultimately show ?thesis using m rq url_reads_back [OF u]
    by (intro exI [of _ m] exI [of _ rq]) simp
qed

lemma every_command_is_sent_whole_witness:
  "\<exists>rq q. command_request usb_http (AddHilight ''100GOPRO/GX01.MP4'' (Some 1500)) = Inr rq \<and>
     read_path (uri_path (rq_uri rq)) = [''gopro'', ''media'', ''hilight'', ''file''] \<and>
     uri_query (rq_uri rq) = Some q \<and> (''ms'', ''1500'') \<in> set (read_query q)"
proof -
  let ?c = "AddHilight ''100GOPRO/GX01.MP4'' (Some 1500)"
  let ?m = "message ''add_file_hilight'' ''gopro/media/hilight/file'' HmGet KindJson [] [''path'', ''ms''] [] FastpassNever"
  have m: "message_named (command_name ?c) = Some ?m" by (simp add: message_named_def kHttpMessages_def message_def)
  have s: "request_segments ?m (values_of ?c) = [''gopro'', ''media'', ''hilight'', ''file'']" by code_simp
  have "list_all plain_segment (request_segments ?m (values_of ?c))" unfolding s by (simp add: plain_segment_def)
  with every_command_is_sent_whole [of ?c usb_http] m obtain rq where rq:
    "command_request usb_http ?c = Inr rq" "read_path (uri_path (rq_uri rq)) = request_segments ?m (values_of ?c)"
    "values_of ?c ''ms'' = Some (HvInt 1500) \<longrightarrow> ''ms'' \<in> set (hm_components ?m) \<or>
      (\<exists>q. uri_query (rq_uri rq) = Some q \<and> (''ms'', value_toString (HvInt 1500)) \<in> set (read_query q)) \<or>
      (\<exists>b. rq_body rq = Some b \<and> b ''ms'' = Some (HvInt 1500))" by fastforce
  moreover have "values_of ?c ''ms'' = Some (HvInt 1500)" "value_toString (HvInt 1500) = ''1500''" by code_simp+
  moreover have "rq_body rq = None" using rq(1) m
    by (auto simp: command_request_def message_def exchange_request_def split: sum.splits)
  ultimately show ?thesis unfolding s by (auto simp: message_def)
qed

text \<open>Stopping the shutter is the request that does not wait, and only the message that leaves the
  question open has such a helper.\<close>

lemma shutter_fastpass:
  "map hm_name (List.filter (\<lambda>m. hm_fastpass m = FastpassConditional) kHttpMessages) = [''set_shutter'']"
  "shutterIsFastpass t \<longleftrightarrow> values_of (SetShutter t) ''mode'' = Some (HvString ''stop'')"
  by (simp add: kHttpMessages_def message_def)
    (cases t; simp add: shutterIsFastpass_def values_of_def start_stop_def)

section \<open>The webcam\<close>

text \<open>
  \<open>lib/src/streaming/webcam.dart\<close>: what a reply to a webcam command is taken for. A field of the
  document is an integer or something else.
\<close>

datatype WebcamStatus = WebcamOff | WebcamIdle | WebcamHighPowerPreview | WebcamLowPowerPreview

datatype WebcamError =
    WebcamSuccess
  | WebcamSetPreset
  | WebcamSetWindowSize
  | WebcamExecStream
  | WebcamShutter
  | WebcamComTimeout
  | WebcamInvalidParam
  | WebcamUnavailable
  | WebcamErrorExit

definition webcam_status_fromValue :: "int \<Rightarrow> WebcamStatus option" where
  "webcam_status_fromValue =
     map_of (zip [0, 1, 2, 3] [WebcamOff, WebcamIdle, WebcamHighPowerPreview, WebcamLowPowerPreview])"

definition webcam_error_fromValue :: "int \<Rightarrow> WebcamError option" where
  "webcam_error_fromValue =
     map_of (zip [0, 1, 2, 3, 4, 5, 6, 7, 8]
       [WebcamSuccess, WebcamSetPreset, WebcamSetWindowSize, WebcamExecStream, WebcamShutter,
        WebcamComTimeout, WebcamInvalidParam, WebcamUnavailable, WebcamErrorExit])"

datatype WebcamField = WfInt int | WfOther

record WebcamReply =
  wr_status :: "WebcamStatus option"
  wr_error :: "WebcamError option"
  wr_raw :: "string \<rightharpoonup> WebcamField"

definition webcam_fromJson :: "(string \<rightharpoonup> WebcamField) \<Rightarrow> WebcamReply" where
  "webcam_fromJson doc =
     \<lparr>wr_status = (case doc ''status'' of Some (WfInt i) \<Rightarrow> webcam_status_fromValue i | _ \<Rightarrow> None),
      wr_error = (case doc ''error'' of Some (WfInt i) \<Rightarrow> webcam_error_fromValue i | _ \<Rightarrow> None),
      wr_raw = doc\<rparr>"

definition webcam_ok :: "WebcamReply \<Rightarrow> bool" where
  "webcam_ok r \<longleftrightarrow> wr_error r = None \<or> wr_error r = Some WebcamSuccess"

text \<open>The call fails, or its reply is refused or returned.\<close>

definition webcam_do ::
  "(HttpError + (string \<rightharpoonup> WebcamField)) \<Rightarrow> (HttpError + WebcamReply) + WebcamReply" where
  "webcam_do call =
     (case call of
        Inl e \<Rightarrow> Inl (Inl e)
      | Inr doc \<Rightarrow>
          (let reply = webcam_fromJson doc in
           if \<not> webcam_ok reply then Inl (Inr reply) else Inr reply))"

text \<open>Which error values make a webcam command fail: the ones that have a name.\<close>

lemma webcam_refused:
  "webcam_do (Inr doc) = Inl (Inr (webcam_fromJson doc)) \<longleftrightarrow>
     (\<exists>i. doc ''error'' = Some (WfInt i) \<and> 1 \<le> i \<and> i \<le> 8)"
  by (auto simp: webcam_do_def Let_def webcam_ok_def webcam_fromJson_def webcam_error_fromValue_def
      split: option.splits WebcamField.splits if_splits)

text \<open>
  An error the table has no name for reads as no error, so the command that the camera refused
  counts as done.
\<close>

lemma unknown_webcam_error_is_success:
  "webcam_do (Inr [''error'' \<mapsto> WfInt 9]) = Inr (webcam_fromJson [''error'' \<mapsto> WfInt 9])"
  by (simp add: webcam_do_def webcam_ok_def webcam_fromJson_def webcam_error_fromValue_def)

end
