(* ===== verification/Wifi_Join.thy ===== *)
theory Wifi_Join
  imports Dart_Strings Gopro_Usb Command_Queue "HOL-Library.Sublist"
begin

text \<open>
  \<open>lib/src/secret.dart\<close>, \<open>lib/src/wifi/wifi_controller.dart\<close> and \<open>access_point.dart\<close>: the camera's
  access point, its passphrase and how the host joins it. Strings are lists of UTF-16 code units.
  What the camera answers and what \<open>Process.run\<close> gives are arguments, and so is the lenient
  \<open>utf8.decode\<close>. The lemmas show that a secret equals exactly itself, in which order the access
  point is set up, and that what nmcli prints is scrubbed of the passphrase.
\<close>

definition ascii :: "string \<Rightarrow> u16 list" where
  "ascii s = map of_char s"

section \<open>Secrets\<close>

datatype Secret = Secret (secret_value: "u16 list")

definition secret_toString :: "Secret \<Rightarrow> u16 list" where
  "secret_toString s = ascii ''<redacted>''"

fun units_diff :: "int \<Rightarrow> u16 list \<Rightarrow> u16 list \<Rightarrow> int" where
  "units_diff diff (a # as) (b # bs) = units_diff (diff OR (uint a XOR uint b)) as bs"
| "units_diff diff as bs = diff"

definition secret_eq :: "Secret \<Rightarrow> Secret \<Rightarrow> bool" where
  "secret_eq s t =
     (let a = secret_value s; b = secret_value t;
          diff = int (length a) XOR int (length b)
      in units_diff diff a b = 0)"

lemma xor_eq_0_iff: "a XOR b = 0 \<longleftrightarrow> a = b" for a b :: int
  by (auto simp: bit_eq_iff bit_xor_iff)

lemma units_diff_zero:
  "length as = length bs \<Longrightarrow> units_diff d as bs = 0 \<longleftrightarrow> d = 0 \<and> as = bs"
  by (induction d as bs rule: units_diff.induct) (auto simp: or_eq_0_iff xor_eq_0_iff word_uint_eq_iff)

lemma units_diff_keeps: "d \<noteq> 0 \<Longrightarrow> units_diff d as bs \<noteq> 0"
  by (induction d as bs rule: units_diff.induct) (auto simp: or_eq_0_iff)

text \<open>Comparing without an early exit still compares the values, also those of other lengths.\<close>

lemma secret_eq_iff: "secret_eq s t \<longleftrightarrow> s = t"
proof (cases "length (secret_value s) = length (secret_value t)")
  case True
  then show ?thesis by (simp add: secret_eq_def Let_def units_diff_zero) (metis Secret.expand)
next
  case False
  then have "int (length (secret_value s)) XOR int (length (secret_value t)) \<noteq> 0"
    by (simp add: xor_eq_0_iff)
  with False show ?thesis by (auto simp: secret_eq_def Let_def units_diff_keeps)
qed

section \<open>Joining a network\<close>

record ApCredentials =
  ap_ssid :: "u16 list"
  ap_password :: Secret

definition credentials_toString :: "ApCredentials \<Rightarrow> u16 list" where
  "credentials_toString c = ascii ''ApCredentials('' @ ap_ssid c @ ascii '')''"

datatype JoinError =
    WifiJoinException (je_message: "u16 list") (je_detail: "u16 list")
  | CameraError

definition manual_message :: "ApCredentials \<Rightarrow> u16 list" where
  "manual_message c =
     ascii ''Join the camera access point \"'' @ ap_ssid c @ ascii ''\" on this host, '' @
     ascii ''then retry. Its passphrase came from the camera over BLE and is on '' @
     ascii ''the ApCredentials passed here.''"

text \<open>Without a callback the instruction is thrown, with one it is handed over.\<close>

definition manual_join :: "bool \<Rightarrow> ApCredentials \<Rightarrow> JoinError + u16 list option" where
  "manual_join onInstruction c =
     (if onInstruction then Inr (Some (manual_message c))
      else Inl (WifiJoinException (ascii ''no Wi-Fi controller is configured'') (manual_message c)))"

record NmcliWifiController =
  nm_executable :: "u16 list"
  nm_timeout :: "nat option"

text \<open>A program that ran has an exit code and output; one that could not be run has a message.\<close>

record ProcessResult =
  pr_exitCode :: int
  pr_stdout :: "u16 list"
  pr_stderr :: "u16 list"

type_synonym process = "u16 list \<Rightarrow> u16 list list \<Rightarrow> u16 list + ProcessResult"

definition nm_available :: "process \<Rightarrow> NmcliWifiController \<Rightarrow> bool" where
  "nm_available process w =
     (case process (nm_executable w) [ascii ''--version''] of
        Inl m \<Rightarrow> False
      | Inr r \<Rightarrow> pr_exitCode r = 0)"

definition joinArgs :: "NmcliWifiController \<Rightarrow> ApCredentials \<Rightarrow> u16 list list" where
  "joinArgs w c =
     (case nm_timeout w of None \<Rightarrow> [] | Some t \<Rightarrow> [ascii ''--wait'', ascii (dec t)]) @
     [ascii ''device'', ascii ''wifi'', ascii ''connect'', ap_ssid c, ascii ''password'',
      secret_value (ap_password c)]"

definition leaveArgs :: "ApCredentials \<Rightarrow> u16 list list" where
  "leaveArgs c = [ascii ''connection'', ascii ''down'', ap_ssid c]"

definition nm_run :: "process \<Rightarrow> NmcliWifiController \<Rightarrow> u16 list list \<Rightarrow> JoinError + ProcessResult" where
  "nm_run process w args =
     (case process (nm_executable w) args of
        Inl m \<Rightarrow> Inl (WifiJoinException (ascii ''cannot run '' @ nm_executable w) m)
      | Inr r \<Rightarrow> Inr r)"

definition redact :: "ProcessResult \<Rightarrow> u16 list \<Rightarrow> u16 list" where
  "redact r secret =
     (let out = dart_trim (pr_stdout r @ pr_stderr r) in
      if secret = [] then out else replaceAll secret (ascii ''<passphrase>'') out)"

definition nm_join :: "process \<Rightarrow> NmcliWifiController \<Rightarrow> ApCredentials \<Rightarrow> JoinError + unit" where
  "nm_join process w c =
     (case nm_run process w (joinArgs w c) of
        Inl e \<Rightarrow> Inl e
      | Inr r \<Rightarrow>
          if pr_exitCode r \<noteq> 0
          then Inl (WifiJoinException (ascii ''nmcli could not join \"'' @ ap_ssid c @ ascii ''\"'')
                 (redact r (secret_value (ap_password c))))
          else Inr ())"

definition nm_leave :: "process \<Rightarrow> NmcliWifiController \<Rightarrow> ApCredentials \<Rightarrow> JoinError + unit" where
  "nm_leave process w c = (case nm_run process w (leaveArgs c) of Inl e \<Rightarrow> Inl e | Inr r \<Rightarrow> Inr ())"

section \<open>The camera's access point\<close>

datatype ApOp = ApControl bytes | ApRead string | ApJoin ApCredentials

definition kWifiApSsidUuid :: string where
  "kWifiApSsidUuid = ''b5f90002-aa8d-11e3-9046-0002a5d5c51b''"

definition kWifiApPasswordUuid :: string where
  "kWifiApPasswordUuid = ''b5f90003-aa8d-11e3-9046-0002a5d5c51b''"

fun outcome_name :: "Outcome \<Rightarrow> string" where
  "outcome_name kResponded = ''responded''"
| "outcome_name kTimedOut = ''timedOut''"
| "outcome_name kCanceled = ''canceled''"
| "outcome_name kRejected = ''rejected''"

definition ap_text :: "(bytes \<Rightarrow> u16 list) \<Rightarrow> bytes \<Rightarrow> string \<Rightarrow> JoinError + u16 list" where
  "ap_text decode bs what =
     (if bs = [] then Inl (WifiJoinException (ascii ''the camera reported an empty '' @ ascii what) [])
      else Inr (dart_trim (decode bs)))"

text \<open>A read of a characteristic gives bytes or throws; the second is read only if the first is
  there. The operations performed come with the result.\<close>

definition ap_credentials ::
  "(bytes \<Rightarrow> u16 list) \<Rightarrow> (string \<Rightarrow> bytes option) \<Rightarrow> ApOp list \<times> (JoinError + ApCredentials)" where
  "ap_credentials decode reads =
     (case reads kWifiApSsidUuid of
        None \<Rightarrow> ([ApRead kWifiApSsidUuid], Inl CameraError)
      | Some bs \<Rightarrow>
          (case ap_text decode bs ''SSID'' of
             Inl e \<Rightarrow> ([ApRead kWifiApSsidUuid], Inl e)
           | Inr ssid \<Rightarrow>
               ([ApRead kWifiApSsidUuid, ApRead kWifiApPasswordUuid],
                (case reads kWifiApPasswordUuid of
                   None \<Rightarrow> Inl CameraError
                 | Some pw \<Rightarrow>
                     (case ap_text decode pw ''passphrase'' of
                        Inl e \<Rightarrow> Inl e
                      | Inr p \<Rightarrow> Inr \<lparr>ap_ssid = ssid, ap_password = Secret p\<rparr>)))))"

definition control_payload :: "bool \<Rightarrow> bytes" where
  "control_payload enabled = [23, 1, if enabled then 1 else 0]"

text \<open>\<open>send\<close> gives the camera's response, or throws.\<close>

definition ap_setEnabled ::
  "(bytes \<Rightarrow> (Outcome \<times> bytes) option) \<Rightarrow> bool \<Rightarrow> ApOp list \<times> (JoinError + unit)" where
  "ap_setEnabled reply enabled =
     ([ApControl (control_payload enabled)],
      (case reply (control_payload enabled) of
         None \<Rightarrow> Inl CameraError
       | Some (outcome, payload) \<Rightarrow>
           if outcome \<noteq> kResponded
           then Inl (WifiJoinException (ascii ''AP control: '' @ ascii (outcome_name outcome)) [])
           else if 2 \<le> length payload \<and> payload ! 1 \<noteq> 0
           then Inl (WifiJoinException (ascii ''the camera refused AP control'')
                  (ascii ''status '' @ ascii (dec (unat (payload ! 1)))))
           else Inr ()))"

definition ap_connect ::
  "(bytes \<Rightarrow> u16 list) \<Rightarrow> (bytes \<Rightarrow> (Outcome \<times> bytes) option) \<Rightarrow> (string \<Rightarrow> bytes option) \<Rightarrow>
   (ApCredentials \<Rightarrow> JoinError option) \<Rightarrow> ApOp list \<times> (JoinError + ApCredentials)" where
  "ap_connect decode reply reads join =
     (case ap_setEnabled reply True of
        (ops, Inl e) \<Rightarrow> (ops, Inl e)
      | (ops, Inr u) \<Rightarrow>
          (case ap_credentials decode reads of
             (ops2, Inl e) \<Rightarrow> (ops @ ops2, Inl e)
           | (ops2, Inr c) \<Rightarrow>
               (ops @ ops2 @ [ApJoin c], (case join c of None \<Rightarrow> Inr c | Some e \<Rightarrow> Inl e))))"

section \<open>What is scrubbed\<close>

lemma prefix_replaced:
  assumes "prefix p (replaceAll secret to s)" "secret \<noteq> []" "to \<noteq> []" "hd to \<notin> set p"
  shows "prefix p s"
  using assms
proof (induction secret to s arbitrary: p rule: replaceAll.induct)
  case (1 secret to s)
  consider "s = []" | "s \<noteq> []" "take (length secret) s = secret" | "s \<noteq> []" "take (length secret) s \<noteq> secret" by blast
  then show ?case
  proof cases
    case 1
    with "1.prems" show ?thesis by (simp add: replaceAll.simps [of secret to "[]"])
  next
    case 2
    with "1.prems" have "prefix p (to @ replaceAll secret to (drop (length secret) s))"
      by (subst (asm) replaceAll.simps) simp
    with "1.prems"(3,4) have "p = []" by (cases p; cases to) auto
    then show ?thesis by simp
  next
    case 3
    with "1.prems"(1,2) have "prefix p (hd s # replaceAll secret to (tl s))"
      by (subst (asm) replaceAll.simps) simp
    with 3 "1.prems" "1.IH"(2) show ?thesis
      by (cases p; cases s) auto
  qed
qed

text \<open>
  What was replaced does not come back, provided that it cannot lie across or inside the
  replacement.
\<close>

lemma replaced_not_sublist:
  assumes "secret \<noteq> []" "to \<noteq> []" "hd to \<notin> set secret" "last to \<notin> set secret" "\<not> sublist secret to"
  shows "\<not> sublist secret (replaceAll secret to s)"
  using assms
proof (induction secret to s rule: replaceAll.induct)
  case (1 secret to s)
  consider "s = []" | "s \<noteq> []" "take (length secret) s = secret" | "s \<noteq> []" "take (length secret) s \<noteq> secret" by blast
  then show ?case
  proof cases
    case 1
    with "1.prems" show ?thesis by (simp add: replaceAll.simps [of secret to "[]"])
  next
    case 2
    let ?r = "replaceAll secret to (drop (length secret) s)"
    have "replaceAll secret to s = to @ ?r"
      using 2 "1.prems"(1) by (subst replaceAll.simps) simp
    moreover have "\<not> sublist secret ?r" using 2 "1.prems" by (intro "1.IH"(1)) auto
    moreover have "\<not> (xs @ ys = secret \<and> suffix xs to \<and> xs \<noteq> [])" for xs ys
      using "1.prems"(4) by (auto simp: suffix_def)
    ultimately show ?thesis using "1.prems"(5)
      by (auto simp: sublist_append) (metis append_Nil prefix_imp_sublist)
  next
    case 3
    have r: "replaceAll secret to s = hd s # replaceAll secret to (tl s)"
      using 3 "1.prems"(1) by (subst replaceAll.simps) simp
    have "\<not> prefix secret s" using 3 by (auto simp: prefix_def)
    then have "\<not> prefix secret (replaceAll secret to s)"
      using "1.prems"(1-3) prefix_replaced by blast
    moreover have "\<not> sublist secret (replaceAll secret to (tl s))" using 3 "1.prems" by (intro "1.IH"(2)) auto
    ultimately show ?thesis unfolding r by (simp add: sublist_Cons_right)
  qed
qed

text \<open>
  When nmcli ran and failed, the explanation that is thrown does not contain the passphrase,
  whatever nmcli printed, with or without the passphrase in it, once or often. The passphrase
  must be free of angle brackets and no part of the word that replaces it.
\<close>

lemma nmcli_output_scrubbed:
  assumes "nm_join process w c = Inl (WifiJoinException msg detail)"
    and "process (nm_executable w) (joinArgs w c) = Inr r"
    and "secret_value (ap_password c) \<noteq> []"
    and "of_char (CHR ''<'') \<notin> set (secret_value (ap_password c))"
    and "of_char (CHR ''>'') \<notin> set (secret_value (ap_password c))"
    and "\<not> sublist (secret_value (ap_password c)) (ascii ''passphrase'')"
  shows "\<not> sublist (secret_value (ap_password c)) detail"
proof -
  let ?s = "secret_value (ap_password c)"
  have "detail = redact r ?s" using assms(1,2) by (auto simp: nm_join_def nm_run_def split: if_splits)
  then have "detail = replaceAll ?s (ascii ''<passphrase>'') (dart_trim (pr_stdout r @ pr_stderr r))"
    using assms(3) by (simp add: redact_def Let_def)
  moreover have "ascii ''<passphrase>'' = of_char (CHR ''<'') # ascii ''passphrase'' @ [of_char (CHR ''>'')]"
    by (simp add: ascii_def)
  moreover have "\<not> sublist ?s (of_char (CHR ''<'') # ascii ''passphrase'' @ [of_char (CHR ''>'')])"
    using assms(3-6)
    by (auto simp: sublist_Cons_right sublist_append prefix_Cons suffix_Cons)
  ultimately show ?thesis using assms(3-5) by (simp add: replaced_not_sublist)
qed

definition demo_credentials :: ApCredentials where
  "demo_credentials = \<lparr>ap_ssid = ascii ''GP123'', ap_password = Secret (ascii ''xYz-42'')\<rparr>"

definition demo_nmcli :: NmcliWifiController where
  "demo_nmcli = \<lparr>nm_executable = ascii ''nmcli'', nm_timeout = None\<rparr>"

text \<open>A program that echoes its arguments and fails.\<close>

definition echo_process :: process where
  "echo_process executable args = Inr \<lparr>pr_exitCode = 2, pr_stdout = concat args, pr_stderr = concat args\<rparr>"

lemma nmcli_output_scrubbed_example:
  "\<exists>msg detail. nm_join echo_process demo_nmcli demo_credentials = Inl (WifiJoinException msg detail) \<and>
     sublist (ascii ''xYz-42'') (concat (joinArgs demo_nmcli demo_credentials)) \<and>
     \<not> sublist (ascii ''xYz-42'') detail"
proof -
  let ?r = "\<lparr>pr_exitCode = 2, pr_stdout = concat (joinArgs demo_nmcli demo_credentials),
    pr_stderr = concat (joinArgs demo_nmcli demo_credentials)\<rparr>"
  obtain msg detail where j: "nm_join echo_process demo_nmcli demo_credentials = Inl (WifiJoinException msg detail)"
    by (simp add: nm_join_def nm_run_def echo_process_def)
  have p: "secret_value (ap_password demo_credentials) = ascii ''xYz-42''" by (simp add: demo_credentials_def)
  have "echo_process (nm_executable demo_nmcli) (joinArgs demo_nmcli demo_credentials) = Inr ?r"
    by (simp add: echo_process_def)
  from nmcli_output_scrubbed [OF j this, unfolded p] have "\<not> sublist (ascii ''xYz-42'') detail"
    by (simp add: ascii_def sublist_Cons_right)
  moreover have "concat (joinArgs demo_nmcli demo_credentials) =
      concat (butlast (joinArgs demo_nmcli demo_credentials)) @ ascii ''xYz-42''"
    by (simp add: joinArgs_def demo_nmcli_def demo_credentials_def)
  then have "sublist (ascii ''xYz-42'') (concat (joinArgs demo_nmcli demo_credentials))"
    by (metis append_Nil2 sublist_appendI)
  ultimately show ?thesis using j by blast
qed

text \<open>Each value is an argument of its own, so no SSID and no passphrase changes the command.\<close>

lemma joinArgs_shape:
  "joinArgs w c = joinArgs w d \<longleftrightarrow> ap_ssid c = ap_ssid d \<and> secret_value (ap_password c) = secret_value (ap_password d)"
  "length (joinArgs w c) = (if nm_timeout w = None then 6 else 8)"
  by (auto simp: joinArgs_def split: option.splits)

text \<open>The host joins only what was read from the camera once its radio was on, and joins last.\<close>

lemma ap_connect_joins:
  assumes "ap_connect decode reply reads join = (ops, Inr c)"
  shows "ops = [ApControl [23, 1, 1], ApRead kWifiApSsidUuid, ApRead kWifiApPasswordUuid, ApJoin c]"
    "\<exists>payload. reply [23, 1, 1] = Some (kResponded, payload) \<and> (2 \<le> length payload \<longrightarrow> payload ! 1 = 0)"
    "\<exists>s p. reads kWifiApSsidUuid = Some s \<and> reads kWifiApPasswordUuid = Some p \<and> s \<noteq> [] \<and> p \<noteq> [] \<and>
       c = \<lparr>ap_ssid = dart_trim (decode s), ap_password = Secret (dart_trim (decode p))\<rparr>"
  using assms
  by (auto simp: ap_connect_def ap_setEnabled_def ap_credentials_def ap_text_def control_payload_def
      split: sum.splits option.splits if_splits prod.splits)

lemma ap_connect_failed_control:
  assumes "snd (ap_setEnabled reply True) = Inl e"
  shows "ap_connect decode reply reads join = ([ApControl [23, 1, 1]], Inl e)"
  using assms by (auto simp: ap_connect_def ap_setEnabled_def control_payload_def split: prod.splits sum.splits)

end
