(* ===== verification/Credential_Store.thy ===== *)
theory Credential_Store
  imports Wifi_Join
begin

text \<open>
  \<open>lib/src/cohn/credentials.dart\<close>: the credentials of a camera on the home network and the store that
  keeps them in files. A file is its mode and what \<open>jsonDecode\<close> makes of its content, so that
  decoding what was encoded gives the document by construction. \<open>chmod\<close> is another program and may
  refuse or be missing; the umask is an argument. The contract of the abstract class
  \<open>CohnCredentialStore\<close>, for calls that may also fail half way, is a locale, which the file store
  interprets. Not represented are writes that fail half way and
  other programs that change a file between two looks of one call.
\<close>

section \<open>Credentials\<close>

record CohnCredentials =
  co_username :: "u16 list"
  co_password :: Secret
  co_certificate :: "u16 list"
  co_ipAddress :: "u16 list option"
  co_ssid :: "u16 list option"
  co_macAddress :: "u16 list option"

text \<open>A field of a decoded document: a string, null, or something else.\<close>

datatype JsonField = JfString "u16 list" | JfNull | JfOther

type_synonym json_doc = "string \<rightharpoonup> JsonField"

definition put_optional :: "string \<Rightarrow> u16 list option \<Rightarrow> json_doc \<Rightarrow> json_doc" where
  "put_optional k v d = (case v of None \<Rightarrow> d | Some s \<Rightarrow> d(k \<mapsto> JfString s))"

definition toJson :: "CohnCredentials \<Rightarrow> json_doc" where
  "toJson c =
     put_optional ''macAddress'' (co_macAddress c)
       (put_optional ''ssid'' (co_ssid c)
         (put_optional ''ipAddress'' (co_ipAddress c)
           [''username'' \<mapsto> JfString (co_username c),
            ''password'' \<mapsto> JfString (secret_value (co_password c)),
            ''certificate'' \<mapsto> JfString (co_certificate c)]))"

datatype CredError = CeArgument "u16 list" | CeMode u32 | CeFormat | CeType string | CeProcess | CeNoHome

fun required_string :: "json_doc \<Rightarrow> string \<Rightarrow> CredError + u16 list" where
  "required_string d k = (case d k of Some (JfString s) \<Rightarrow> Inr s | _ \<Rightarrow> Inl (CeType k))"

fun optional_string :: "json_doc \<Rightarrow> string \<Rightarrow> CredError + u16 list option" where
  "optional_string d k =
     (case d k of
        Some (JfString s) \<Rightarrow> Inr (Some s)
      | Some JfOther \<Rightarrow> Inl (CeType k)
      | _ \<Rightarrow> Inr None)"

text \<open>An exception ends the sequence, a value goes on.\<close>

definition bind_sum :: "'err + 'v \<Rightarrow> ('v \<Rightarrow> 'err + 'w) \<Rightarrow> 'err + 'w" where
  "bind_sum first rest = (if isl first then Inl (projl first) else rest (projr first))"

lemma bind_sum_simps [simp]:
  "bind_sum (Inr value) rest = rest value"
  "bind_sum (Inl thrown) rest = Inl thrown"
  by (auto simp: bind_sum_def)

lemma bind_sum_case: "bind_sum r f = (case r of Inr v \<Rightarrow> f v | Inl err \<Rightarrow> Inl err)"
  by (cases r) simp_all

definition fromJson :: "json_doc \<Rightarrow> CredError + CohnCredentials" where
  "fromJson d =
     bind_sum (required_string d ''username'') (\<lambda>u.
     bind_sum (required_string d ''password'') (\<lambda>p.
     bind_sum (required_string d ''certificate'') (\<lambda>c.
     bind_sum (optional_string d ''ipAddress'') (\<lambda>ip.
     bind_sum (optional_string d ''ssid'') (\<lambda>ssid.
     bind_sum (optional_string d ''macAddress'') (\<lambda>mac.
       Inr \<lparr>co_username = u, co_password = Secret p, co_certificate = c, co_ipAddress = ip,
            co_ssid = ssid, co_macAddress = mac\<rparr>))))))"

definition cohn_toString :: "CohnCredentials \<Rightarrow> u16 list" where
  "cohn_toString c =
     ascii ''CohnCredentials('' @ co_username c @ ascii '', '' @
     (case co_ssid c of None \<Rightarrow> ascii ''?'' | Some s \<Rightarrow> s) @ ascii '', '' @
     (case co_ipAddress c of None \<Rightarrow> ascii ''?'' | Some s \<Rightarrow> s) @ ascii '')''"

lemma fromJson_toJson: "fromJson (toJson c) = Inr c"
  by (cases c) (simp add: fromJson_def toJson_def put_optional_def split: option.splits)

section \<open>The file store\<close>

datatype CredContent = CcEmpty | CcMalformed | CcDoc json_doc

record CredFile =
  cf_mode :: u32
  cf_content :: CredContent

text \<open>The mode of the directory, if it exists, and the files in it by name.\<close>

record CredStore =
  cs_dir :: "u32 option"
  cs_files :: "u16 list \<rightharpoonup> CredFile"

definition default_directory :: "(string \<rightharpoonup> u16 list) \<Rightarrow> CredError + u16 list" where
  "default_directory env =
     (case (case env ''XDG_STATE_HOME'' of
              Some d \<Rightarrow> Some d
            | None \<Rightarrow> (case env ''HOME'' of None \<Rightarrow> None | Some h \<Rightarrow> Some (h @ ascii ''/.local/state''))) of
        None \<Rightarrow> Inl CeNoHome
      | Some base \<Rightarrow> Inr (base @ ascii ''/gopro_native''))"

definition safe_unit :: "u16 \<Rightarrow> bool" where
  "safe_unit c \<longleftrightarrow>
     c \<in> set (ascii ''ABCDEFGHIJKLMNOPQRSTUVWXYZabcdefghijklmnopqrstuvwxyz0123456789_-'')"

definition underscore :: u16 where
  "underscore = of_char (CHR ''_'')"

definition fileFor :: "u16 list \<Rightarrow> CredError + u16 list" where
  "fileFor serial =
     (let safe = map (\<lambda>c. if safe_unit c then c else underscore) serial in
      if safe = [] \<or> replaceAll [underscore] [] safe = [] then Inl (CeArgument serial)
      else Inr (safe @ ascii ''.json''))"

definition store_read :: "u16 list \<Rightarrow> CredStore \<Rightarrow> CredError + CohnCredentials option" where
  "store_read serial st =
     (case fileFor serial of
        Inl e \<Rightarrow> Inl e
      | Inr name \<Rightarrow>
          (case cs_files st name of
             None \<Rightarrow> Inr None
           | Some f \<Rightarrow>
               (let mode = cf_mode f AND 0x1FF in
                if mode AND 0x03F \<noteq> 0 then Inl (CeMode mode)
                else (case cf_content f of
                        CcDoc d \<Rightarrow> bind_sum (fromJson d) (\<lambda>c. Inr (Some c))
                      | _ \<Rightarrow> Inl CeFormat))))"

datatype Chmod = ChmodDone | ChmodRefused | ChmodMissing

definition create_dir :: "u32 \<Rightarrow> CredStore \<Rightarrow> CredStore" where
  "create_dir umask st =
     (if cs_dir st = None then st\<lparr>cs_dir := Some (0x1FF AND NOT umask)\<rparr> else st)"

definition chmod_dir :: "Chmod \<Rightarrow> CredStore \<Rightarrow> CredStore" where
  "chmod_dir r st = (if r = ChmodDone then st\<lparr>cs_dir := Some 0x1C0\<rparr> else st)"

definition create_file :: "u32 \<Rightarrow> u16 list \<Rightarrow> CredStore \<Rightarrow> CredStore" where
  "create_file umask name st =
     (if cs_files st name = None
      then st\<lparr>cs_files := (cs_files st)(name \<mapsto> \<lparr>cf_mode = 0x1B6 AND NOT umask, cf_content = CcEmpty\<rparr>)\<rparr>
      else st)"

definition update_file :: "u16 list \<Rightarrow> (CredFile \<Rightarrow> CredFile) \<Rightarrow> CredStore \<Rightarrow> CredStore" where
  "update_file name f st = st\<lparr>cs_files := (cs_files st)(name := map_option f (cs_files st name))\<rparr>"

definition chmod_file :: "Chmod \<Rightarrow> u16 list \<Rightarrow> CredStore \<Rightarrow> CredStore" where
  "chmod_file r name st = (if r = ChmodDone then update_file name (\<lambda>f. f\<lparr>cf_mode := 0x180\<rparr>) st else st)"

definition set_content :: "CredContent \<Rightarrow> u16 list \<Rightarrow> CredStore \<Rightarrow> CredStore" where
  "set_content c name st = update_file name (\<lambda>f. f\<lparr>cf_content := c\<rparr>) st"

text \<open>
  Writing, as the states of the store after each effect, the last of which stays; the arguments
  are what the two runs of \<open>chmod\<close> give. Writing the text truncates the file first.
\<close>

definition store_write ::
  "u32 \<Rightarrow> Chmod \<Rightarrow> Chmod \<Rightarrow> u16 list \<Rightarrow> CohnCredentials \<Rightarrow> CredStore \<Rightarrow> CredStore list \<times> (CredError + unit)" where
  "store_write umask chmod1 chmod2 serial creds st =
     (let s1 = create_dir umask st; s2 = chmod_dir chmod1 s1 in
      if chmod1 = ChmodMissing then ([s1], Inl CeProcess)
      else (case fileFor serial of
              Inl e \<Rightarrow> ([s1, s2], Inl e)
            | Inr name \<Rightarrow>
                (let s3 = create_file umask name s2; s4 = chmod_file chmod2 name s3 in
                 if chmod2 = ChmodMissing then ([s1, s2, s3], Inl CeProcess)
                 else
                   (let s5 = set_content CcEmpty name s4;
                        s6 = set_content (CcDoc (toJson creds)) name s5
                    in ([s1, s2, s3, s4, s5, s6], Inr ())))))"

definition store_delete :: "u16 list \<Rightarrow> CredStore \<Rightarrow> CredStore \<times> (CredError + unit)" where
  "store_delete serial st =
     (case fileFor serial of
        Inl e \<Rightarrow> (st, Inl e)
      | Inr name \<Rightarrow> (st\<lparr>cs_files := (cs_files st)(name := None)\<rparr>, Inr ()))"

section \<open>A serial stays inside the directory\<close>

lemma replaceAll_unit_Nil: "replaceAll [u] [] s = List.filter (\<lambda>c. c \<noteq> u) s"
proof (induction s)
  case (Cons c s)
  then show ?case by (subst replaceAll.simps) auto
qed (simp add: replaceAll.simps [of _ _ "[]"])

lemma fileFor_refused: "fileFor serial = Inl e \<longleftrightarrow> e = CeArgument serial \<and> (\<forall>c\<in>set serial. \<not> safe_unit c \<or> c = underscore)"
  by (auto simp: fileFor_def Let_def replaceAll_unit_Nil filter_empty_conv)

text \<open>No separator and no dot before the suffix: the name is one component and not a parent.\<close>

lemma serial_cannot_escape:
  assumes "fileFor serial = Inr name"
  shows "\<exists>safe. name = safe @ ascii ''.json'' \<and> safe \<noteq> [] \<and> (\<forall>c\<in>set safe. safe_unit c)"
    "of_char (CHR ''/'') \<notin> set name"
proof -
  have safe: "safe_unit underscore" "\<not> safe_unit (of_char (CHR ''/''))" "of_char (CHR ''/'') \<notin> set (ascii ''.json'')"
    by (simp_all add: safe_unit_def underscore_def ascii_def)
  let ?s = "map (\<lambda>c. if safe_unit c then c else underscore) serial"
  from assms have n: "name = ?s @ ascii ''.json''" "?s \<noteq> []" by (auto simp: fileFor_def Let_def split: if_splits)
  moreover have all: "\<forall>c\<in>set ?s. safe_unit c" using safe(1) by auto
  ultimately show "\<exists>safe. name = safe @ ascii ''.json'' \<and> safe \<noteq> [] \<and> (\<forall>c\<in>set safe. safe_unit c)" by blast
  from all safe(2) have "of_char (CHR ''/'') \<notin> set ?s" by blast
  with n(1) safe(3) show "of_char (CHR ''/'') \<notin> set name" by simp
qed

section \<open>The contract of a store\<close>

text \<open>
  What \<open>CohnCredentialStore\<close> promises its clients, for operations that may fail: one that
  completes leaves at its key what it says; one that does not complete, or is for another key,
  leaves the key alone, except that a write that ends half way may leave debris where there was
  nothing.
\<close>

locale credential_store =
  fixes apply_op :: "'op \<Rightarrow> 'st \<Rightarrow> 'st"
    and completes :: "'op \<Rightarrow> 'k option"
    and aborts :: "'op \<Rightarrow> 'k \<Rightarrow> bool"
    and leaves :: "'op \<Rightarrow> 'x option \<Rightarrow> bool"
    and slot :: "'st \<Rightarrow> 'k \<Rightarrow> 'x option"
    and debris :: "'x \<Rightarrow> bool"
  assumes completed: "completes x = Some k \<Longrightarrow> leaves x (slot (apply_op x st) k)"
    and untouched: "completes x \<noteq> Some k \<Longrightarrow> \<not> aborts x k \<Longrightarrow> slot (apply_op x st) k = slot st k"
    and aborted: "completes x \<noteq> Some k \<Longrightarrow> aborts x k \<Longrightarrow> slot (apply_op x st) k = slot st k \<or>
      slot st k = None \<and> (\<exists>y. slot (apply_op x st) k = Some y \<and> debris y)"
begin

lemma latest_change:
  "\<exists>v. (case List.find (\<lambda>x. completes x = Some k) (rev xs) of Some x \<Rightarrow> leaves x v | None \<Rightarrow> v = slot st k) \<and>
     (slot (fold apply_op xs st) k = v \<or>
      v = None \<and> list_ex (\<lambda>x. aborts x k) xs \<and> (\<exists>y. slot (fold apply_op xs st) k = Some y \<and> debris y))"
proof (induction xs rule: rev_induct)
  case (snoc x xs)
  let ?st = "fold apply_op xs st"
  show ?case
  proof (cases "completes x = Some k")
    case True
    with completed [OF True, of ?st] show ?thesis by auto
  next
    case False
    with snoc obtain v where v: "case List.find (\<lambda>x. completes x = Some k) (rev (xs @ [x])) of Some x \<Rightarrow> leaves x v | None \<Rightarrow> v = slot st k"
      "slot ?st k = v \<or> v = None \<and> list_ex (\<lambda>x. aborts x k) xs \<and> (\<exists>y. slot ?st k = Some y \<and> debris y)" by auto
    show ?thesis
      using v aborted [OF False, of ?st] untouched [OF False, of ?st] by (intro exI [of _ v]) (cases "aborts x k"; auto)
  qed
qed simp

end

definition file_key :: "u16 list \<Rightarrow> u16 list option" where
  "file_key serial = (case fileFor serial of Inl e \<Rightarrow> None | Inr name \<Rightarrow> Some name)"

text \<open>
  The calls on a file store, each write with the umask and what its two runs of \<open>chmod\<close> give: the
  store a call leaves, whatever its result.
\<close>

datatype store_op = StWrite "u16 list" CohnCredentials u32 Chmod Chmod | StDelete "u16 list"

fun store_apply :: "store_op \<Rightarrow> CredStore \<Rightarrow> CredStore" where
  "store_apply (StWrite serial creds umask chmod1 chmod2) st = last (fst (store_write umask chmod1 chmod2 serial creds st))"
| "store_apply (StDelete serial) st = fst (store_delete serial st)"

fun store_result :: "store_op \<Rightarrow> CredStore \<Rightarrow> CredError + unit" where
  "store_result (StWrite serial creds umask chmod1 chmod2) st = snd (store_write umask chmod1 chmod2 serial creds st)"
| "store_result (StDelete serial) st = snd (store_delete serial st)"

text \<open>The file of a call that returns, and a write that throws once it has made the file.\<close>

fun op_completes :: "store_op \<Rightarrow> u16 list option" where
  "op_completes (StWrite serial creds umask chmod1 chmod2) =
     (if chmod1 = ChmodMissing \<or> chmod2 = ChmodMissing then None else file_key serial)"
| "op_completes (StDelete serial) = file_key serial"

fun op_aborts :: "store_op \<Rightarrow> u16 list \<Rightarrow> bool" where
  "op_aborts (StWrite serial creds umask chmod1 chmod2) name \<longleftrightarrow>
     chmod1 \<noteq> ChmodMissing \<and> chmod2 = ChmodMissing \<and> file_key serial = Some name"
| "op_aborts (StDelete serial) name \<longleftrightarrow> False"

fun op_leaves :: "store_op \<Rightarrow> CredFile option \<Rightarrow> bool" where
  "op_leaves (StWrite serial creds umask chmod1 chmod2) f \<longleftrightarrow>
     (\<exists>m. f = Some \<lparr>cf_mode = m, cf_content = CcDoc (toJson creds)\<rparr> \<and> (chmod2 = ChmodDone \<longrightarrow> m = 0x180))"
| "op_leaves (StDelete serial) f \<longleftrightarrow> f = None"

lemmas store_defs = store_write_def create_dir_def chmod_dir_def create_file_def chmod_file_def
  set_content_def update_file_def Let_def

lemma op_completes_iff: "op_completes x \<noteq> None \<longleftrightarrow> store_result x st = Inr ()"
  by (cases x) (auto simp: store_write_def store_delete_def file_key_def Let_def split: sum.splits)

lemma apply_write:
  "cs_files (store_apply (StWrite serial creds umask chmod1 chmod2) st) =
     (case file_key serial of
        None \<Rightarrow> cs_files st
      | Some name \<Rightarrow>
          if chmod1 = ChmodMissing then cs_files st
          else (let f = (case cs_files st name of Some f \<Rightarrow> f | None \<Rightarrow> \<lparr>cf_mode = 0x1B6 AND NOT umask, cf_content = CcEmpty\<rparr>)
                in if chmod2 = ChmodMissing then (cs_files st)(name \<mapsto> f)
                   else (cs_files st)(name \<mapsto> \<lparr>cf_mode = (if chmod2 = ChmodDone then 0x180 else cf_mode f),
                          cf_content = CcDoc (toJson creds)\<rparr>)))"
  by (auto simp: file_key_def store_defs fun_eq_iff split: sum.splits option.splits)

lemma apply_delete:
  "cs_files (store_apply (StDelete serial) st) =
     (case file_key serial of None \<Rightarrow> cs_files st | Some name \<Rightarrow> (cs_files st)(name := None))"
  by (auto simp: file_key_def store_delete_def split: sum.splits)

interpretation files: credential_store store_apply op_completes op_aborts op_leaves cs_files "\<lambda>f. cf_content f = CcEmpty"
proof unfold_locales
  fix x k st
  show "op_completes x = Some k \<Longrightarrow> op_leaves x (cs_files (store_apply x st) k)"
    by (cases x) (auto simp: apply_write apply_delete Let_def simp del: store_apply.simps split: if_splits)
  show "op_completes x \<noteq> Some k \<Longrightarrow> \<not> op_aborts x k \<Longrightarrow> cs_files (store_apply x st) k = cs_files st k"
    by (cases x) (auto simp: apply_write apply_delete Let_def simp del: store_apply.simps split: if_splits option.splits)
  show "op_completes x \<noteq> Some k \<Longrightarrow> op_aborts x k \<Longrightarrow> cs_files (store_apply x st) k = cs_files st k \<or>
      cs_files st k = None \<and> (\<exists>y. cs_files (store_apply x st) k = Some y \<and> cf_content y = CcEmpty)"
    by (cases x) (auto simp: apply_write Let_def simp del: store_apply.simps split: option.splits)
qed

lemma mode_masks: "(m AND 0x1FF) AND 0x03F = m AND 0x03F" for m :: u32
  by (simp add: and.assoc)

lemma store_read_key:
  "file_key serial = Some name \<Longrightarrow> store_read serial st =
     (case cs_files st name of
        None \<Rightarrow> Inr None
      | Some f \<Rightarrow>
          (if cf_mode f AND 0x03F \<noteq> 0 then Inl (CeMode (cf_mode f AND 0x1FF))
           else (case cf_content f of
                   CcDoc d \<Rightarrow> bind_sum (fromJson d) (\<lambda>c. Inr (Some c))
                 | _ \<Rightarrow> Inl CeFormat)))"
  by (simp add: store_read_def file_key_def Let_def mode_masks split: sum.splits option.splits)

text \<open>
  C21. What a read returns is what the latest change left, whatever calls were made, for whatever
  serials, and however their runs of \<open>chmod\<close> ended: after a write that returned, it returns the
  credentials of that write, unchanged, or refuses the file for its mode, which it can do only
  if that write's \<open>chmod\<close> was refused; after a deletion it finds nothing; and with neither it is
  what it was before. Where nothing should be found, it may instead throw if a write died
  between making the file and filling it. Credentials that were replaced or deleted, or of
  another file, never come back.
\<close>

theorem store_returns_latest_write:
  assumes "file_key serial = Some name"
  shows "let found = store_read serial (fold store_apply ops st);
             broken = (list_ex (\<lambda>x. op_aborts x name) ops \<and> isl found)
    in case List.find (\<lambda>x. op_completes x = Some name) (rev ops) of
         Some (StWrite s creds umask chmod1 chmod2) \<Rightarrow>
           found = Inr (Some creds) \<or> chmod2 = ChmodRefused \<and> (\<exists>m. found = Inl (CeMode m))
       | Some (StDelete s) \<Rightarrow> found = Inr None \<or> broken
       | None \<Rightarrow> found = store_read serial st \<or> store_read serial st = Inr None \<and> broken"
proof -
  let ?now = "fold store_apply ops st" and ?latest = "List.find (\<lambda>x. op_completes x = Some name) (rev ops)"
  obtain v where v: "case ?latest of Some x \<Rightarrow> op_leaves x v | None \<Rightarrow> v = cs_files st name"
    "cs_files ?now name = v \<or> v = None \<and> list_ex (\<lambda>x. op_aborts x name) ops \<and>
      (\<exists>f. cs_files ?now name = Some f \<and> cf_content f = CcEmpty)"
    using files.latest_change [where k = name and xs = ops and st = st] by blast
  have empty: "isl (store_read serial t)" if "cs_files t name = Some f" "cf_content f = CcEmpty" for t f
    using that by (simp add: store_read_key [OF assms])
  show ?thesis
  proof (cases ?latest)
    case None
    with v empty show ?thesis by (auto simp: store_read_key [OF assms] Let_def)
  next
    case (Some x)
    have "op_completes x = Some name" using Some by (auto simp: find_Some_iff)
    then have "chmod2 \<noteq> ChmodMissing" if "x = StWrite s creds umask chmod1 chmod2" for s creds umask chmod1 chmod2
      using that by (auto split: if_splits)
    with Some v empty show ?thesis
      by (cases x) (auto simp: store_read_key [OF assms] Let_def fromJson_toJson intro: Chmod.exhaust)
  qed
qed

definition demo_creds :: CohnCredentials where
  "demo_creds = \<lparr>co_username = ascii ''gopro'', co_password = Secret (ascii ''hunter2''), co_certificate = ascii ''PEM'',
     co_ipAddress = Some (ascii ''192.168.1.7''), co_ssid = None, co_macAddress = None\<rparr>"

definition demo_calls :: "store_op list" where
  "demo_calls =
     [StDelete (ascii ''C3441''), StWrite (ascii ''C3441'') demo_creds 0x12 ChmodRefused ChmodDone,
      StWrite (ascii ''C3441'') (demo_creds\<lparr>co_ssid := Some []\<rparr>) 0x12 ChmodDone ChmodMissing, StDelete (ascii ''C99'')]"

lemma store_returns_latest_write_witness:
  "store_read (ascii ''C3441'') (fold store_apply demo_calls \<lparr>cs_dir = None, cs_files = Map.empty\<rparr>) = Inr (Some demo_creds)"
proof -
  have k: "file_key (ascii ''C3441'') = Some (ascii ''C3441.json'')" "file_key (ascii ''C99'') = Some (ascii ''C99.json'')"
    by code_simp+
  have "ascii ''C99.json'' \<noteq> ascii ''C3441.json''" by (simp add: ascii_def)
  then have "List.find (\<lambda>x. op_completes x = Some (ascii ''C3441.json'')) (rev demo_calls) =
      Some (StWrite (ascii ''C3441'') demo_creds 0x12 ChmodRefused ChmodDone)"
    by (simp add: demo_calls_def k)
  with store_returns_latest_write [OF k(1), of demo_calls "\<lparr>cs_dir = None, cs_files = Map.empty\<rparr>"] show ?thesis
    by (simp add: Let_def)
qed

section \<open>Credentials stay private\<close>

text \<open>No file that holds a document can be read beyond its owner.\<close>

definition store_private :: "CredStore \<Rightarrow> bool" where
  "store_private st \<longleftrightarrow>
     (\<forall>name f d. cs_files st name = Some f \<longrightarrow> cf_content f = CcDoc d \<longrightarrow> cf_mode f AND 0x03F = 0)"

text \<open>
  C19. In every state a write passes through, from the first effect to the last, no file that
  holds a document is readable beyond its owner, whatever the umask, provided that was so before
  and \<open>chmod\<close> does its work or is missing.
\<close>

theorem credentials_stay_private:
  assumes "store_private st" "chmod1 \<noteq> ChmodRefused" "chmod2 \<noteq> ChmodRefused"
    and "st' \<in> set (fst (store_write umask chmod1 chmod2 serial creds st))"
  shows "store_private st'"
proof -
  have d: "store_private (create_dir umask t)" "store_private (chmod_dir r t)" if "store_private t" for t r
    using that by (simp_all add: store_private_def create_dir_def chmod_dir_def)
  have f: "store_private (create_file umask name t)" "store_private (chmod_file r name t)"
    "store_private (set_content CcEmpty name t)" if "store_private t" for t r name
    using that by (auto simp: store_private_def create_file_def chmod_file_def set_content_def update_file_def
        split: if_splits)
  have c: "store_private (set_content (CcDoc x) name (set_content CcEmpty name (chmod_file ChmodDone name t)))"
    if "store_private t" for t name x
    using that by (auto simp: store_private_def chmod_file_def set_content_def update_file_def split: if_splits)
  have "chmod2 = ChmodDone \<or> chmod2 = ChmodMissing" using assms(3) by (cases chmod2) auto
  then show ?thesis using assms(1,4)
    by (auto simp: store_write_def Let_def d f c split: if_splits sum.splits)
qed

lemma credentials_stay_private_witness:
  "let st = \<lparr>cs_dir = None, cs_files = Map.empty\<rparr> in
   length (fst (store_write 0x12 ChmodDone ChmodDone (ascii ''C3441'') demo_creds st)) = 6 \<and>
   list_all store_private (fst (store_write 0x12 ChmodDone ChmodDone (ascii ''C3441'') demo_creds st))"
proof -
  let ?st = "\<lparr>cs_dir = None, cs_files = Map.empty\<rparr>"
  have "store_private ?st" by (simp add: store_private_def)
  from credentials_stay_private [OF this, of ChmodDone ChmodDone]
  have "list_all store_private (fst (store_write 0x12 ChmodDone ChmodDone (ascii ''C3441'') demo_creds ?st))"
    by (simp add: list_all_iff)
  moreover have "\<not> isl (fileFor (ascii ''C3441''))" by code_simp
  then have "length (fst (store_write 0x12 ChmodDone ChmodDone (ascii ''C3441'') demo_creds ?st)) = 6"
    by (auto simp: store_write_def Let_def split: sum.splits)
  ultimately show ?thesis by (simp only: Let_def)
qed

text \<open>
  The exit code of \<open>chmod\<close> is not looked at: when it refuses, the password is written all the same,
  readable by everybody under the usual umask, and the write counts as done. Only the next read
  complains.
\<close>

lemma refused_chmod_exposes_password:
  assumes "fileFor serial = Inr name"
  shows "let (states, result) = store_write 0x12 ChmodDone ChmodRefused serial creds \<lparr>cs_dir = None, cs_files = Map.empty\<rparr>
    in result = Inr () \<and>
       cs_files (last states) name = Some \<lparr>cf_mode = 0x1A4, cf_content = CcDoc (toJson creds)\<rparr> \<and>
       store_read serial (last states) = Inl (CeMode 0x1A4)"
  using assms by (simp add: store_defs store_read_def)

end
