(* ===== verification/Network_Client.thy ===== *)
theory Network_Client
  imports Command_Queue
begin

text \<open>
  \<open>lib/src/wifi/network_client.dart\<close>: scanning for networks, gathering the access points page by page,
  joining a network. A request over Bluetooth has a reply, and a scan or a join ends with a
  notification that arrives as a push, before or after the reply. The readers of the protobuf
  messages are generated code and are arguments. A call is the sequence of the pieces the event
  loop runs: a push, the reply, the timer, the end of the stream.
\<close>

section \<open>Requests and replies\<close>

datatype EnumProvisioning =
    PROVISIONING_UNKNOWN
  | PROVISIONING_NEVER_STARTED
  | PROVISIONING_STARTED
  | PROVISIONING_ABORTED_BY_SYSTEM
  | PROVISIONING_CANCELLED_BY_USER
  | PROVISIONING_SUCCESS_NEW_AP
  | PROVISIONING_SUCCESS_OLD_AP
  | PROVISIONING_ERROR_FAILED_TO_ASSOCIATE
  | PROVISIONING_ERROR_PASSWORD_AUTH
  | PROVISIONING_ERROR_EULA_BLOCKING
  | PROVISIONING_ERROR_NO_INTERNET
  | PROVISIONING_ERROR_UNSUPPORTED_TYPE

datatype NetError =
    NeArgument
  | NeOutcome Outcome
  | NeRefused nat "EnumProvisioning option"
  | NeProvisioning EnumProvisioning
  | NeTimedOut
  | NeStreamEnded
  | NeDecode
  | NeCamera

text \<open>\<open>RESULT_SUCCESS\<close> of \<open>EnumResultGeneric\<close>; action and feature ids of the requests.\<close>

definition RESULT_SUCCESS :: nat where
  "RESULT_SUCCESS = 1"

definition networkManagement :: u8 where
  "networkManagement = 2"

definition notifStartScan :: u8 where
  "notifStartScan = 11"

definition notifProvisState :: u8 where
  "notifProvisState = 12"

text \<open>\<open>sendProtobuf\<close> throws, or completes with an outcome and a payload that has a header of two bytes.\<close>

definition net_send :: "(Outcome \<times> bytes) option \<Rightarrow> NetError + bytes" where
  "net_send reply =
     (case reply of
        None \<Rightarrow> Inl NeCamera
      | Some (outcome, payload) \<Rightarrow>
          if outcome \<noteq> kResponded then Inl (NeOutcome outcome)
          else if length payload < 2 then Inl NeDecode
          else Inr (drop 2 payload))"

definition isNotification :: "u8 \<Rightarrow> bytes \<Rightarrow> bool" where
  "isNotification action m \<longleftrightarrow> 2 \<le> length m \<and> m ! 0 = networkManagement \<and> m ! 1 = action"

section \<open>Calls that wait for a notification\<close>

text \<open>
  The future of the notification and the call that asked for it. A future that completes with an
  error while nobody listens to it makes the error an unhandled one.
\<close>

datatype 'v Fut = FutPending | FutDone "NetError + 'v"

datatype 'v CallPhase = CallAsked | CallAwaiting | CallDone "NetError + 'v"

record 'v NetCall =
  nc_phase :: "'v CallPhase"
  nc_future :: "'v Fut"
  nc_heard :: bool

datatype NetLabel = NetPush bytes | NetPushesEnd | NetTimeout | NetReply "(Outcome \<times> bytes) option"

datatype NetOut = Unhandled NetError

definition new_call :: "'v NetCall" where
  "new_call = \<lparr>nc_phase = CallAsked, nc_future = FutPending, nc_heard = False\<rparr>"

definition call_settle :: "NetError + 'v \<Rightarrow> 'v NetCall \<Rightarrow> 'v NetCall \<times> NetOut list" where
  "call_settle r s =
     (if nc_future s \<noteq> FutPending then (s, [])
      else (s\<lparr>nc_future := FutDone r,
              nc_phase := (if nc_phase s = CallAwaiting then CallDone r else nc_phase s)\<rparr>,
            (case r of Inl e \<Rightarrow> if nc_heard s then [] else [Unhandled e] | Inr v \<Rightarrow> [])))"

text \<open>The reply is in: a refusal ends the call, otherwise it awaits the future, which may be done
  already. \<open>handled\<close> says whether a refused call leaves a listener on the future.\<close>

definition call_reply :: "bool \<Rightarrow> NetError option \<Rightarrow> 'v NetCall \<Rightarrow> 'v NetCall" where
  "call_reply handled refusal s =
     (if nc_phase s \<noteq> CallAsked then s
      else (case refusal of
              Some e \<Rightarrow> s\<lparr>nc_phase := CallDone (Inl e), nc_heard := handled\<rparr>
            | None \<Rightarrow>
                s\<lparr>nc_heard := True,
                  nc_phase := (case nc_future s of FutPending \<Rightarrow> CallAwaiting | FutDone r \<Rightarrow> CallDone r)\<rparr>))"

fun call_step ::
  "(bytes \<Rightarrow> (NetError + 'v) option) \<Rightarrow> bool \<Rightarrow> ((Outcome \<times> bytes) option \<Rightarrow> NetError option) \<Rightarrow>
   'v NetCall \<Rightarrow> NetLabel \<Rightarrow> 'v NetCall \<times> NetOut list" where
  "call_step pick handled refusal s (NetPush m) =
     (case pick m of None \<Rightarrow> (s, []) | Some r \<Rightarrow> call_settle r s)"
| "call_step pick handled refusal s NetPushesEnd = call_settle (Inl NeStreamEnded) s"
| "call_step pick handled refusal s NetTimeout = call_settle (Inl NeTimedOut) s"
| "call_step pick handled refusal s (NetReply r) = (call_reply handled (refusal r) s, [])"

text \<open>A scan. The notification says whether scanning succeeded, the id of the scan and the number
  of entries; the reply says whether it started.\<close>

record ScanNotif =
  sn_success :: bool
  sn_scanId :: "int option"
  sn_totalEntries :: "int option"

record ScanResult =
  sr_scanId :: int
  sr_totalEntries :: int

definition scan_pick :: "(bytes \<Rightarrow> ScanNotif option) \<Rightarrow> bytes \<Rightarrow> (NetError + ScanResult) option" where
  "scan_pick fromBuffer m =
     (if \<not> isNotification notifStartScan m then None
      else (case fromBuffer (drop 2 m) of
              None \<Rightarrow> Some (Inl NeDecode)
            | Some n \<Rightarrow>
                if sn_success n
                then Some (Inr \<lparr>sr_scanId = (case sn_scanId n of Some i \<Rightarrow> i | None \<Rightarrow> 0),
                                sr_totalEntries = (case sn_totalEntries n of Some t \<Rightarrow> t | None \<Rightarrow> 0)\<rparr>)
                else None))"

definition scan_refusal :: "(bytes \<Rightarrow> nat option) \<Rightarrow> (Outcome \<times> bytes) option \<Rightarrow> NetError option" where
  "scan_refusal resultOf reply =
     (case net_send reply of
        Inl e \<Rightarrow> Some e
      | Inr bs \<Rightarrow>
          (case resultOf bs of
             None \<Rightarrow> Some NeDecode
           | Some r \<Rightarrow> if r \<noteq> RESULT_SUCCESS then Some (NeRefused r None) else None))"

definition scan_step ::
  "(bytes \<Rightarrow> ScanNotif option) \<Rightarrow> (bytes \<Rightarrow> nat option) \<Rightarrow>
   ScanResult NetCall \<Rightarrow> NetLabel \<Rightarrow> ScanResult NetCall \<times> NetOut list" where
  "scan_step fromBuffer resultOf = call_step (scan_pick fromBuffer) True (scan_refusal resultOf)"

text \<open>Joining a network, one the camera knows or a new one.\<close>

definition provisioning_succeeded :: "EnumProvisioning \<Rightarrow> bool" where
  "provisioning_succeeded p \<longleftrightarrow> p \<in> {PROVISIONING_SUCCESS_NEW_AP, PROVISIONING_SUCCESS_OLD_AP}"

definition provisioning_pending :: "EnumProvisioning \<Rightarrow> bool" where
  "provisioning_pending p \<longleftrightarrow> p \<in> {PROVISIONING_UNKNOWN, PROVISIONING_NEVER_STARTED, PROVISIONING_STARTED}"

definition provisioned_pick :: "(bytes \<Rightarrow> EnumProvisioning option) \<Rightarrow> bytes \<Rightarrow> (NetError + unit) option" where
  "provisioned_pick fromBuffer m =
     (if \<not> isNotification notifProvisState m then None
      else (case fromBuffer (drop 2 m) of
              None \<Rightarrow> Some (Inl NeDecode)
            | Some p \<Rightarrow>
                if provisioning_pending p then None
                else if \<not> provisioning_succeeded p then Some (Inl (NeProvisioning p))
                else Some (Inr ())))"

definition connect_refusal ::
  "(bytes \<Rightarrow> (nat \<times> EnumProvisioning option) option) \<Rightarrow> (Outcome \<times> bytes) option \<Rightarrow> NetError option" where
  "connect_refusal resultOf reply =
     (case net_send reply of
        Inl e \<Rightarrow> Some e
      | Inr bs \<Rightarrow>
          (case resultOf bs of
             None \<Rightarrow> Some NeDecode
           | Some (r, p) \<Rightarrow> if r \<noteq> RESULT_SUCCESS then Some (NeRefused r p) else None))"

definition connect_start :: "bytes \<Rightarrow> NetError + unit NetCall" where
  "connect_start ssid = (if ssid = [] then Inl NeArgument else Inr new_call)"

definition connect_step ::
  "(bytes \<Rightarrow> EnumProvisioning option) \<Rightarrow> (bytes \<Rightarrow> (nat \<times> EnumProvisioning option) option) \<Rightarrow>
   unit NetCall \<Rightarrow> NetLabel \<Rightarrow> unit NetCall \<times> NetOut list" where
  "connect_step fromBuffer resultOf = call_step (provisioned_pick fromBuffer) False (connect_refusal resultOf)"

definition net_release :: "(bytes \<Rightarrow> nat option) \<Rightarrow> (Outcome \<times> bytes) option \<Rightarrow> NetError option" where
  "net_release resultOf reply = scan_refusal resultOf reply"

section \<open>Gathering access points\<close>

record AccessPoint =
  acp_ssid :: bytes
  acp_signalBars :: int
  acp_frequencyMhz :: int
  acp_flags :: int

definition isOpen :: "AccessPoint \<Rightarrow> bool" where
  "isOpen a \<longleftrightarrow> acp_flags a AND 0x01 = 0"

definition isConfigured :: "AccessPoint \<Rightarrow> bool" where
  "isConfigured a \<longleftrightarrow> acp_flags a AND 0x02 \<noteq> 0"

definition isAssociated :: "AccessPoint \<Rightarrow> bool" where
  "isAssociated a \<longleftrightarrow> acp_flags a AND 0x08 \<noteq> 0"

definition isUnsupported :: "AccessPoint \<Rightarrow> bool" where
  "isUnsupported a \<longleftrightarrow> acp_flags a AND 0x10 \<noteq> 0"

record ApRequest =
  rq_startIndex :: int
  rq_maxEntries :: int
  rq_scanId :: int

definition next_request :: "ScanResult \<Rightarrow> int \<Rightarrow> int \<Rightarrow> nat \<Rightarrow> ApRequest" where
  "next_request scan pageSize want got =
     (let remaining = want - int got
      in \<lparr>rq_startIndex = int got,
          rq_maxEntries = (if remaining < pageSize then remaining else pageSize),
          rq_scanId = sr_scanId scan\<rparr>)"

text \<open>The camera answers each request; the requests made come with the result.\<close>

function gather ::
  "(ApRequest list \<Rightarrow> (Outcome \<times> bytes) option) \<Rightarrow> (bytes \<Rightarrow> (nat \<times> AccessPoint list) option) \<Rightarrow>
   ScanResult \<Rightarrow> int \<Rightarrow> int \<Rightarrow> ApRequest list \<Rightarrow> AccessPoint list \<Rightarrow>
   ApRequest list \<times> (NetError + AccessPoint list)" where
  "gather camera fromBuffer scan pageSize want asked out =
     (if int (length out) < want then
        (let asked1 = asked @ [next_request scan pageSize want (length out)]
         in case net_send (camera asked1) of
              Inl e \<Rightarrow> (asked1, Inl e)
            | Inr bs \<Rightarrow>
                (case fromBuffer bs of
                   None \<Rightarrow> (asked1, Inl NeDecode)
                 | Some (result, entries) \<Rightarrow>
                     if result \<noteq> RESULT_SUCCESS then (asked1, Inl (NeRefused result None))
                     else if entries = [] then (asked1, Inr out)
                     else gather camera fromBuffer scan pageSize want asked1 (out @ entries)))
      else (asked, Inr out))"
  by pat_completeness auto
termination
  by (relation "measure (\<lambda>(camera, fromBuffer, scan, pageSize, want, asked, out). nat (want - int (length out)))")
    (auto simp: neq_Nil_conv)

declare gather.simps [simp del]

definition entries_wanted :: "ScanResult \<Rightarrow> int option \<Rightarrow> int" where
  "entries_wanted scan maxEntries =
     (case maxEntries of
        None \<Rightarrow> sr_totalEntries scan
      | Some m \<Rightarrow> if m < sr_totalEntries scan then m else sr_totalEntries scan)"

definition accessPoints ::
  "(ApRequest list \<Rightarrow> (Outcome \<times> bytes) option) \<Rightarrow> (bytes \<Rightarrow> (nat \<times> AccessPoint list) option) \<Rightarrow>
   ScanResult \<Rightarrow> int \<Rightarrow> int option \<Rightarrow> ApRequest list \<times> (NetError + AccessPoint list)" where
  "accessPoints camera fromBuffer scan pageSize maxEntries =
     gather camera fromBuffer scan pageSize (entries_wanted scan maxEntries) [] []"

section \<open>The outcome of a call does not depend on the order of events\<close>

text \<open>What a label brings: the reply of the request, or what completes the future.\<close>

fun reply_of :: "NetLabel \<Rightarrow> (Outcome \<times> bytes) option option" where
  "reply_of (NetReply r) = Some r"
| "reply_of l = None"

fun settle_of :: "(bytes \<Rightarrow> (NetError + 'v) option) \<Rightarrow> NetLabel \<Rightarrow> (NetError + 'v) option" where
  "settle_of pick (NetPush m) = pick m"
| "settle_of pick NetPushesEnd = Some (Inl NeStreamEnded)"
| "settle_of pick NetTimeout = Some (Inl NeTimedOut)"
| "settle_of pick (NetReply r) = None"

fun first_some :: "('a \<Rightarrow> 'b option) \<Rightarrow> 'a list \<Rightarrow> 'b option" where
  "first_some f [] = None"
| "first_some f (x # xs) = (case f x of None \<Rightarrow> first_some f xs | Some y \<Rightarrow> Some y)"

lemma first_some_snoc:
  "first_some f (xs @ [x]) = (case first_some f xs of None \<Rightarrow> f x | Some y \<Rightarrow> Some y)"
  by (induction xs) (auto split: option.splits)

definition call_result ::
  "(bytes \<Rightarrow> (NetError + 'v) option) \<Rightarrow> ((Outcome \<times> bytes) option \<Rightarrow> NetError option) \<Rightarrow>
   NetLabel list \<Rightarrow> 'v CallPhase" where
  "call_result pick refusal ls =
     (case first_some reply_of ls of
        None \<Rightarrow> CallAsked
      | Some r \<Rightarrow>
          (case refusal r of
             Some e \<Rightarrow> CallDone (Inl e)
           | None \<Rightarrow>
               (case first_some (settle_of pick) ls of
                  None \<Rightarrow> CallAwaiting
                | Some x \<Rightarrow> CallDone x)))"

definition call_future :: "(bytes \<Rightarrow> (NetError + 'v) option) \<Rightarrow> NetLabel list \<Rightarrow> 'v Fut" where
  "call_future pick ls =
     (case first_some (settle_of pick) ls of None \<Rightarrow> FutPending | Some x \<Rightarrow> FutDone x)"

definition call_heard :: "bool \<Rightarrow> ((Outcome \<times> bytes) option \<Rightarrow> NetError option) \<Rightarrow> NetLabel list \<Rightarrow> bool" where
  "call_heard handled refusal ls =
     (case first_some reply_of ls of None \<Rightarrow> False | Some r \<Rightarrow> handled \<or> refusal r = None)"

lemma fst_call_step:
  "fst (call_step pick handled refusal s l) =
     (case settle_of pick l of
        Some r \<Rightarrow> fst (call_settle r s)
      | None \<Rightarrow> (case reply_of l of Some r \<Rightarrow> call_reply handled (refusal r) s | None \<Rightarrow> s))"
  by (cases l) (auto split: option.splits)

lemma call_run:
  "fst (run (call_step pick handled refusal) new_call ls) =
     \<lparr>nc_phase = call_result pick refusal ls, nc_future = call_future pick ls,
      nc_heard = call_heard handled refusal ls\<rparr>"
proof (induction ls rule: rev_induct)
  case Nil
  then show ?case by (simp add: new_call_def call_result_def call_future_def call_heard_def)
next
  case (snoc l ls)
  have "fst (run (call_step pick handled refusal) new_call (ls @ [l])) =
      fst (call_step pick handled refusal (fst (run (call_step pick handled refusal) new_call ls)) l)"
    by (simp add: Let_def split_beta)
  also have "\<dots> = \<lparr>nc_phase = call_result pick refusal (ls @ [l]), nc_future = call_future pick (ls @ [l]),
      nc_heard = call_heard handled refusal (ls @ [l])\<rparr>"
    unfolding snoc.IH fst_call_step
    by (cases l) (auto simp: call_settle_def call_reply_def call_result_def call_future_def call_heard_def
        first_some_snoc split: option.splits)
  finally show ?case .
qed

text \<open>
  C20. Joining and scanning end the same way in whatever order the reply, the notifications, the
  timer and the end of the stream come: with the refusal if the first reply is one; else, once
  both are there, with what came first of a decisive notification, the timer and the end of the
  stream, even if that was before the reply. So joining returns exactly if the request was
  accepted and the first decisive event says that the camera joined.
\<close>

theorem call_outcome_any_order:
  "nc_phase (fst (run (connect_step fb ro) new_call ls)) = call_result (provisioned_pick fb) (connect_refusal ro) ls \<and>
   nc_phase (fst (run (scan_step fs rs) new_call ls)) = call_result (scan_pick fs) (scan_refusal rs) ls \<and>
   (nc_phase (fst (run (connect_step fb ro) new_call ls)) = CallDone (Inr ()) \<longleftrightarrow>
     (\<exists>r. first_some reply_of ls = Some r \<and> connect_refusal ro r = None) \<and>
     first_some (settle_of (provisioned_pick fb)) ls = Some (Inr ()))"
  by (auto simp: connect_step_def scan_step_def call_run call_result_def split: option.splits)

text \<open>A scan leaves an error unheard only while its request is unanswered.\<close>

lemma call_unheard:
  assumes "Unhandled e \<in> set (snd (call_step pick handled refusal s l))"
  shows "\<not> nc_heard s"
  using assms by (cases l) (auto simp: call_settle_def split: option.splits sum.splits if_splits)

lemma run_snoc: "snd (run f s (ls @ [l])) = snd (run f s ls) @ snd (f (fst (run f s ls)) l)"
  by (simp add: run_append Let_def split_beta)

lemma scan_errors_heard:
  assumes "Unhandled e \<in> set (snd (run (scan_step fs rs) new_call ls))"
  shows "\<exists>before l after. ls = before @ l # after \<and> first_some reply_of before = None"
  using assms
proof (induction ls rule: rev_induct)
  case (snoc l ls)
  show ?case
  proof (cases "Unhandled e \<in> set (snd (run (scan_step fs rs) new_call ls))")
    case True
    with snoc.IH obtain before x after where "ls = before @ x # after" "first_some reply_of before = None" by blast
    then show ?thesis by (intro exI [of _ before] exI [of _ x] exI [of _ "after @ [l]"]) simp
  next
    case False
    then have "Unhandled e \<in> set (snd (scan_step fs rs (fst (run (scan_step fs rs) new_call ls)) l))"
      using snoc.prems by (simp add: run_snoc)
    then have "\<not> nc_heard (fst (run (scan_step fs rs) new_call ls))"
      unfolding scan_step_def by (rule call_unheard)
    then have "first_some reply_of ls = None"
      by (simp add: scan_step_def call_run call_heard_def split: option.splits)
    then show ?thesis by blast
  qed
qed simp

text \<open>
  Joining lacks what the scan has: nothing listens to the future of a refused join, so when the
  camera does not join either, or the time is up, the error has nobody to go to.
\<close>

lemma refused_join_leaves_unhandled_error:
  "snd (run (connect_step fb ro) new_call [NetReply None, NetTimeout]) = [Unhandled NeTimedOut]"
  by (simp add: connect_step_def call_reply_def call_settle_def new_call_def connect_refusal_def net_send_def)

section \<open>The access points gathered\<close>

lemma gather_requests:
  assumes "gather camera fromBuffer scan pageSize want asked out = (asked', r)"
  shows "\<exists>new. asked' = asked @ new \<and>
    (\<forall>rq\<in>set new. int (length out) \<le> rq_startIndex rq \<and> rq_startIndex rq + rq_maxEntries rq \<le> want \<and>
       rq_maxEntries rq \<le> pageSize \<and> rq_scanId rq = sr_scanId scan \<and> rq_startIndex rq < want) \<and>
    sorted_wrt (<) (map rq_startIndex new) \<and> int (length new) \<le> max 0 (want - int (length out))"
  using assms
proof (induction camera fromBuffer scan pageSize want asked out rule: gather.induct)
  case (1 camera fromBuffer scan pageSize want asked out)
  define rq where "rq = next_request scan pageSize want (length out)"
  show ?case
  proof (cases "int (length out) < want")
    case False
    with "1.prems" show ?thesis by (subst (asm) gather.simps) simp
  next
    case less: True
    have last: ?thesis if "asked' = asked @ [rq]"
      using that less by (intro exI [of _ "[rq]"]) (auto simp: rq_def next_request_def Let_def)
    show ?thesis
    proof (cases "\<exists>bs entries. net_send (camera (asked @ [rq])) = Inr bs \<and> fromBuffer bs = Some (RESULT_SUCCESS, entries) \<and> entries \<noteq> []")
      case False
      with "1.prems" less have "asked' = asked @ [rq]"
        by (subst (asm) gather.simps)
          (auto simp: Let_def rq_def [symmetric] split: sum.splits option.splits if_splits)
      then show ?thesis by (rule last)
    next
      case True
      then obtain bs entries where e: "net_send (camera (asked @ [rq])) = Inr bs"
        "fromBuffer bs = Some (RESULT_SUCCESS, entries)" "entries \<noteq> []" by blast
      then have g: "gather camera fromBuffer scan pageSize want (asked @ [rq]) (out @ entries) = (asked', r)"
        using "1.prems" less by (subst (asm) gather.simps) (simp add: Let_def rq_def [symmetric])
      have "int (length entries) \<ge> 1" using e(3) by (cases entries) auto
      from "1.IH" [OF less refl, folded rq_def, OF e(1) e(2) refl _ e(3) g]
      obtain new where new: "asked' = asked @ rq # new"
        "\<forall>q\<in>set new. int (length (out @ entries)) \<le> rq_startIndex q \<and> rq_startIndex q + rq_maxEntries q \<le> want \<and>
           rq_maxEntries q \<le> pageSize \<and> rq_scanId q = sr_scanId scan \<and> rq_startIndex q < want"
        "sorted_wrt (<) (map rq_startIndex new)" "int (length new) \<le> max 0 (want - int (length (out @ entries)))"
        by auto
      show ?thesis
        using new less \<open>int (length entries) \<ge> 1\<close>
        by (intro exI [of _ "rq # new"]) (fastforce simp: rq_def next_request_def Let_def)
    qed
  qed
qed

text \<open>
  C40. Whatever the camera answers, gathering ends; its requests go forward without asking twice
  for an entry, never beyond the entries wanted, never for more than a page, and there are at
  most as many as entries wanted.
\<close>

theorem access_points_requests_bounded:
  "let (asked, r) = accessPoints camera fromBuffer scan pageSize maxEntries; want = entries_wanted scan maxEntries in
   (\<forall>rq\<in>set asked. 0 \<le> rq_startIndex rq \<and> rq_startIndex rq < want \<and>
      rq_startIndex rq + rq_maxEntries rq \<le> want \<and> rq_maxEntries rq \<le> pageSize \<and> rq_scanId rq = sr_scanId scan) \<and>
   sorted_wrt (<) (map rq_startIndex asked) \<and> length asked \<le> nat want"
proof -
  obtain asked r where g: "accessPoints camera fromBuffer scan pageSize maxEntries = (asked, r)" by fastforce
  from gather_requests [OF g [unfolded accessPoints_def]] show ?thesis unfolding g Let_def prod.case by auto
qed

lemma gather_exact:
  assumes "\<And>asked rq. \<exists>header bs. camera (asked @ [rq]) = Some (kResponded, header @ bs) \<and> length header = 2 \<and>
      fromBuffer bs = Some (RESULT_SUCCESS, take (min cap (nat (rq_maxEntries rq))) (drop (nat (rq_startIndex rq)) aps))"
    and "0 < cap" "0 < pageSize" "want \<le> int (length aps)"
    and "out = take n aps" "n \<le> nat want"
  shows "snd (gather camera fromBuffer scan pageSize want asked out) = Inr (take (nat want) aps)"
  using assms
proof (induction camera fromBuffer scan pageSize want asked out arbitrary: n rule: gather.induct)
  case (1 camera fromBuffer scan pageSize want asked out)
  have n: "n \<le> length aps" "length out = n" using "1.prems"(4-6) by auto
  show ?case
  proof (cases "int (length out) < want")
    case False
    with "1.prems"(5,6) n have "n = nat want" by simp
    with False "1.prems"(5) show ?thesis by (subst gather.simps) simp
  next
    case True
    define rq where "rq = next_request scan pageSize want (length out)"
    define k where "k = min cap (nat (rq_maxEntries rq))"
    have k: "0 < k" "n + k \<le> nat want" "nat (rq_startIndex rq) = n"
      using True "1.prems"(2,3) n by (auto simp: k_def rq_def next_request_def Let_def)
    obtain header bs where c: "camera (asked @ [rq]) = Some (kResponded, header @ bs)" "length header = 2"
      and bs: "fromBuffer bs = Some (RESULT_SUCCESS, take k (drop n aps))"
      using "1.prems"(1) [of asked rq] k(3) by (auto simp: k_def)
    have s: "net_send (camera (asked @ [rq])) = Inr bs" using c by (simp add: net_send_def)
    have more: "take k (drop n aps) \<noteq> []" using k True "1.prems"(4) n by auto
    have grown: "out @ take k (drop n aps) = take (n + k) aps" using "1.prems"(5) by (simp add: take_add)
    have "gather camera fromBuffer scan pageSize want asked out =
        gather camera fromBuffer scan pageSize want (asked @ [rq]) (out @ take k (drop n aps))"
      using True s bs more by (subst gather.simps) (simp add: Let_def rq_def)
    moreover have "snd (gather camera fromBuffer scan pageSize want (asked @ [rq]) (out @ take k (drop n aps))) =
        Inr (take (nat want) aps)"
      using "1.IH" [OF True refl, folded rq_def, OF s bs refl _ more "1.prems"(1-4) grown k(2)] by simp
    ultimately show ?thesis by simp
  qed
qed

text \<open>
  From a camera that serves its list of access points window by window, however many it
  gives at once, the client gathers exactly that list, or the number of its first entries that
  was asked for, in order, nothing twice and nothing left out.
\<close>

lemma access_points_exact:
  assumes "\<And>asked rq. \<exists>header bs. camera (asked @ [rq]) = Some (kResponded, header @ bs) \<and> length header = 2 \<and>
      fromBuffer bs = Some (RESULT_SUCCESS, take (min cap (nat (rq_maxEntries rq))) (drop (nat (rq_startIndex rq)) aps))"
    and "0 < cap" "0 < pageSize" "sr_totalEntries scan = int (length aps)"
  shows "snd (accessPoints camera fromBuffer scan pageSize maxEntries) =
    Inr (case maxEntries of None \<Rightarrow> aps | Some m \<Rightarrow> take (nat m) aps)"
proof -
  have "entries_wanted scan maxEntries \<le> int (length aps)"
    using assms(4) by (auto simp: entries_wanted_def split: option.splits)
  from gather_exact [OF assms(1-3) this, where out = "[]" and n = 0]
  have "snd (accessPoints camera fromBuffer scan pageSize maxEntries) =
      Inr (take (nat (entries_wanted scan maxEntries)) aps)"
    by (simp add: accessPoints_def)
  then show ?thesis using assms(4) by (auto simp: entries_wanted_def split: option.splits)
qed

text \<open>A camera that serves five access points, two at a time.\<close>

definition demo_aps :: "AccessPoint list" where
  "demo_aps = map (\<lambda>i. \<lparr>acp_ssid = [i], acp_signalBars = 3, acp_frequencyMhz = 2412, acp_flags = 2\<rparr>) [1, 2, 3, 4, 5]"

definition demo_camera :: "ApRequest list \<Rightarrow> (Outcome \<times> bytes) option" where
  "demo_camera asked =
     Some (kResponded, [2, 131] @ [word_of_nat (min 255 (nat (rq_startIndex (last asked)))),
                                   word_of_nat (min 2 (nat (rq_maxEntries (last asked))))])"

definition demo_page :: "bytes \<Rightarrow> (nat \<times> AccessPoint list) option" where
  "demo_page bs = Some (RESULT_SUCCESS, take (unat (bs ! 1)) (drop (unat (bs ! 0)) demo_aps))"

lemma access_points_requests_bounded_witness:
  "let asked = fst (accessPoints demo_camera demo_page \<lparr>sr_scanId = 7, sr_totalEntries = 5\<rparr> 20 None) in
   asked \<noteq> [] \<and> (\<forall>rq\<in>set asked. rq_startIndex rq + rq_maxEntries rq \<le> 5) \<and> length asked \<le> 5"
proof -
  let ?s = "\<lparr>sr_scanId = 7, sr_totalEntries = 5\<rparr>"
  obtain asked r where g: "accessPoints demo_camera demo_page ?s 20 None = (asked, r)" by fastforce
  have "\<forall>rq\<in>set asked. rq_startIndex rq + rq_maxEntries rq \<le> 5" "length asked \<le> 5"
    using access_points_requests_bounded [of demo_camera demo_page ?s 20 None]
    by (auto simp: g entries_wanted_def)
  moreover have "fst (accessPoints demo_camera demo_page ?s 20 None) \<noteq> []" by code_simp
  then have "asked \<noteq> []" by (simp add: g)
  ultimately show ?thesis by (simp add: g)
qed

lemma access_points_exact_example:
  "snd (accessPoints demo_camera demo_page \<lparr>sr_scanId = 7, sr_totalEntries = 5\<rparr> 20 (Some 3)) = Inr (take 3 demo_aps)"
proof -
  have "\<exists>header bs. demo_camera (asked @ [rq]) = Some (kResponded, header @ bs) \<and> length header = 2 \<and>
      demo_page bs = Some (RESULT_SUCCESS, take (min 2 (nat (rq_maxEntries rq))) (drop (nat (rq_startIndex rq)) demo_aps))"
    for asked rq
  proof (intro exI conjI)
    let ?bs = "[word_of_nat (min 255 (nat (rq_startIndex rq))), word_of_nat (min 2 (nat (rq_maxEntries rq)))] :: bytes"
    show "demo_camera (asked @ [rq]) = Some (kResponded, [2, 131] @ ?bs)" by (simp add: demo_camera_def)
    have "unat (?bs ! 0) = min 255 (nat (rq_startIndex rq))" "unat (?bs ! 1) = min 2 (nat (rq_maxEntries rq))"
      by (simp_all add: unat_of_nat_small)
    moreover have "drop (min 255 (nat (rq_startIndex rq))) demo_aps = drop (nat (rq_startIndex rq)) demo_aps"
      by (simp add: demo_aps_def min_def)
    ultimately show "demo_page ?bs =
        Some (RESULT_SUCCESS, take (min 2 (nat (rq_maxEntries rq))) (drop (nat (rq_startIndex rq)) demo_aps))"
      by (simp add: demo_page_def)
  qed simp
  from access_points_exact [OF this, of 20 "\<lparr>sr_scanId = 7, sr_totalEntries = 5\<rparr>" "Some 3"]
  show ?thesis by (simp add: demo_aps_def)
qed

text \<open>An empty page ends the gathering early, and what was gathered so far is returned.\<close>

lemma empty_page_ends:
  assumes "0 < want" "net_send (camera [next_request scan pageSize want 0]) = Inr bs" "fromBuffer bs = Some (RESULT_SUCCESS, [])"
  shows "gather camera fromBuffer scan pageSize want [] [] = ([next_request scan pageSize want 0], Inr [])"
  using assms by (subst gather.simps) (simp add: Let_def)

end
