(* ===== verification/Cohn_Client.thy ===== *)
theory Cohn_Client
  imports Credential_Store Network_Client
begin

text \<open>
  \<open>lib/src/cohn/cohn_client.dart\<close>, \<open>cohn_http.dart\<close> and \<open>lib/src/streaming/livestream.dart\<close>: requests to the
  camera over Bluetooth whose effect shows only in its status, so that the client polls until it
  is there or the time is up. What the camera answers to each call is an argument, so are the
  readers of the protobuf messages, which are generated, and the clock. The loop may poll for
  ever if the clock stands still; it is a partial function with \<open>None\<close> for not returning.
\<close>

section \<open>Polling\<close>

text \<open>\<open>elapsed i\<close> is the time since the start at the \<open>i\<close>-th look; a look decides or does not.\<close>

partial_function (option) poll_until ::
  "(nat \<Rightarrow> int) \<Rightarrow> int \<Rightarrow> (nat \<Rightarrow> 'r option) \<Rightarrow> nat \<Rightarrow> 'r option option" where
  "poll_until elapsed timeout look i =
     (if elapsed i < timeout
      then (case look i of Some r \<Rightarrow> Some (Some r) | None \<Rightarrow> poll_until elapsed timeout look (Suc i))
      else Some None)"

text \<open>The look at which polling stops, if there is one.\<close>

definition stops_at :: "(nat \<Rightarrow> int) \<Rightarrow> int \<Rightarrow> (nat \<Rightarrow> 'r option) \<Rightarrow> nat \<Rightarrow> nat \<Rightarrow> 'r option \<Rightarrow> bool" where
  "stops_at elapsed timeout look i j r \<longleftrightarrow>
     i \<le> j \<and> (\<forall>k. i \<le> k \<and> k < j \<longrightarrow> elapsed k < timeout \<and> look k = None) \<and>
     (if elapsed j < timeout then look j \<noteq> None \<and> r = look j else r = None)"

lemma poll_until_stops:
  "stops_at elapsed timeout look i j r \<Longrightarrow> poll_until elapsed timeout look i = Some r"
proof (induction "j - i" arbitrary: i)
  case 0
  then have "i = j" by (simp add: stops_at_def)
  with 0 show ?case by (subst poll_until.simps) (auto simp: stops_at_def split: if_splits)
next
  case (Suc d)
  then have "i < j" "elapsed i < timeout" "look i = None" by (auto simp: stops_at_def)
  moreover have "stops_at elapsed timeout look (Suc i) j r" using Suc.prems \<open>i < j\<close> by (auto simp: stops_at_def)
  then have "poll_until elapsed timeout look (Suc i) = Some r" using Suc.hyps by simp
  ultimately show ?case by (subst poll_until.simps) simp
qed

lemma poll_stops:
  assumes "timeout \<le> elapsed n"
  shows "\<exists>j\<le>n. \<exists>r. stops_at elapsed timeout look 0 j r"
proof -
  define j where "j = (LEAST k. \<not> elapsed k < timeout \<or> look k \<noteq> None)"
  have stop: "\<not> elapsed j < timeout \<or> look j \<noteq> None"
    unfolding j_def by (rule LeastI [where k = n]) (use assms in simp)
  have "j \<le> n" unfolding j_def by (rule Least_le) (use assms in simp)
  moreover have "elapsed k < timeout \<and> look k = None" if "k < j" for k
    using that not_less_Least [of k "\<lambda>k. \<not> elapsed k < timeout \<or> look k \<noteq> None"] unfolding j_def by blast
  then have "stops_at elapsed timeout look 0 j (if elapsed j < timeout then look j else None)"
    using stop by (simp add: stops_at_def)
  ultimately show ?thesis by blast
qed

lemma poll_until_SomeD:
  assumes "poll_until elapsed timeout look i = Some r"
  shows "\<exists>j. stops_at elapsed timeout look i j r"
proof (rule poll_until.raw_induct [OF _ assms])
  fix poll :: "(nat \<Rightarrow> int) \<Rightarrow> int \<Rightarrow> (nat \<Rightarrow> 'a option) \<Rightarrow> nat \<Rightarrow> 'a option option"
    and elapsed timeout look i r
  assume IH: "\<And>elapsed timeout look i r. poll elapsed timeout look i = Some r \<Longrightarrow> \<exists>j. stops_at elapsed timeout look i j r"
    and step: "(if elapsed i < timeout
      then case look i of None \<Rightarrow> poll elapsed timeout look (Suc i) | Some r \<Rightarrow> Some (Some r)
      else Some None) = Some r"
  show "\<exists>j. stops_at elapsed timeout look i j r"
  proof (cases "elapsed i < timeout \<and> look i = None")
    case True
    with step have "poll elapsed timeout look (Suc i) = Some r" by simp
    then obtain j where j: "stops_at elapsed timeout look (Suc i) j r" by (blast dest: IH)
    have "k = i \<or> Suc i \<le> k" if "i \<le> k" for k using that by auto
    with True j have "stops_at elapsed timeout look i j r" unfolding stops_at_def by (metis Suc_leD)
    then show ?thesis by blast
  next
    case False
    with step have "stops_at elapsed timeout look i i r"
      by (auto simp: stops_at_def split: if_splits option.splits)
    then show ?thesis by blast
  qed
qed

section \<open>The camera on the home network\<close>

datatype CohnError =
    CohnException string "nat option"
  | CohnOutcome string Outcome
  | CohnDecode
  | CohnCamera
  | CohnUnimplemented

definition cohn_send :: "string \<Rightarrow> (Outcome \<times> bytes) option \<Rightarrow> CohnError + bytes" where
  "cohn_send what reply =
     (case reply of
        None \<Rightarrow> Inl CohnCamera
      | Some (outcome, payload) \<Rightarrow>
          if outcome \<noteq> kResponded then Inl (CohnOutcome what outcome)
          else if length payload < 2 then Inl CohnDecode
          else Inr (drop 2 payload))"

text \<open>The readers of the messages: the result of a generic response, a status, a certificate.\<close>

record CohnStatus =
  st_provisioned :: bool
  st_ipaddress :: "u16 list option"
  st_username :: "u16 list option"
  st_password :: "u16 list option"
  st_ssid :: "u16 list option"
  st_macaddress :: "u16 list option"

record CohnReaders =
  rd_generic :: "bytes \<Rightarrow> nat option"
  rd_status :: "bytes \<Rightarrow> CohnStatus option"
  rd_cert :: "bytes \<Rightarrow> (nat option \<times> u16 list option) option"

definition cohn_command :: "CohnReaders \<Rightarrow> string \<Rightarrow> (Outcome \<times> bytes) option \<Rightarrow> CohnError + unit" where
  "cohn_command rd what reply =
     bind_sum (cohn_send what reply) (\<lambda>bs.
       if bs = [] then Inr ()
       else (case rd_generic rd bs of
               None \<Rightarrow> Inl CohnDecode
             | Some result \<Rightarrow>
                 if result \<noteq> RESULT_SUCCESS then Inl (CohnException what (Some result)) else Inr ()))"

definition cohn_status :: "CohnReaders \<Rightarrow> (Outcome \<times> bytes) option \<Rightarrow> CohnError + CohnStatus" where
  "cohn_status rd reply =
     bind_sum (cohn_send ''get status'' reply) (\<lambda>bs.
       case rd_status rd bs of None \<Rightarrow> Inl CohnDecode | Some s \<Rightarrow> Inr s)"

definition createCertificate :: "CohnReaders \<Rightarrow> bool \<Rightarrow> (Outcome \<times> bytes) option \<Rightarrow> CohnError + unit" where
  "createCertificate rd bypassEulaCheck reply =
     (if bypassEulaCheck then Inl CohnUnimplemented else cohn_command rd ''create certificate'' reply)"

definition cohn_certificate :: "CohnReaders \<Rightarrow> (Outcome \<times> bytes) option \<Rightarrow> CohnError + u16 list" where
  "cohn_certificate rd reply =
     bind_sum (cohn_send ''get certificate'' reply) (\<lambda>bs.
       case rd_cert rd bs of
         None \<Rightarrow> Inl CohnDecode
       | Some (result, cert) \<Rightarrow>
           if result \<noteq> None \<and> result \<noteq> Some RESULT_SUCCESS then Inl (CohnException ''get certificate'' result)
           else (case cert of
                   None \<Rightarrow> Inl (CohnException ''get certificate: empty'' None)
                 | Some c \<Rightarrow>
                     if c = [] then Inl (CohnException ''get certificate: empty'' None) else Inr c))"

text \<open>The calls of a provisioning, by which the camera's answers are looked up.\<close>

datatype CohnCall = CallCreateCert bool | CallEnable | CallStatus nat | CallCert nat

definition cohn_connected :: "CohnStatus \<Rightarrow> bool" where
  "cohn_connected s \<longleftrightarrow> st_provisioned s \<and> st_ipaddress s \<noteq> None \<and> st_ipaddress s \<noteq> Some []"

definition provision_look ::
  "CohnReaders \<Rightarrow> (CohnCall \<Rightarrow> (Outcome \<times> bytes) option) \<Rightarrow> nat \<Rightarrow> (CohnError + CohnCredentials) option" where
  "provision_look rd camera i =
     (case cohn_status rd (camera (CallStatus i)) of
        Inl e \<Rightarrow> Some (Inl e)
      | Inr s \<Rightarrow>
          if \<not> cohn_connected s then None
          else (case (st_username s, st_password s) of
                  (Some u, Some p) \<Rightarrow>
                    Some (bind_sum (cohn_certificate rd (camera (CallCert i))) (\<lambda>cert.
                      Inr \<lparr>co_username = u, co_password = Secret p, co_certificate = cert,
                           co_ipAddress = st_ipaddress s, co_ssid = st_ssid s,
                           co_macAddress = st_macaddress s\<rparr>))
                | _ \<Rightarrow> Some (Inl (CohnException ''provisioned but the camera reported no credentials'' None))))"

definition provision ::
  "CohnReaders \<Rightarrow> (CohnCall \<Rightarrow> (Outcome \<times> bytes) option) \<Rightarrow> bool \<Rightarrow> (nat \<Rightarrow> int) \<Rightarrow> int \<Rightarrow>
   (CohnError + CohnCredentials) option" where
  "provision rd camera override elapsed timeout =
     (case bind_sum (createCertificate rd False (camera (CallCreateCert override)))
             (\<lambda>u. cohn_command rd ''set enabled'' (camera CallEnable)) of
        Inl e \<Rightarrow> Some (Inl e)
      | Inr u \<Rightarrow>
          map_option
            (\<lambda>r. case r of
                   None \<Rightarrow> Inl (CohnException ''timed out waiting for the camera to reach the network'' None)
                 | Some x \<Rightarrow> x)
            (poll_until elapsed timeout (provision_look rd camera) 0))"

text \<open>The host of the HTTPS client: the one given, or the address in the credentials.\<close>

definition cohn_host :: "CohnCredentials \<Rightarrow> u16 list option \<Rightarrow> (string + u16 list)" where
  "cohn_host c host =
     (case host of
        Some h \<Rightarrow> Inr h
      | None \<Rightarrow> (case co_ipAddress c of Some h \<Rightarrow> Inr h | None \<Rightarrow> Inl ''no host''))"

section \<open>Livestreams\<close>

datatype EnumLiveStreamStatus =
    LIVE_STREAM_STATE_IDLE
  | LIVE_STREAM_STATE_CONFIG
  | LIVE_STREAM_STATE_READY
  | LIVE_STREAM_STATE_STREAMING
  | LIVE_STREAM_STATE_COMPLETE_STAY_ON
  | LIVE_STREAM_STATE_FAILED_STAY_ON
  | LIVE_STREAM_STATE_RECONNECTING
  | LIVE_STREAM_STATE_UNAVAILABLE

record LiveStatus =
  ls_status :: "EnumLiveStreamStatus option"
  ls_error :: "int option"

datatype LiveError =
    LiveArgument
  | LiveOutcome Outcome
  | LiveFailed "int option"
  | LiveUnavailable
  | LiveTimedOut
  | LiveDecode
  | LiveCamera

definition live_status :: "(bytes \<Rightarrow> LiveStatus option) \<Rightarrow> (Outcome \<times> bytes) option \<Rightarrow> LiveError + LiveStatus" where
  "live_status fromBuffer reply =
     (case reply of
        None \<Rightarrow> Inl LiveCamera
      | Some (outcome, payload) \<Rightarrow>
          if outcome \<noteq> kResponded then Inl (LiveOutcome outcome)
          else if length payload < 2 then Inl LiveDecode
          else (case fromBuffer (drop 2 payload) of None \<Rightarrow> Inl LiveDecode | Some s \<Rightarrow> Inr s))"

definition live_look ::
  "(bytes \<Rightarrow> LiveStatus option) \<Rightarrow> (nat \<Rightarrow> (Outcome \<times> bytes) option) \<Rightarrow> nat \<Rightarrow> (LiveError + LiveStatus) option" where
  "live_look fromBuffer camera i =
     (case live_status fromBuffer (camera i) of
        Inl e \<Rightarrow> Some (Inl e)
      | Inr s \<Rightarrow>
          (let state = ls_status s in
           if state = Some LIVE_STREAM_STATE_READY \<or> state = Some LIVE_STREAM_STATE_STREAMING then Some (Inr s)
           else if state = Some LIVE_STREAM_STATE_FAILED_STAY_ON then Some (Inl (LiveFailed (ls_error s)))
           else if state = Some LIVE_STREAM_STATE_UNAVAILABLE then Some (Inl LiveUnavailable)
           else None))"

definition waitUntilReady ::
  "(bytes \<Rightarrow> LiveStatus option) \<Rightarrow> (nat \<Rightarrow> (Outcome \<times> bytes) option) \<Rightarrow> (nat \<Rightarrow> int) \<Rightarrow> int \<Rightarrow>
   (LiveError + LiveStatus) option" where
  "waitUntilReady fromBuffer camera elapsed timeout =
     map_option (\<lambda>r. case r of None \<Rightarrow> Inl LiveTimedOut | Some x \<Rightarrow> x)
       (poll_until elapsed timeout (live_look fromBuffer camera) 0)"

text \<open>Starting waits its turn, stopping does not.\<close>

definition shutter_command :: "bool \<Rightarrow> bytes \<times> Priority" where
  "shutter_command on = ([1, 1, if on then 1 else 0], if on then kQueued else kFastpass)"

definition live_shutter :: "(bytes \<Rightarrow> Priority \<Rightarrow> (Outcome \<times> bytes) option) \<Rightarrow> bool \<Rightarrow> LiveError option" where
  "live_shutter camera on =
     (case camera (fst (shutter_command on)) (snd (shutter_command on)) of
        None \<Rightarrow> Some LiveCamera
      | Some (outcome, payload) \<Rightarrow> if outcome \<noteq> kResponded then Some (LiveOutcome outcome) else None)"

text \<open>Configuring: of the reply only the outcome is looked at.\<close>

definition live_configure :: "u16 list \<Rightarrow> (Outcome \<times> bytes) option \<Rightarrow> LiveError option" where
  "live_configure url reply =
     (if url = [] then Some LiveArgument
      else (case reply of
              None \<Rightarrow> Some LiveCamera
            | Some (outcome, payload) \<Rightarrow>
                if outcome \<noteq> kResponded then Some (LiveOutcome outcome) else None))"

text \<open>So a configuration the camera refuses in its reply is taken for one it accepted.\<close>

lemma refused_configuration_unnoticed:
  "url \<noteq> [] \<Longrightarrow> live_configure url (Some (kResponded, payload)) = None"
  by (simp add: live_configure_def)

text \<open>Stopping is never held back by the ready gate nor by the command in flight.\<close>

lemma stop_never_waits:
  assumes "e_priority e = snd (shutter_command False)" "\<not> is_in_flight q (e_id e)"
  shows "can_send q e"
  using assms by (simp add: can_send_def shutter_command_def)

section \<open>Basic authentication\<close>

definition high_surrogate :: "u16 \<Rightarrow> bool" where
  "high_surrogate c \<longleftrightarrow> c AND 0xFC00 = 0xD800"

definition low_surrogate :: "u16 \<Rightarrow> bool" where
  "low_surrogate c \<longleftrightarrow> c AND 0xFC00 = 0xDC00"

text \<open>\<open>utf8.encode\<close>: a pair of surrogates is one character, a lone one becomes the replacement character.\<close>

definition utf8_unit :: "u16 \<Rightarrow> bytes" where
  "utf8_unit c =
     (if c < 0x80 then [ucast c]
      else if c < 0x800 then [0xC0 OR ucast (drop_bit 6 c), 0x80 OR (ucast c AND 0x3F)]
      else if high_surrogate c \<or> low_surrogate c then [0xEF, 0xBF, 0xBD]
      else [0xE0 OR ucast (drop_bit 12 c), 0x80 OR (ucast (drop_bit 6 c) AND 0x3F), 0x80 OR (ucast c AND 0x3F)])"

definition utf8_pair :: "u16 \<Rightarrow> u16 \<Rightarrow> bytes" where
  "utf8_pair hi lo =
     (let r = 0x10000 + (push_bit 10 (ucast hi AND 0x3FF) OR (ucast lo AND 0x3FF)) :: u32
      in [0xF0 OR ucast (drop_bit 18 r), 0x80 OR (ucast (drop_bit 12 r) AND 0x3F),
          0x80 OR (ucast (drop_bit 6 r) AND 0x3F), 0x80 OR (ucast r AND 0x3F)])"

fun utf8_encode :: "u16 list \<Rightarrow> bytes" where
  "utf8_encode [] = []"
| "utf8_encode [c] = utf8_unit c"
| "utf8_encode (c # d # r) =
     (if high_surrogate c \<and> low_surrogate d then utf8_pair c d @ utf8_encode r
      else utf8_unit c @ utf8_encode (d # r))"

definition base64_char :: "u8 \<Rightarrow> char" where
  "base64_char i = ''ABCDEFGHIJKLMNOPQRSTUVWXYZabcdefghijklmnopqrstuvwxyz0123456789+/'' ! unat (i AND 0x3F)"

fun base64Encode :: "bytes \<Rightarrow> string" where
  "base64Encode [] = []"
| "base64Encode [a] = [base64_char (drop_bit 2 a), base64_char (push_bit 4 a), CHR ''='', CHR ''='']"
| "base64Encode [a, b] =
     [base64_char (drop_bit 2 a), base64_char (push_bit 4 a OR drop_bit 4 b), base64_char (push_bit 2 b), CHR ''='']"
| "base64Encode (a # b # c # r) =
     [base64_char (drop_bit 2 a), base64_char (push_bit 4 a OR drop_bit 4 b),
      base64_char (push_bit 2 b OR drop_bit 6 c), base64_char c] @ base64Encode r"

definition basicAuth :: "CohnCredentials \<Rightarrow> Secret" where
  "basicAuth c =
     Secret (ascii (''Basic '' @ base64Encode
       (utf8_encode (co_username c) @ [0x3A] @ utf8_encode (secret_value (co_password c)))))"

definition basicAuthHeader :: "u16 list \<Rightarrow> u16 list \<Rightarrow> u16 list" where
  "basicAuthHeader username password =
     ascii (''Basic '' @ base64Encode (utf8_encode (username @ [0x3A] @ password)))"

lemma utf8_colon: "utf8_encode (0x3A # r) = 0x3A # utf8_encode r"
  by (cases r) (simp_all add: utf8_unit_def high_surrogate_def)

lemma utf8_append_colon: "utf8_encode (s @ 0x3A # r) = utf8_encode s @ 0x3A # utf8_encode r"
proof (induction s rule: utf8_encode.induct)
  case (2 c)
  then show ?case by (simp add: low_surrogate_def utf8_colon)
next
  case (3 c d r)
  then show ?case by (cases "high_surrogate c \<and> low_surrogate d") auto
qed (simp add: utf8_colon)

text \<open>Putting the header together from bytes, so that the two are never one string, or from one
  string, is the same.\<close>

lemma basicAuth_is_header: "secret_value (basicAuth c) = basicAuthHeader (co_username c) (secret_value (co_password c))"
  by (simp add: basicAuth_def basicAuthHeader_def utf8_append_colon)

section \<open>What polling returns\<close>

lemma provision_look_Inr:
  assumes "provision_look rd camera i = Some (Inr c)"
  shows "\<exists>s ip. cohn_status rd (camera (CallStatus i)) = Inr s \<and> st_provisioned s \<and>
    st_ipaddress s = Some ip \<and> ip \<noteq> [] \<and> co_ipAddress c = Some ip \<and>
    st_username s = Some (co_username c) \<and> st_password s = Some (secret_value (co_password c)) \<and>
    cohn_certificate rd (camera (CallCert i)) = Inr (co_certificate c)"
  using assms
  by (auto simp: provision_look_def cohn_connected_def bind_sum_case split: sum.splits if_splits option.splits)

lemma provision_look_None:
  "provision_look rd camera i = None \<longleftrightarrow>
     (\<exists>s. cohn_status rd (camera (CallStatus i)) = Inr s \<and> \<not> cohn_connected s)"
  by (auto simp: provision_look_def split: sum.splits option.splits if_splits)

lemma certificate_not_empty: "cohn_certificate rd reply = Inr c \<Longrightarrow> c \<noteq> []"
  by (auto simp: cohn_certificate_def bind_sum_case split: sum.splits option.splits if_splits)

text \<open>
  C22. Provisioning returns only credentials that can be used: the camera was asked to make a
  certificate and to turn the home network on, and agreed; it then reported that it is
  provisioned and has an address, in time and in the first status of which that is so; user
  name, password and address are those of that status, the certificate is the camera's and not
  empty, and a client built from the credentials has a host.
\<close>

theorem provision_returns_usable:
  assumes "provision rd camera override elapsed timeout = Some (Inr c)"
  shows "createCertificate rd False (camera (CallCreateCert override)) = Inr () \<and>
    cohn_command rd ''set enabled'' (camera CallEnable) = Inr () \<and>
    (\<exists>i s ip. elapsed i < timeout \<and> cohn_status rd (camera (CallStatus i)) = Inr s \<and>
       (\<forall>k<i. \<exists>t. cohn_status rd (camera (CallStatus k)) = Inr t \<and> \<not> cohn_connected t) \<and>
       st_provisioned s \<and> st_ipaddress s = Some ip \<and> ip \<noteq> [] \<and> cohn_host c None = Inr ip \<and>
       st_username s = Some (co_username c) \<and> st_password s = Some (secret_value (co_password c)) \<and>
       cohn_certificate rd (camera (CallCert i)) = Inr (co_certificate c) \<and> co_certificate c \<noteq> [])"
proof -
  have b: "createCertificate rd False (camera (CallCreateCert override)) = Inr ()"
    "cohn_command rd ''set enabled'' (camera CallEnable) = Inr ()"
    using assms by (auto simp: provision_def bind_sum_case split: sum.splits)
  then obtain r where p: "poll_until elapsed timeout (provision_look rd camera) 0 = Some r"
    and "(case r of None \<Rightarrow> Inl (CohnException ''timed out waiting for the camera to reach the network'' None) | Some x \<Rightarrow> x) = Inr c"
    using assms by (auto simp: provision_def)
  then have "r = Some (Inr c)" by (auto split: option.splits)
  with poll_until_SomeD [OF p] obtain i where i: "elapsed i < timeout" "provision_look rd camera i = Some (Inr c)"
    "\<forall>k<i. provision_look rd camera k = None"
    by (auto simp: stops_at_def split: if_splits)
  from provision_look_Inr [OF i(2)] obtain s ip where "cohn_status rd (camera (CallStatus i)) = Inr s"
    "st_provisioned s" "st_ipaddress s = Some ip" "ip \<noteq> []" "co_ipAddress c = Some ip"
    "st_username s = Some (co_username c)" "st_password s = Some (secret_value (co_password c))"
    "cohn_certificate rd (camera (CallCert i)) = Inr (co_certificate c)" by blast
  moreover from this have "co_certificate c \<noteq> []" "cohn_host c None = Inr ip"
    by (auto simp: cohn_host_def dest: certificate_not_empty)
  ultimately show ?thesis using b i(1,3) provision_look_None by metis
qed

text \<open>Provisioning and waiting for a livestream end once the clock has passed the timeout at a look.\<close>

lemma polling_ends:
  assumes "timeout \<le> elapsed n"
  shows "provision rd camera override elapsed timeout \<noteq> None" "waitUntilReady fromBuffer live elapsed timeout \<noteq> None"
proof -
  show "provision rd camera override elapsed timeout \<noteq> None"
    using poll_stops [where elapsed = elapsed and n = n and look = "provision_look rd camera", OF assms] poll_until_stops
    by (fastforce simp: provision_def split: sum.splits)
  show "waitUntilReady fromBuffer live elapsed timeout \<noteq> None"
    using poll_stops [where elapsed = elapsed and n = n and look = "live_look fromBuffer live", OF assms] poll_until_stops
    by (fastforce simp: waitUntilReady_def)
qed

text \<open>Waiting for a livestream returns only a status that says it is ready or running.\<close>

lemma live_ready:
  assumes "waitUntilReady fromBuffer camera elapsed timeout = Some (Inr s)"
  shows "ls_status s \<in> {Some LIVE_STREAM_STATE_READY, Some LIVE_STREAM_STATE_STREAMING}"
proof -
  obtain r where p: "poll_until elapsed timeout (live_look fromBuffer camera) 0 = Some r"
    and "(case r of None \<Rightarrow> Inl LiveTimedOut | Some x \<Rightarrow> x) = Inr s"
    using assms by (auto simp: waitUntilReady_def)
  then have "r = Some (Inr s)" by (auto split: option.splits)
  with poll_until_SomeD [OF p] obtain i where "live_look fromBuffer camera i = Some (Inr s)"
    by (auto simp: stops_at_def split: if_splits)
  then show ?thesis by (auto simp: live_look_def Let_def split: sum.splits if_splits)
qed

text \<open>A camera that is provisioned at once and has an address at the third look.\<close>

definition demo_readers :: CohnReaders where
  "demo_readers =
     \<lparr>rd_generic = (\<lambda>bs. Some (unat (hd bs))),
      rd_status = (\<lambda>bs. Some \<lparr>st_provisioned = True,
        st_ipaddress = (if hd bs = 0 then None else Some (ascii ''192.168.1.7'')),
        st_username = Some (ascii ''gopro''), st_password = Some (ascii ''hunter2''),
        st_ssid = None, st_macaddress = None\<rparr>),
      rd_cert = (\<lambda>bs. Some (None, Some (ascii ''PEM'')))\<rparr>"

definition demo_cohn_camera :: "CohnCall \<Rightarrow> (Outcome \<times> bytes) option" where
  "demo_cohn_camera call =
     Some (kResponded, [0, 0] @ (case call of CallStatus i \<Rightarrow> [if i < 2 then 0 else 1] | _ \<Rightarrow> [1]))"

lemma provision_returns_usable_witness:
  "\<exists>c. provision demo_readers demo_cohn_camera False (\<lambda>i. 2 * int i) 120 = Some (Inr c) \<and>
     cohn_host c None = Inr (ascii ''192.168.1.7'') \<and> co_certificate c \<noteq> []"
proof -
  let ?look = "provision_look demo_readers demo_cohn_camera"
  note d = demo_readers_def demo_cohn_camera_def cohn_status_def cohn_send_def cohn_connected_def
    cohn_certificate_def provision_look_def
  have l: "?look i = None" if "i < 2" for i using that by (simp add: d ascii_def)
  obtain c where c: "?look 2 = Some (Inr c)" by (simp add: d ascii_def)
  have "stops_at (\<lambda>i. 2 * int i) 120 ?look 0 2 (Some (Inr c))" using l c by (auto simp: stops_at_def)
  then have "poll_until (\<lambda>i. 2 * int i) 120 ?look 0 = Some (Some (Inr c))" by (rule poll_until_stops)
  then have p: "provision demo_readers demo_cohn_camera False (\<lambda>i. 2 * int i) 120 = Some (Inr c)"
    by (simp add: provision_def createCertificate_def cohn_command_def cohn_send_def demo_readers_def
        demo_cohn_camera_def RESULT_SUCCESS_def)
  from provision_returns_usable [OF p] obtain i s ip where
    "cohn_status demo_readers (demo_cohn_camera (CallStatus i)) = Inr s" "st_ipaddress s = Some ip" "ip \<noteq> []"
    "cohn_host c None = Inr ip" "co_certificate c \<noteq> []" by blast
  moreover from this have "ip = ascii ''192.168.1.7''"
    by (auto simp: d split: if_splits)
  ultimately show ?thesis using p by blast
qed

end
