(* ===== verification/Spec2Isabelle.thy ===== *)
theory Spec2Isabelle
  imports Camera_Reply Pairing_Agent Dart_Discovery Ble_Outbound Http_Commands Cohn_Client
begin

text \<open>
  A verification of \<open>gopro_native\<close>: the C++ code under \<open>native/\<close> that a Dart package uses to control
  GoPro cameras, the Dart decoders of the messages that cross the boundary, the two Dart
  classes that sit on it, the camera over Bluetooth and the discovery over USB, and the Dart clients
  above them: HTTP, the camera's access point, networks, provisioning, credentials and streaming.

  \<^bold>\<open>The program.\<close> It has two independent halves. The Bluetooth half takes GATT notifications from
  Dart, reassembles them into messages, routes each message to the command that waits for it or
  reports it as a push, keeps a queue of commands behind a gate that follows the camera's busy
  and encoding statuses, sends keep-alives, and hands packets to be written back to Dart; beside
  it a state machine advises Dart on bringing up the link. The USB half watches libusb for
  cameras, works out their name, serial number, address and network interface, and settles each
  arrival until the camera answers. Both halves talk to Dart through a C interface: Dart calls
  functions, the library posts byte arrays to a port. On the Dart side \<open>GoProBleTransport\<close> brings a
  link up through BlueZ under the advice of the link machine and makes a \<open>GoProBleCamera\<close>, which
  feeds notifications in, performs the writes, ticks the session and completes the callers'
  futures; \<open>GoProDiscovery\<close> keeps the map of cameras the USB half reports.

  \<^bold>\<open>Theories, from the bottom.\<close> Each models one pair of source and header file and has the names
  of the source; \<open>void*\<close> handles are optional contexts, callbacks and posts are output events.
  \<^item> \<open>Gp_Prelude\<close>: machine words, byte strings, running a machine over a list of inputs, and the
    contracts the components share as locales: machines with an invariant, with a ledger of
    what they owe, with a part that can be observed on its own, and refining a simpler machine.
  \<^item> \<open>Ble_Protocol\<close> (\<open>ble_protocol.cpp\<close>): \<open>fragment\<close> and the \<open>Reassembler\<close>. The locale \<open>framing\<close> states
    what a sender and a receiver promise each other; its interpretation gives that a message
    arrives whatever was received before, for every payload size and message length. \<open>framed\<close> is
    the wire format itself, with the GENERAL headers and the packet sizes that only the camera
    uses; the receiver delivers exactly the messages so framed.
  \<^item> \<open>Query_Parser\<close> (\<open>query_parser.cpp\<close>): query responses and the \<open>ReadyState\<close>. Parsing is
    characterised against a grammar of entries; readiness is a function of the status history.
  \<^item> \<open>Command_Queue\<close> (\<open>command_queue.cpp\<close>): the gated queue. Invariant, exactly one completion per
    accepted command, what is gated and what never is, deadlines.
  \<^item> \<open>Ble_Session\<close> (\<open>ble_session.cpp\<close>): four reassemblers, the queue, the ready state and the
    keep-alive. Each channel delivers exactly its messages, the gate equals the readiness, every
    submission is answered once, keep-alives are never starved, a disconnect forgets everything.
  \<^item> \<open>Ble_Bridge\<close> (\<open>ble_bridge.cpp\<close>, \<open>ble_codec.dart\<close>): the C functions and the event bytes; Dart
    sees exactly the events of the session.
  \<^item> \<open>Ble_Link\<close> (\<open>ble_link.cpp\<close>) and \<open>Link_Bridge\<close> (\<open>link_bridge.cpp\<close>, \<open>link_types.dart\<close>): the link
    machine refines the history of its stage; the packed advice loses nothing on its way to Dart.
  \<^item> \<open>Glaze_Meta\<close> (\<open>glaze_meta.h\<close>): the field codecs, each an interpretation of the locale
    \<open>field_codec\<close>. \<open>Gopro_Types\<close> (\<open>gopro_types.h\<close>, \<open>codec.dart\<close>): the camera record and its Dart reader,
    field by field an interpretation of \<open>dart_field\<close>.
  \<^item> \<open>Gopro_Usb\<close> and \<open>Usb_Discovery\<close> (\<open>gopro_usb.cpp\<close>): names, interface scan, readiness, waiting;
    building cameras, hotplug and the arrival cache.
  \<^item> \<open>Dart_Api_Dl\<close> (\<open>dart_api_dl.c\<close>): binding the functions of the Dart VM.
  \<^item> \<open>Gopro_Bridge\<close> (\<open>gopro_bridge.cpp\<close>): the worker thread and the Dart thread as a step relation;
    what a pass reports, that a departed camera is not reported, that destroying ends.
  \<^item> \<open>Ble_Outbound\<close>: the session composed with the camera's reassembler. The camera completes only
    payloads that were submitted on the channel, each at most as often, and is never left inside
    a message; a command nothing holds back arrives in the call that submits it.
  \<^item> \<open>Dart_Native\<close> (\<open>dart_native_api.h\<close>): the objects that are posted.
  \<^item> \<open>Ble_Transport\<close> and \<open>Ble_Camera\<close> (\<open>ble_transport.dart\<close>, \<open>ble_bindings.dart\<close>): a connected camera as the
    pieces of its asynchronous functions that the event loop interleaves. Futures complete
    exactly once, what is pending in Dart is what the native side holds; unless the camera
    reconnects, a close settles everything and freed handles are not used. With reconnection
    the two lemmas about a close that overlaps a drop show what goes wrong. Each is an
    interpretation of a contract of the prelude: a flow, a guarded machine, an invariant.
  \<^item> \<open>Camera_Reply\<close>: a reply, framed in any way the wire format allows, on its way through all the
    layers to the caller's future.
  \<^item> \<open>Bring_Up\<close> (\<open>ble_transport.dart\<close>): selecting a camera, the loop of bring-up and \<open>connect\<close>. It returns
    only on evidence, explains every failure, and ends; the camera it hands over has its status
    query in flight.
  \<^item> \<open>Pairing_Agent\<close> (\<open>ble_transport.dart\<close>): whose pairing requests are accepted; reading a characteristic.
  \<^item> \<open>Dart_Discovery\<close> (\<open>discovery.dart\<close>): the list of cameras is what the bridge said last, a departed
    camera leaves it, \<open>start\<close> completes with the attached cameras listed.
  \<^item> \<open>Http_Message\<close> (\<open>http_message.dart\<close>): the request of a message, read back by a server exactly as it was
    meant. \<open>Http_Client\<close> (\<open>gopro_http.dart\<close>): exchanges under a deadline; a download leaves a whole
    file or none, and a stalled one ends. \<open>Http_Commands\<close> (\<open>commands.dart\<close> and the table it looks messages
    up in, \<open>webcam.dart\<close>): the two agree, so every command is sent and whole. \<open>Dart_Strings\<close> holds the
    string operations these share.
  \<^item> \<open>Wifi_Join\<close> (\<open>secret.dart\<close>, \<open>wifi_controller.dart\<close>, \<open>access_point.dart\<close>): secrets, the access point, nmcli;
    what nmcli prints is scrubbed of the passphrase.
  \<^item> \<open>Credential_Store\<close> (\<open>credentials.dart\<close>): the class \<open>CohnCredentialStore\<close> is the locale \<open>credential_store\<close>,
    interpreted by the file store for calls that return and calls that throw half way; a read
    follows the latest change, and credentials stay private.
  \<^item> \<open>Network_Client\<close> (\<open>network_client.dart\<close>): calls that end with a notification end the same way in
    every order of events; the list of access points is gathered exactly, with bounded requests.
  \<^item> \<open>Cohn_Client\<close> (\<open>cohn_client.dart\<close>, \<open>cohn_http.dart\<close>, \<open>livestream.dart\<close>): polling; provisioning returns only
    credentials that can be used and ends with the clock.

  \<^bold>\<open>Representation.\<close> \<open>uintN_t\<close> values are words of that width, so subtraction of times wraps as in
  C++; \<open>size_t\<close> values are sizes of containers and are natural numbers. \<open>std::map\<close> is a sorted
  association list, \<open>std::unordered_map\<close> a map. Reading past a buffer, undefined in C++, is
  \<open>None\<close> in \<open>Glaze_Meta\<close> and \<open>Dart_Api_Dl\<close>; Dart's exceptions are values of a sum type.

  \<^bold>\<open>Termination.\<close> Loops over containers are structural recursion. The fragment loop and the backoff
  loop are functions with a termination proof. \<open>wait_until_ready\<close> may poll for ever if the clock
  stands still, so it is a partial function with \<open>None\<close> for not returning, and it is proved to
  return once the clock passes the deadline; so are the polling loops of the home network and
  the livestream and the loop of bring-up, which is proved to end
  in the turn in which the stopwatch reaches the timeout. No fuel is used.

  \<^bold>\<open>What is assumed.\<close> The file system, the interface table, sockets and the clock are a record of
  answers (\<open>Env\<close>), possibly different at each look; libusb's devices, device list and results are
  arguments; \<open>utf8.decode\<close> is a parameter. A look at the system is one answer per question: a
  file that changes between two reads inside one call is not represented. BlueZ is another
  package: what a turn of bring-up reads from it and which of its calls fail is the argument
  \<open>Turn\<close>. A receive port delivers posts in order, and a posted \<open>uint8\<close> array arrives as an
  \<open>Uint8List\<close>. A download is modelled from the labels of its network and disk; the property about
  its file asks of the disk only that closing and deleting do not fail, and a lemma shows what
  happens when a write does. That credentials stay private asks that \<open>chmod\<close> is not refused, and a
  lemma shows what happens when it is; what a read returns is stated for every outcome.

  \<^bold>\<open>What is not modelled.\<close> The loading of the library and the FFI declarations, which hold no logic; the
  encoding of protobuf messages, which is generated code, so that their readers are arguments
  and the fields of requests are not kept; the TLS context that pins a certificate, which is
  configuration of \<open>dart:io\<close>; what the methods of \<open>commands.dart\<close> pick out of a decoded reply; generated
  or vendored declarations, among them nearly all of \<open>dart_api.h\<close>, which declares functions of the
  Dart VM and has no code; memory allocation failure; the two deprecated functions of
  \<open>dart_api_dl.c\<close>, which only print. The texts of exceptions other than those of bring-up and of
  joining are not kept, and cancelling a subscription or stopping a notification is assumed to
  return. Of the native code there is nothing left that has behaviour of its own.
\<close>

end
